(* ===== verification/Prelude.thy ===== *)
theory Prelude
  imports Main "HOL-Library.Word"
begin

unbundle bit_operations_syntax

text \<open>
  What every other theory of the development shares: the names of the machine types, the
  ways a C++ function can fail to return a value, sequencing of fallible computations, the
  operations of \<open>std::string_view\<close> the code uses, and word lemmas.

  Bytes are \<open>8 word\<close>; a C++ \<open>char\<close> is the same eight bits, and the places where the
  code widens a (signed) \<open>char\<close> are written with \<open>scast\<close>. \<open>std::size_t\<close> is
  \<open>64 word\<close>, so its sums wrap around.
\<close>

section \<open>Machine types\<close>

type_synonym byte = "8 word"
type_synonym bytes = "byte list"
type_synonym u32 = "32 word"
type_synonym u64 = "64 word"

named_theorems try_simps \<open>equations of the fallible-computation combinators\<close>

text \<open>\<open>std::strong_ordering\<close>.\<close>

datatype ordering = Less | Equal | Greater

section \<open>Results\<close>

text \<open>
  The ways control leaves a function other than by \<open>return\<close>: a thrown
  \<open>std::runtime_error\<close> with its message, the \<open>std::out_of_range\<close> and
  \<open>std::length_error\<close> of the standard containers, an operation whose behaviour the
  language leaves undefined (an out-of-bounds read, a null dereference, a division by zero),
  a loop that never ends, and the library's own \<open>UpToDateError\<close>.
\<close>

datatype cpp_error =
    Runtime_error string
  | Out_of_range
  | Length_error
  | Undefined_behaviour
  | Does_not_return
  | Up_to_date_error string

type_synonym 'a result = "cpp_error + 'a"

definition try_then :: "'a result \<Rightarrow> ('a \<Rightarrow> 'b result) \<Rightarrow> 'b result" where
  "try_then m f = (case m of Inl e \<Rightarrow> Inl e | Inr x \<Rightarrow> f x)"

lemma try_then_Inl [simp, try_simps]: "try_then (Inl e) f = Inl e"
  and try_then_Inr [simp, try_simps]: "try_then (Inr x) f = f x"
  by (simp_all add: try_then_def)

lemma try_then_eq_Inr:
  "try_then m f = Inr y \<longleftrightarrow> (\<exists>x. m = Inr x \<and> f x = Inr y)"
  by (cases m) auto

lemma try_then_eq_Inl:
  "try_then m f = Inl e \<longleftrightarrow> m = Inl e \<or> (\<exists>x. m = Inr x \<and> f x = Inl e)"
  by (cases m) auto

lemma try_then_assoc: "try_then (try_then m f) g = try_then m (\<lambda>x. try_then (f x) g)"
  by (cases m) auto

lemma try_thenE:
  assumes "try_then m f = Inr y"
  obtains x where "m = Inr x" "f x = Inr y"
  using assms by (auto simp: try_then_eq_Inr)

text \<open>\<open>throw_if\<close> is the guard \<open>if (c) throw e;\<close>.\<close>

definition throw_if :: "bool \<Rightarrow> cpp_error \<Rightarrow> unit result" where
  "throw_if c e = (if c then Inl e else Inr ())"

lemma throw_if_simps [simp, try_simps]:
  "throw_if True e = Inl e" "throw_if False e = Inr ()"
  by (simp_all add: throw_if_def)

lemma throw_if_eq_Inr [simp]: "throw_if c e = Inr u \<longleftrightarrow> \<not> c"
  by (simp add: throw_if_def)

lemma throw_if_eq_Inl [simp]: "throw_if c e = Inl e' \<longleftrightarrow> c \<and> e = e'"
  by (simp add: throw_if_def)

section \<open>String views\<close>

text \<open>
  A \<open>std::string_view\<close> or \<open>std::string\<close> is its byte sequence. No string reaches
  \<open>2^63\<close> bytes (\<open>max_size\<close>), which \<open>addressable\<close> states; under it \<open>size()\<close>,
  a 64-bit word, is the length.
\<close>

definition addressable :: "bytes \<Rightarrow> bool" where
  "addressable s \<longleftrightarrow> length s < 2 ^ 63"

definition sv_size :: "bytes \<Rightarrow> u64" where
  "sv_size s = of_nat (length s)"

text \<open>\<open>operator[]\<close> is unchecked: reading at or past the end is undefined.\<close>

definition sv_at :: "bytes \<Rightarrow> u64 \<Rightarrow> byte result" where
  "sv_at s i = (if i < sv_size s then Inr (s ! unat i) else Inl Undefined_behaviour)"

text \<open>\<open>substr\<close> throws when the position is past the end and clips the count.\<close>

definition sv_substr :: "bytes \<Rightarrow> u64 \<Rightarrow> u64 \<Rightarrow> bytes result" where
  "sv_substr s pos n =
     (if sv_size s < pos then Inl Out_of_range
      else Inr (take (unat n) (drop (unat pos) s)))"

definition npos :: u64 where
  "npos = - 1"

definition starts_with :: "'a list \<Rightarrow> 'a list \<Rightarrow> bool" where
  "starts_with s p \<longleftrightarrow> take (length p) s = p"

lemma unat_sv_size: "addressable s \<Longrightarrow> unat (sv_size s) = length s"
  by (simp add: addressable_def sv_size_def unat_of_nat take_bit_eq_mod)

lemma addressable_drop [intro]: "addressable s \<Longrightarrow> addressable (drop n s)"
  by (simp add: addressable_def)

lemma addressable_take [intro]: "addressable s \<Longrightarrow> addressable (take n s)"
  by (simp add: addressable_def)

lemma addressable_append: "addressable (s @ t) \<Longrightarrow> addressable s \<and> addressable t"
  by (simp add: addressable_def)

lemma addressable_Nil [simp]: "addressable []"
  by (simp add: addressable_def)

lemma starts_with_append [simp]: "starts_with (p @ s) p"
  by (simp add: starts_with_def)

lemma starts_with_iff: "starts_with s p \<longleftrightarrow> (\<exists>t. s = p @ t)"
  by (metis append_take_drop_id append_eq_conv_conj starts_with_def)

lemma sv_size_less_iff:
  "addressable s \<Longrightarrow> sv_size s < n \<longleftrightarrow> length s < unat n"
  by (simp add: word_less_nat_alt unat_sv_size)

lemma sv_substr_append:
  assumes "addressable (s @ t)" "unat n = length s"
  shows "sv_substr (s @ t) n npos = Inr t"
    and "sv_substr (s @ t) 0 n = Inr s"
proof -
  from assms have "length t \<le> unat npos"
    by (simp add: addressable_def npos_def unsigned_minus_1_eq_mask mask_eq_exp_minus_1)
  with assms show "sv_substr (s @ t) n npos = Inr t"
    by (simp add: sv_substr_def sv_size_less_iff)
  from assms show "sv_substr (s @ t) 0 n = Inr s"
    by (simp add: sv_substr_def)
qed

lemma sv_at_0 [simp]: "sv_at [] 0 = Inl Undefined_behaviour"
  by (simp add: sv_at_def sv_size_def)

lemma sv_at_0_Cons: "addressable (b # s) \<Longrightarrow> sv_at (b # s) 0 = Inr b"
  using sv_size_less_iff [of "b # s" 1]
  by (simp add: sv_at_def word_less_nat_alt unat_sv_size)

lemma sv_at_nth: "addressable s \<Longrightarrow> unat i < length s \<Longrightarrow> sv_at s i = Inr (s ! unat i)"
  by (simp add: sv_at_def word_less_nat_alt unat_sv_size)

lemma sv_at_append:
  "addressable (s @ t) \<Longrightarrow> unat i < length s \<Longrightarrow> sv_at (s @ t) i = Inr (s ! unat i)"
  by (simp add: sv_at_nth nth_append)

lemma sv_substr_no_UB: "sv_substr s i n \<noteq> Inl Undefined_behaviour"
  by (simp add: sv_substr_def)

lemma throw_if_no_UB: "e \<noteq> Undefined_behaviour \<Longrightarrow> throw_if c e \<noteq> Inl Undefined_behaviour"
  by simp

section \<open>Widening bytes\<close>

lemma unat_of_nat_u64: "m < 2 ^ 64 \<Longrightarrow> unat (of_nat m :: u64) = m"
  by (simp add: unat_of_nat take_bit_nat_eq_self)

lemma unat_byte_less: "unat (b :: byte) < 256"
  using unsigned_less [where 'a = nat, of b] by simp

lemma unat_ucast_byte_u32: "unat (ucast (b :: byte) :: u32) = unat b"
proof -
  have "unat b < 2 ^ 8" using unsigned_less [of b] by simp
  then have "unat b < 2 ^ 32" by simp
  then show ?thesis by (simp add: unsigned_ucast_eq take_bit_nat_eq_self)
qed

lemma ucast_of_nat_byte: "m < 256 \<Longrightarrow> (ucast (of_nat m :: byte) :: u32) = of_nat m"
  by (simp add: word_unat_eq_iff unat_ucast_byte_u32 unat_of_nat take_bit_nat_eq_self)

lemma scast_byte: "(scast (c :: byte) :: u32) = ucast c - (if bit c 7 then 256 else 0)"
proof -
  have "sint c = uint c - (if bit c 7 then 256 else 0)"
    by (simp add: sint_uint signed_take_bit_eq_take_bit_minus bit_uint_iff take_bit_int_eq_self
        unsigned_less [of c, simplified])
  then have "(of_int (sint c) :: u32) = of_int (uint c) - (if bit c 7 then 256 else 0)"
    by simp
  then show ?thesis by simp
qed

end
