(* ===== verification/Paths.thy ===== *)
theory Paths
  imports Prelude
begin

text \<open>
  \<open>source/Utils/Path.cpp\<close> (the POSIX branches) and what the code uses of
  \<open>std::filesystem::path\<close>. A path is its native string; its iteration is a list of
  elements: the root directory if the string starts with a slash, the non-empty names
  between slashes, and an empty last element when a name is followed by a slash. Paths
  compare by their elements, so several strings are one path. (POSIX paths have no root
  name: two leading slashes are a root directory.)
\<close>

section \<open>Paths of the standard library\<close>

type_synonym path = string

definition slash :: char where
  "slash = CHR ''/''"

fun split_slash :: "string \<Rightarrow> string list" where
  "split_slash [] = [[]]"
| "split_slash (c # cs) =
     (if c = slash then [] # split_slash cs
      else case split_slash cs of [] \<Rightarrow> [[c]] | w # ws \<Rightarrow> (c # w) # ws)"

definition names :: "path \<Rightarrow> string list" where
  "names p = filter (\<lambda>w. w \<noteq> []) (split_slash p)"

definition absolute :: "path \<Rightarrow> bool" where
  "absolute p \<longleftrightarrow> p \<noteq> [] \<and> hd p = slash"

definition elems :: "path \<Rightarrow> string list" where
  "elems p = (if absolute p then [[slash]] else []) @ names p @
     (if names p \<noteq> [] \<and> last p = slash then [[]] else [])"

definition path_eq :: "path \<Rightarrow> path \<Rightarrow> bool" where
  "path_eq p q \<longleftrightarrow> elems p = elems q"

text \<open>\<open>operator/=\<close>: an absolute operand replaces the path.\<close>

definition path_append :: "path \<Rightarrow> path \<Rightarrow> path" where
  "path_append p q =
     (if absolute q then q
      else if p \<noteq> [] \<and> last p \<noteq> slash then p @ [slash] @ q
      else p @ q)"

text \<open>\<open>filename()\<close> is the last element, the root directory excepted; \<open>relative_path()\<close>
  drops the root directory.\<close>

definition path_filename :: "path \<Rightarrow> path" where
  "path_filename p = (if names p = [] \<or> last p = slash then [] else last (names p))"

definition relative_path :: "path \<Rightarrow> path" where
  "relative_path p = dropWhile (\<lambda>c. c = slash) p"

text \<open>The strings of the wire format and paths are the same bytes.\<close>

definition path_of_bytes :: "bytes \<Rightarrow> path" where
  "path_of_bytes s = map (\<lambda>b. char_of (unat b)) s"

definition bytes_of_path :: "path \<Rightarrow> bytes" where
  "bytes_of_path p = map (\<lambda>c. of_nat (of_char c)) p"

lemma bytes_of_path_of_bytes [simp]: "bytes_of_path (path_of_bytes s) = s"
  unfolding bytes_of_path_def path_of_bytes_def map_map
  by (rule map_idI) (simp add: unat_byte_less)

lemma path_of_bytes_of_path [simp]: "path_of_bytes (bytes_of_path p) = p"
  unfolding bytes_of_path_def path_of_bytes_def map_map
proof (rule map_idI)
  fix c :: char
  have "(of_char c :: nat) < 256" by simp
  then show "((\<lambda>b. char_of (unat b)) \<circ> (\<lambda>c. of_nat (of_char c) :: byte)) c = c"
    by (simp add: unat_of_nat take_bit_nat_eq_self)
qed

section \<open>Home directories\<close>

text \<open>
  The environment and the user database are the system's: \<open>getenv_home\<close> is the value of
  \<open>HOME\<close>, \<open>pw_dir\<close> the home directory the database gives a user name, and for the empty
  name the current user.
\<close>

definition home_directoy :: "string option \<Rightarrow> (string \<Rightarrow> string option) \<Rightarrow> string \<Rightarrow> path" where
  "home_directoy getenv_home pw_dir user =
     (let home = (if user = [] then getenv_home else None);
          home = (if home = None then pw_dir user else home)
      in case home of
           None \<Rightarrow> []
         | Some res \<Rightarrow>
             if res = [] then res
             else if last res \<noteq> slash then res @ [slash] else res)"

text \<open>
  \<open>home_directoy()\<close> keeps the answer for the current user in a static variable. The environment is
  fixed in what follows, so that the first answer is every answer.
\<close>

definition home_directoy_cached :: "path option \<Rightarrow> string option \<Rightarrow> (string \<Rightarrow> string option) \<Rightarrow> path \<times> path option" where
  "home_directoy_cached home getenv_home pw_dir =
     (case home of
        None \<Rightarrow> (let home = home_directoy getenv_home pw_dir [] in (home, Some home))
      | Some home \<Rightarrow> (home, Some home))"

lemma home_directoy_cached:
  "home \<in> {None, Some (home_directoy getenv_home pw_dir [])} \<Longrightarrow>
     home_directoy_cached home getenv_home pw_dir = (home_directoy getenv_home pw_dir [], Some (home_directoy getenv_home pw_dir []))"
  by (auto simp: home_directoy_cached_def Let_def)

definition find_slash :: "string \<Rightarrow> nat option" where
  "find_slash str =
     (let n = length (takeWhile (\<lambda>c. c \<noteq> slash) str) in if n = length str then None else Some n)"

definition resolve_home_component :: "string option \<Rightarrow> (string \<Rightarrow> string option) \<Rightarrow> path \<Rightarrow> path" where
  "resolve_home_component getenv_home pw_dir path =
     (if \<not> starts_with path ''~'' then path
      else
        let pos = find_slash path;
            home = (if pos = Some 1 then home_directoy getenv_home pw_dir []
                    else home_directoy getenv_home pw_dir
                      (case pos of None \<Rightarrow> drop 1 path | Some n \<Rightarrow> take (n - 1) (drop 1 path)))
        in if home = [] then path
           else case pos of
               None \<Rightarrow> home
             | Some n \<Rightarrow> path_append home (drop (n + 1) path))"

definition resolve_home_components ::
    "string option \<Rightarrow> (string \<Rightarrow> string option) \<Rightarrow> path list \<Rightarrow> path list" where
  "resolve_home_components getenv_home pw_dir paths = map (resolve_home_component getenv_home pw_dir) paths"

section \<open>Folders in paths\<close>

text \<open>
  An iterator into a path is the list of elements from it on; \<open>end()\<close> is the empty list.
\<close>

fun find_folder_loop :: "string list \<Rightarrow> string list \<Rightarrow> string list" where
  "find_folder_loop (x # path_iter) (y # folder_iter) =
     (if x \<noteq> y then [] else find_folder_loop path_iter folder_iter)"
| "find_folder_loop path_iter _ = path_iter"

definition find_folder_in_path :: "path \<Rightarrow> path \<Rightarrow> string list" where
  "find_folder_in_path path folder = find_folder_loop (elems path) (elems folder)"

definition path_contains_folder :: "path \<Rightarrow> path \<Rightarrow> bool" where
  "path_contains_folder path folder \<longleftrightarrow> find_folder_in_path path folder \<noteq> []"

section \<open>Laws\<close>

lemma split_slash_not_Nil [simp]: "split_slash s \<noteq> []"
  by (induction s) (auto split: list.splits)

lemma split_slash_append_slash: "split_slash (s @ slash # t) = split_slash s @ split_slash t"
  by (induction s) (auto split: list.splits)

lemma split_slash_name: "slash \<notin> set s \<Longrightarrow> split_slash s = [s]"
  by (induction s) auto

lemma names_append_slash: "names (s @ slash # t) = names s @ names t"
  by (simp add: names_def split_slash_append_slash)

lemma names_Nil [simp]: "names [] = []"
  by (simp add: names_def)

lemma names_slash [simp]: "names (slash # t) = names t"
  using names_append_slash [of "[]" t] by simp

lemma names_name: "slash \<notin> set s \<Longrightarrow> s \<noteq> [] \<Longrightarrow> names s = [s]"
  by (simp add: names_def split_slash_name)

text \<open>A name of a path has no slash and is not empty.\<close>

definition is_name :: "string \<Rightarrow> bool" where
  "is_name s \<longleftrightarrow> s \<noteq> [] \<and> slash \<notin> set s"

lemma split_slash_no_slash: "w \<in> set (split_slash s) \<Longrightarrow> slash \<notin> set w"
proof (induction s arbitrary: w)
  case (Cons c s)
  obtain v vs where s: "split_slash s = v # vs" by (cases "split_slash s") auto
  with Cons show ?case by (auto split: if_splits)
qed simp

lemma names_are_names: "w \<in> set (names s) \<Longrightarrow> is_name w"
  by (auto simp: names_def is_name_def dest: split_slash_no_slash)

lemma find_folder_loop_iff:
  "find_folder_loop xs ys = zs \<and> zs \<noteq> [] \<longleftrightarrow> xs = ys @ zs \<and> zs \<noteq> []"
  by (induction xs ys rule: find_folder_loop.induct) auto

text \<open>The names of a path that is put together.\<close>

lemma names_append_not_slash: "p = [] \<or> last p = slash \<Longrightarrow> names (p @ q) = names p @ names q"
proof -
  assume "p = [] \<or> last p = slash"
  then consider "p = []" | p' where "p = p' @ [slash]" by (metis append_butlast_last_id)
  then show ?thesis
  proof cases
    case 2
    then show ?thesis
      using names_append_slash [of p' q] names_append_slash [of p' "[]"] by simp
  qed simp
qed

lemma names_path_append: "names (path_append p q) = (if absolute q then [] else names p) @ names q"
  by (simp add: path_append_def names_append_not_slash names_append_slash)

lemma names_relative_path [simp]: "names (relative_path p) = names p"
  by (induction p) (auto simp: relative_path_def)

lemma relative_path_not_absolute [simp]: "\<not> absolute (relative_path p)"
  by (induction p) (auto simp: relative_path_def absolute_def)

end
