(* ===== verification/Actions.thy ===== *)
theory Actions
  imports Prelude
begin

text \<open>
  Member functions that change their object and may throw: what the object holds when the
  exception leaves is part of the result, since the callers catch and go on with it.
\<close>

type_synonym ('p, 'a) action = "'p \<Rightarrow> 'a result \<times> 'p"

named_theorems act_simps \<open>equations of the action combinators\<close>

definition act_return :: "'a \<Rightarrow> ('p, 'a) action" where
  "act_return a p = (Inr a, p)"

definition act_lift :: "'a result \<Rightarrow> ('p, 'a) action" where
  "act_lift r p = (r, p)"

definition act_throw_if :: "bool \<Rightarrow> cpp_error \<Rightarrow> ('p, unit) action" where
  "act_throw_if c e p = (throw_if c e, p)"

definition act_get :: "('p \<Rightarrow> 'a) \<Rightarrow> ('p, 'a) action" where
  "act_get f p = (Inr (f p), p)"

definition act_modify :: "('p \<Rightarrow> 'p) \<Rightarrow> ('p, unit) action" where
  "act_modify g p = (Inr (), g p)"

definition act_then :: "('p, 'a) action \<Rightarrow> ('a \<Rightarrow> ('p, 'b) action) \<Rightarrow> ('p, 'b) action" where
  "act_then m f p = (case m p of (Inl e, p) \<Rightarrow> (Inl e, p) | (Inr a, p) \<Rightarrow> f a p)"

definition act_catch :: "('p, 'a) action \<Rightarrow> (cpp_error \<Rightarrow> ('p, 'a) action) \<Rightarrow> ('p, 'a) action" where
  "act_catch m h p = (case m p of (Inl e, p) \<Rightarrow> h e p | (Inr a, p) \<Rightarrow> (Inr a, p))"

text \<open>Undefined behaviour and loops are not exceptions: no handler catches them.\<close>

definition is_exception :: "cpp_error \<Rightarrow> bool" where
  "is_exception e \<longleftrightarrow> e \<noteq> Undefined_behaviour \<and> e \<noteq> Does_not_return"

definition act_try :: "('p, 'a) action \<Rightarrow> (cpp_error \<Rightarrow> ('p, 'a) action) \<Rightarrow> ('p, 'a) action" where
  "act_try m h = act_catch m (\<lambda>e. if is_exception e then h e else act_lift (Inl e))"

lemma act_eval [act_simps]:
  "act_return a p = (Inr a, p)"
  "act_lift r p = (r, p)"
  "act_throw_if c e p = (throw_if c e, p)"
  "act_get f p = (Inr (f p), p)"
  "act_modify g p = (Inr (), g p)"
  by (simp_all add: act_return_def act_lift_def act_throw_if_def act_get_def act_modify_def)

lemma act_then_eval [act_simps]:
  "m p = (Inr a, q) \<Longrightarrow> act_then m f p = f a q"
  "m p = (Inl e, q) \<Longrightarrow> act_then m f p = (Inl e, q)"
  by (simp_all add: act_then_def)

lemma act_then_Inr:
  "act_then m f p = (Inr b, r) \<longleftrightarrow> (\<exists>a q. m p = (Inr a, q) \<and> f a q = (Inr b, r))"
  by (auto simp: act_then_def split: prod.splits sum.splits)

lemma act_then_Inl:
  "act_then m f p = (Inl e, r) \<longleftrightarrow> m p = (Inl e, r) \<or> (\<exists>a q. m p = (Inr a, q) \<and> f a q = (Inl e, r))"
  by (auto simp: act_then_def split: prod.splits sum.splits)

lemma act_then_assoc: "act_then (act_then m f) g = act_then m (\<lambda>a. act_then (f a) g)"
  by (rule ext) (simp add: act_then_def split: prod.split sum.split)

lemma act_then_return: "act_then (act_return a) f = f a" "act_then m act_return = m"
  by (rule ext, simp add: act_then_def act_return_def split: prod.split sum.split)+

text \<open>An invariant of every step of an action is one of the action.\<close>

definition act_keeps :: "('p \<Rightarrow> bool) \<Rightarrow> ('p, 'a) action \<Rightarrow> bool" where
  "act_keeps I m \<longleftrightarrow> (\<forall>p. I p \<longrightarrow> I (snd (m p)))"

lemma act_keeps_then: "act_keeps I m \<Longrightarrow> (\<And>a. act_keeps I (f a)) \<Longrightarrow> act_keeps I (act_then m f)"
  by (fastforce simp: act_keeps_def act_then_def split: prod.split sum.split)

lemma act_keeps_then_value:
  "act_keeps I m \<Longrightarrow> (\<And>p a q. m p = (Inr a, q) \<Longrightarrow> act_keeps I (f a)) \<Longrightarrow> act_keeps I (act_then m f)"
  by (fastforce simp: act_keeps_def act_then_def split: prod.split sum.split)

lemma act_keeps_catch: "act_keeps I m \<Longrightarrow> (\<And>e. act_keeps I (h e)) \<Longrightarrow> act_keeps I (act_catch m h)"
  by (fastforce simp: act_keeps_def act_catch_def split: prod.split sum.split)

lemma act_keeps_basic:
  "act_keeps I (act_return a)" "act_keeps I (act_lift r)" "act_keeps I (act_throw_if c e)" "act_keeps I (act_get f)"
  by (simp_all add: act_keeps_def act_return_def act_lift_def act_throw_if_def act_get_def act_modify_def)

lemma act_keeps_modify: "(\<And>p. I p \<Longrightarrow> I (g p)) \<Longrightarrow> act_keeps I (act_modify g)"
  by (simp add: act_keeps_def act_simps)

lemma act_keeps_try: "act_keeps I m \<Longrightarrow> (\<And>e. act_keeps I (h e)) \<Longrightarrow> act_keeps I (act_try m h)"
  unfolding act_try_def by (rule act_keeps_catch) (auto intro: act_keeps_basic)

lemma act_keeps_apply: "act_keeps I m \<Longrightarrow> I p \<Longrightarrow> I (snd (m p))"
  by (simp add: act_keeps_def)

lemmas act_keeps_intros = act_keeps_then act_keeps_try act_keeps_basic act_keeps_modify

text \<open>What holds of the result and the state after an action that did not throw.\<close>

definition act_ok :: "('p \<Rightarrow> bool) \<Rightarrow> ('p, 'a) action \<Rightarrow> ('p \<Rightarrow> bool) \<Rightarrow> bool" where
  "act_ok P m Q \<longleftrightarrow> (\<forall>p a q. P p \<longrightarrow> m p = (Inr a, q) \<longrightarrow> Q q)"

lemma act_okD: "act_ok P m Q \<Longrightarrow> P p \<Longrightarrow> m p = (Inr a, q) \<Longrightarrow> Q q"
  unfolding act_ok_def by blast

lemma act_ok_then: "act_ok P m R \<Longrightarrow> (\<And>a. act_ok R (f a) Q) \<Longrightarrow> act_ok P (act_then m f) Q"
  unfolding act_ok_def act_then_Inr by blast

lemma act_ok_keep: "act_keeps P m \<Longrightarrow> act_ok P m P"
  unfolding act_ok_def act_keeps_def by (metis snd_conv)

lemma act_ok_after: "act_keeps P m \<Longrightarrow> (\<And>a. act_ok P (f a) Q) \<Longrightarrow> act_ok P (act_then m f) Q"
  by (rule act_ok_then [where R = P]) (auto intro: act_ok_keep)

lemma act_ok_before: "act_ok P m Q \<Longrightarrow> (\<And>a. act_keeps Q (f a)) \<Longrightarrow> act_ok P (act_then m f) Q"
  by (rule act_ok_then [where R = Q]) (auto intro: act_ok_keep)

text \<open>What was read from the state, and what a value that was not thrown is.\<close>

lemma act_keeps_then_get:
  "(\<And>a q. I q \<Longrightarrow> a = f q \<Longrightarrow> act_keeps I (g a)) \<Longrightarrow> act_keeps I (act_then (act_get f) g)"
  by (simp add: act_keeps_def act_then_def act_get_def)

lemma act_keeps_then_lift:
  "(\<And>a. r = Inr a \<Longrightarrow> act_keeps I (g a)) \<Longrightarrow> act_keeps I (act_then (act_lift r) g)"
  by (simp add: act_keeps_def act_then_def act_lift_def split: sum.split)

lemma act_ok_mono: "act_ok P m Q \<Longrightarrow> (\<And>p. Q p \<Longrightarrow> R p) \<Longrightarrow> act_ok P m R"
  unfolding act_ok_def by blast

lemma act_ok_always: "act_ok (\<lambda>_. True) m Q \<Longrightarrow> act_ok P m Q"
  unfolding act_ok_def by blast

lemma act_ok_throw [simp]: "act_ok P (act_lift (Inl e)) Q"
  by (simp add: act_ok_def act_lift_def)

end
