(* ===== verification/File_System.thy ===== *)
theory File_System
  imports Paths Actions
begin

text \<open>
  What the set-up code uses of \<open>std::filesystem\<close>: files and directories with their permissions,
  by the names on their path. There are no links, and the names \<open>.\<close> and \<open>..\<close> are names like others.
  Whether the system lets a change happen is in the record \<open>fs_world\<close>.
\<close>

type_synonym fs_key = "bool \<times> string list"

type_synonym perms = "12 word"

record fs_node =
  fn_directory :: bool
  fn_perms :: perms
  fn_content :: bytes

type_synonym fs = "fs_key \<Rightarrow> fs_node option"

definition fs_key :: "path \<Rightarrow> fs_key" where
  "fs_key p = (absolute p, names p)"

record fs_world =
  fw_mkdir :: "fs_key \<Rightarrow> bool"
  fw_chmod :: "fs_key \<Rightarrow> bool"
  fw_open :: "fs_key \<Rightarrow> bool"
  fw_remove :: "fs_key \<Rightarrow> bool"
  fw_rename :: "fs_key \<Rightarrow> bool"
  fw_directory_perms :: perms
  fw_file_perms :: perms

definition filesystem_error :: cpp_error where
  "filesystem_error = Runtime_error ''filesystem error''"

definition fs_exists :: "path \<Rightarrow> fs \<Rightarrow> bool" where
  "fs_exists p fs \<longleftrightarrow> fs (fs_key p) \<noteq> None"

definition fs_perms :: "path \<Rightarrow> fs \<Rightarrow> perms option" where
  "fs_perms p fs = map_option fn_perms (fs (fs_key p))"

text \<open>\<open>create_directories\<close>: the directories that are missing on the way, from the outermost.\<close>

fun make_directories :: "'m fs_world_scheme \<Rightarrow> bool \<Rightarrow> string list \<Rightarrow> string list \<Rightarrow> (fs, unit) action" where
  "make_directories F root done [] = act_return ()"
| "make_directories F root done (n # ns) =
     (let k = (root, done @ [n]) in
      act_then (act_get (\<lambda>fs. fs k)) (\<lambda>node.
      act_then (case node of
          Some d \<Rightarrow> act_throw_if (\<not> fn_directory d) filesystem_error
        | None \<Rightarrow>
            if fw_mkdir F k
            then act_modify (\<lambda>fs. fs(k \<mapsto> \<lparr>fn_directory = True, fn_perms = fw_directory_perms F, fn_content = []\<rparr>))
            else act_lift (Inl filesystem_error)) (\<lambda>_.
      make_directories F root (done @ [n]) ns)))"

definition create_directories :: "'m fs_world_scheme \<Rightarrow> path \<Rightarrow> (fs, unit) action" where
  "create_directories F p =
     (if p = [] then act_lift (Inl filesystem_error) else make_directories F (absolute p) [] (names p))"

text \<open>
  \<open>permissions\<close> with an error code: the result says whether it worked. The version that throws is
  the other one.
\<close>

definition try_set_permissions :: "'m fs_world_scheme \<Rightarrow> path \<Rightarrow> perms \<Rightarrow> (fs, bool) action" where
  "try_set_permissions F p perms fs =
     (case fs (fs_key p) of
        None \<Rightarrow> (Inr False, fs)
      | Some n \<Rightarrow>
          if fw_chmod F (fs_key p) then (Inr True, fs(fs_key p \<mapsto> n\<lparr>fn_perms := perms\<rparr>)) else (Inr False, fs))"

definition set_permissions :: "'m fs_world_scheme \<Rightarrow> path \<Rightarrow> perms \<Rightarrow> (fs, unit) action" where
  "set_permissions F p perms = act_then (try_set_permissions F p perms) (\<lambda>ok. act_throw_if (\<not> ok) filesystem_error)"

text \<open>\<open>remove\<close>: the result says whether it failed; a path that is not there is not a failure.\<close>

definition try_remove :: "'m fs_world_scheme \<Rightarrow> path \<Rightarrow> (fs, bool) action" where
  "try_remove F p fs =
     (if fs (fs_key p) = None then (Inr True, fs)
      else if fw_remove F (fs_key p) then (Inr True, fs(fs_key p := None)) else (Inr False, fs))"

definition fs_remove :: "'m fs_world_scheme \<Rightarrow> path \<Rightarrow> (fs, unit) action" where
  "fs_remove F p = act_then (try_remove F p) (\<lambda>ok. act_throw_if (\<not> ok) filesystem_error)"

text \<open>Opening for writing creates the file or empties it.\<close>

definition open_for_writing :: "'m fs_world_scheme \<Rightarrow> path \<Rightarrow> (fs, bool) action" where
  "open_for_writing F p fs =
     (if \<not> fw_open F (fs_key p) \<or> pred_option fn_directory (fs (fs_key p)) \<and> fs (fs_key p) \<noteq> None then (Inr False, fs)
      else
        (Inr True, fs(fs_key p \<mapsto> \<lparr>fn_directory = False,
           fn_perms = (case fs (fs_key p) of None \<Rightarrow> fw_file_perms F | Some n \<Rightarrow> fn_perms n), fn_content = []\<rparr>)))"

definition write_content :: "path \<Rightarrow> bytes \<Rightarrow> (fs, unit) action" where
  "write_content p content =
     act_modify (\<lambda>fs. fs(fs_key p := map_option (\<lambda>n. n\<lparr>fn_content := content\<rparr>) (fs (fs_key p))))"

definition fs_rename :: "'m fs_world_scheme \<Rightarrow> path \<Rightarrow> path \<Rightarrow> (fs, unit) action" where
  "fs_rename F p q fs =
     (case fs (fs_key p) of
        None \<Rightarrow> (Inl filesystem_error, fs)
      | Some n \<Rightarrow>
          if fw_rename F (fs_key q) \<and> \<not> (fs (fs_key q) \<noteq> None \<and> fn_directory (the (fs (fs_key q))))
          then (Inr (), (fs(fs_key p := None))(fs_key q \<mapsto> n))
          else (Inl filesystem_error, fs))"

section \<open>Laws\<close>

lemma make_directories_keeps:
  "\<forall>ns'. k \<noteq> (root, done @ ns') \<or> ns' = [] \<or> length ns < length ns' \<Longrightarrow>
     act_keeps (\<lambda>fs. fs k = n) (make_directories F root done ns)"
proof (induction ns arbitrary: "done")
  case (Cons m ns)
  have "k \<noteq> (root, done @ [m])" using Cons.prems by auto
  moreover have "\<forall>ns'. k \<noteq> (root, (done @ [m]) @ ns') \<or> ns' = [] \<or> length ns < length ns'"
    using Cons.prems by (metis append.assoc append_Cons append_Nil length_Cons not_less_eq list.distinct(1))
  from Cons.IH [OF this] \<open>k \<noteq> (root, done @ [m])\<close> show ?case
    by (auto simp: Let_def intro!: act_keeps_intros split: option.split)
qed (simp add: act_keeps_basic)

lemma make_directories_done:
  "make_directories F root done ns fs = (Inr (), fs') \<Longrightarrow> ns \<noteq> [] \<Longrightarrow>
     \<exists>n. fs' (root, done @ ns) = Some n \<and> fn_directory n"
proof (induction ns arbitrary: "done" fs)
  case (Cons m ns)
  show ?case
  proof (cases "ns = []")
    case True
    then show ?thesis using Cons.prems(1)
      by (auto simp: Let_def act_then_def act_simps throw_if_def split: option.splits if_splits)
  next
    case False
    from Cons.prems(1) obtain fs'' where "make_directories F root (done @ [m]) ns fs'' = (Inr (), fs')"
      by (auto simp: Let_def act_then_Inr)
    from Cons.IH [OF this False] show ?thesis by simp
  qed
qed simp

end
