(* ===== verification/File_Mapping.thy ===== *)
theory File_Mapping
  imports Paths
begin

text \<open>
  \<open>source/Config/FileMapping.cpp\<close>: the tree of nodes that maps the virtual paths a peer sees
  to paths of the host. A \<open>NodeMap\<close> is an \<open>unordered_map\<close>: an association list in the
  order an iteration visits it, which the code does not control; new entries go last, one of
  the possible orders. Keys are the names at the time of insertion.

  The parent pointers and the cached ancestor path are not part of a node: where the code
  reads them (\<open>get_ancestor_path\<close>) the chain of ancestors is an argument.
\<close>

section \<open>Nodes\<close>

datatype node_type = HOST_FILE | HOST_FOLDER | VIRTUAL
datatype visibility = VISIBLE | HIDDEN

datatype path_node = Path_node
  (n_name: string)
  (n_child_nodes: "(string \<times> path_node) list")
  (n_host_path: path)
  (n_type: node_type)
  (n_visibility: visibility)

type_synonym node_map = "(string \<times> path_node) list"

fun stack_to_path :: "string list \<Rightarrow> string" where
  "stack_to_path [] = []"
| "stack_to_path [name] = name"
| "stack_to_path (name # stack) = name @ [slash] @ stack_to_path stack"

definition trim_node_name :: "string \<Rightarrow> bool \<Rightarrow> string" where
  "trim_node_name name trim_begining =
     (let name = (if trim_begining then dropWhile (\<lambda>c. c = slash) name else name)
      in rev (dropWhile (\<lambda>c. c = slash) (rev name)))"

definition emplace :: "'k \<Rightarrow> 'v \<Rightarrow> ('k \<times> 'v) list \<Rightarrow> ('k \<times> 'v) list" where
  "emplace k v m = (if map_of m k = None then m @ [(k, v)] else m)"

definition vector_to_map :: "path_node list \<Rightarrow> node_map" where
  "vector_to_map nodes = foldl (\<lambda>result node. emplace (n_name node) node result) [] nodes"

definition assert_virtual_type :: "node_type \<Rightarrow> unit result" where
  "assert_virtual_type type =
     throw_if (type \<noteq> VIRTUAL) (Runtime_error ''Only VIRTUAL PathNode can have child_nodes.'')"

definition assert_not_virtual_type :: "node_type \<Rightarrow> unit result" where
  "assert_not_virtual_type type =
     throw_if (type = VIRTUAL) (Runtime_error ''VIRTUAL PathNode cannot have a host_path.'')"

definition assert_valid_name :: "string \<Rightarrow> unit result" where
  "assert_valid_name name =
     try_then (throw_if (find_slash name \<noteq> None) (Runtime_error (''PathNode name cannot contain '' @ [CHR 0x27, slash, CHR 0x27]))) (\<lambda>_.
     throw_if (name = []) (Runtime_error ''PathNode name cannot be empty''))"

definition make_virtual_node :: "string \<Rightarrow> visibility \<Rightarrow> node_map \<Rightarrow> path_node result" where
  "make_virtual_node name visibility child_nodes =
     try_then (assert_valid_name name) (\<lambda>_. Inr (Path_node name child_nodes [] VIRTUAL visibility))"

definition make_virtual_node_of :: "string \<Rightarrow> visibility \<Rightarrow> path_node list \<Rightarrow> path_node result" where
  "make_virtual_node_of name visibility child_nodes =
     make_virtual_node name visibility (vector_to_map child_nodes)"

definition make_host_node :: "string \<Rightarrow> node_type \<Rightarrow> path \<Rightarrow> visibility \<Rightarrow> path_node result" where
  "make_host_node name type host_path visibility =
     try_then (assert_not_virtual_type type) (\<lambda>_.
     try_then (assert_valid_name name) (\<lambda>_. Inr (Path_node name [] host_path type visibility)))"

fun insert_child_node :: "path_node \<Rightarrow> path_node \<Rightarrow> path_node result" where
  "insert_child_node node (Path_node name child_nodes host_path type visibility) =
     try_then (assert_virtual_type type) (\<lambda>_.
     try_then (throw_if (map_of child_nodes (n_name node) \<noteq> None)
       (Runtime_error ''A node already exists with that name'')) (\<lambda>_.
     Inr (Path_node name (emplace (n_name node) node child_nodes) host_path type visibility)))"

definition add_child_node :: "path_node \<Rightarrow> path_node \<Rightarrow> path_node result" where
  "add_child_node node this_node = insert_child_node node this_node"

fun remove_child_node :: "string \<Rightarrow> path_node \<Rightarrow> path_node" where
  "remove_child_node child (Path_node name child_nodes host_path type visibility) =
     Path_node name (filter (\<lambda>(k, _). k \<noteq> child) child_nodes) host_path type visibility"

fun clear_child_nodes :: "path_node \<Rightarrow> path_node" where
  "clear_child_nodes (Path_node name child_nodes host_path type visibility) =
     Path_node name [] host_path type visibility"

fun set_child_nodes :: "node_map \<Rightarrow> path_node \<Rightarrow> path_node result" where
  "set_child_nodes nodes (Path_node name child_nodes host_path type visibility) =
     try_then (if nodes \<noteq> [] then assert_virtual_type type else Inr ()) (\<lambda>_.
     Inr (Path_node name nodes host_path type visibility))"

fun set_name :: "string \<Rightarrow> path_node \<Rightarrow> path_node result" where
  "set_name name (Path_node _ child_nodes host_path type visibility) =
     try_then (assert_valid_name name) (\<lambda>_. Inr (Path_node name child_nodes host_path type visibility))"

fun set_type :: "node_type \<Rightarrow> path_node \<Rightarrow> path_node result" where
  "set_type type (Path_node name child_nodes host_path _ visibility) =
     try_then (if child_nodes \<noteq> [] then assert_virtual_type type
               else if host_path \<noteq> [] then assert_not_virtual_type type else Inr ()) (\<lambda>_.
     Inr (Path_node name child_nodes host_path type visibility))"

fun set_visibility :: "visibility \<Rightarrow> path_node \<Rightarrow> path_node" where
  "set_visibility visibility (Path_node name child_nodes host_path type _) =
     Path_node name child_nodes host_path type visibility"

fun set_host_path :: "path \<Rightarrow> path_node \<Rightarrow> path_node result" where
  "set_host_path host_path (Path_node name child_nodes _ type visibility) =
     try_then (if host_path \<noteq> [] then assert_not_virtual_type type else Inr ()) (\<lambda>_.
     Inr (Path_node name child_nodes host_path type visibility))"

text \<open>The ancestors of the node, its parent first.\<close>

definition get_ancestor_path :: "path_node list \<Rightarrow> path" where
  "get_ancestor_path ancestors = stack_to_path (map n_name ancestors)"

section \<open>The root node\<close>

text \<open>
  \<open>find_last_of\<close> gives \<open>npos\<close>, the greatest value, when there is no slash, and the
  comparison with the first other character is then true.
\<close>

definition find_last_slash :: "string \<Rightarrow> nat option" where
  "find_last_slash name =
     (if slash \<in> set name then Some (length name - 1 - length (takeWhile (\<lambda>c. c \<noteq> slash) (rev name))) else None)"

definition root_assert_valid_name :: "string \<Rightarrow> unit result" where
  "root_assert_valid_name name =
     try_then (throw_if (name = []) (Runtime_error ''RootPathNode name cannot be empty'')) (\<lambda>_.
     let last_slash = find_last_slash name;
         first_char = length (takeWhile (\<lambda>c. c = slash) name) in
     try_then (throw_if (first_char = length name)
       (Runtime_error ''RootPathNode name cannot be only made of directory separators'')) (\<lambda>_.
     try_then (throw_if (case last_slash of None \<Rightarrow> True | Some n \<Rightarrow> first_char < n)
       (Runtime_error ''RootPathNode name can only contain directory separators at the begining'')) (\<lambda>_.
     throw_if (first_char > 2)
       (Runtime_error ''RootPathNode name can only contain up to 2 directory separators at the begining''))))"

fun root_set_name :: "string \<Rightarrow> path_node \<Rightarrow> path_node result" where
  "root_set_name name (Path_node _ child_nodes host_path type visibility) =
     (let name = trim_node_name name False in
      try_then (root_assert_valid_name name) (\<lambda>_.
      Inr (Path_node name child_nodes host_path type visibility)))"

definition make_root_node :: "string \<Rightarrow> node_map \<Rightarrow> path_node result" where
  "make_root_node root_name root_nodes =
     try_then (make_virtual_node (trim_node_name root_name True) VISIBLE root_nodes) (\<lambda>node.
     try_then (root_set_name (trim_node_name root_name False) node) (\<lambda>node.
     try_then (root_assert_valid_name (n_name node)) (\<lambda>_. Inr node)))"

definition root_set_type :: "node_type \<Rightarrow> path_node \<Rightarrow> path_node result" where
  "root_set_type type node =
     try_then (throw_if (type \<noteq> VIRTUAL) (Runtime_error ''RootPathNode type must always be VIRTUAL.'')) (\<lambda>_. Inr node)"

definition root_set_visibility :: "visibility \<Rightarrow> path_node \<Rightarrow> path_node result" where
  "root_set_visibility visibility node =
     try_then (throw_if (visibility \<noteq> VISIBLE) (Runtime_error ''RootPathNode visibility must always be VISIBLE.'')) (\<lambda>_. Inr node)"

definition root_set_host_path :: "path \<Rightarrow> path_node \<Rightarrow> path_node result" where
  "root_set_host_path host_path node =
     try_then (throw_if (host_path \<noteq> []) (Runtime_error ''RootPathNode cannot have a host_path.'')) (\<lambda>_. Inr node)"

definition default_root_name :: string where
  "default_root_name = ''//fsp''"

section \<open>The mapping\<close>

record file_mapping =
  fm_root_node :: path_node
  fm_forbidden_paths :: "path list"

definition default_forbidden_paths :: "string option \<Rightarrow> (string \<Rightarrow> string option) \<Rightarrow> path list" where
  "default_forbidden_paths getenv_home pw_dir =
     resolve_home_components getenv_home pw_dir [''~/.ssh'', ''~/.fsp'', ''/etc/passwd'', ''/root'']"

definition set_root_nodes :: "path_node list \<Rightarrow> file_mapping \<Rightarrow> file_mapping result" where
  "set_root_nodes root_nodes m =
     try_then (set_child_nodes (vector_to_map root_nodes) (fm_root_node m)) (\<lambda>root.
     Inr (m\<lparr>fm_root_node := root\<rparr>))"

text \<open>
  \<open>host_to_virtual\<close>: a depth-first search with an explicit stack, its top first here. Nodes
  are told apart by address; in the tree an address is the list of keys from the root.
\<close>

definition new_child :: "string list list \<Rightarrow> string list \<Rightarrow> node_map \<Rightarrow> (string \<times> path_node) option" where
  "new_child visited addr child_nodes =
     List.find (\<lambda>(k, node). n_visibility node \<noteq> HIDDEN \<and> addr @ [k] \<notin> set visited) child_nodes"

partial_function (option) h2v_loop ::
    "path \<Rightarrow> (string list \<times> path_node) list \<Rightarrow> string list list \<Rightarrow> path option" where
  "h2v_loop path stack visited =
     (case stack of
        [] \<Rightarrow> Some []
      | (addr, node) # rest \<Rightarrow>
          let stack_path = stack_to_path (rev (map (n_name \<circ> snd) stack)) in
          if n_visibility node = HIDDEN then h2v_loop path rest visited
          else if n_type node = VIRTUAL then
            (case new_child visited addr (n_child_nodes node) of
               Some (k, child) \<Rightarrow> h2v_loop path ((addr @ [k], child) # stack) ((addr @ [k]) # visited)
             | None \<Rightarrow> h2v_loop path rest visited)
          else if path_eq (n_host_path node) path then Some stack_path
          else if n_type node = HOST_FOLDER then
            (let iter = find_folder_in_path path (n_host_path node) in
             if iter \<noteq> [] then Some (foldl path_append stack_path iter)
             else h2v_loop path rest visited)
          else h2v_loop path rest visited)"

definition host_to_virtual :: "file_mapping \<Rightarrow> path \<Rightarrow> path option" where
  "host_to_virtual m path = h2v_loop path [([], fm_root_node m)] [[]]"

text \<open>
  \<open>find_virtual_node\<close> walks down along the elements of the path; the iterator it hands back
  is the elements that are left.
\<close>

fun walk :: "bool \<Rightarrow> path_node \<Rightarrow> string list \<Rightarrow> (path_node \<times> string list) option" where
  "walk only_visible result [] = Some (result, [])"
| "walk only_visible result (e # out) =
     (if e = [slash] then walk only_visible result out
      else case map_of (n_child_nodes result) e of
          None \<Rightarrow> None
        | Some node \<Rightarrow>
            if only_visible \<and> n_visibility node \<noteq> VISIBLE then None
            else if n_type node = HOST_FOLDER then Some (node, out)
            else walk only_visible node out)"

definition find_virtual_node :: "file_mapping \<Rightarrow> path \<Rightarrow> bool \<Rightarrow> (path_node \<times> string list) option" where
  "find_virtual_node m virtual_path only_visible =
     (let str = trim_node_name virtual_path True;
          root_name = trim_node_name (n_name (fm_root_node m)) True;
          virtual_path = (if starts_with str root_name then drop (length root_name) str else virtual_path)
      in walk only_visible (fm_root_node m) (elems virtual_path))"

text \<open>
  An iterator is valid while the path it points into lives. \<open>find_virtual_node\<close> takes the
  path by value, so the iterator it sets points into an object that is gone when it returns:
  reading it, or comparing it with the \<open>end()\<close> of another path, is undefined.
\<close>

datatype path_iterator = Into_path "string list" | Dangling

fun virtual_to_host_from :: "path_node option \<Rightarrow> path_iterator \<Rightarrow> path result" where
  "virtual_to_host_from None iter = Inr []"
| "virtual_to_host_from (Some node) iter =
     (if n_type node = HOST_FOLDER then
        (case iter of
           Dangling \<Rightarrow> Inl Undefined_behaviour
         | Into_path rest \<Rightarrow> Inr (foldl path_append (n_host_path node) rest))
      else Inr (n_host_path node))"

definition virtual_to_host :: "file_mapping \<Rightarrow> path \<Rightarrow> path result" where
  "virtual_to_host m virtual_path =
     virtual_to_host_from (map_option fst (find_virtual_node m virtual_path True)) Dangling"

text \<open>
  The hash set of forbidden paths hashes the spelling of a path and compares paths: whether it
  finds a path under another spelling depends on the buckets, so \<open>set_contains\<close> is a
  parameter.
\<close>

definition drop_last_slash :: "string \<Rightarrow> string" where
  "drop_last_slash s = (if s \<noteq> [] \<and> last s = slash then butlast s else s)"

fun forbidden_loop :: "path \<Rightarrow> path list \<Rightarrow> bool" where
  "forbidden_loop path_str [] = False"
| "forbidden_loop path_str (iter # paths) =
     (let iter_str = drop_last_slash iter in
      if starts_with path_str iter_str \<and>
         (length iter_str = length path_str \<or> path_str ! length iter_str = slash)
      then True else forbidden_loop path_str paths)"

definition is_forbidden :: "(path list \<Rightarrow> path \<Rightarrow> bool) \<Rightarrow> file_mapping \<Rightarrow> path \<Rightarrow> bool" where
  "is_forbidden set_contains m path =
     (if set_contains (fm_forbidden_paths m) path then True
      else forbidden_loop path (fm_forbidden_paths m))"

section \<open>The invariant of the nodes\<close>

text \<open>
  What the comments of \<open>PathNode\<close> promise: children only under virtual nodes, a host path
  only on the others, a name that can be an element of a path, one child per key, and the same
  below.
\<close>

fun node_wf :: "path_node \<Rightarrow> bool" where
  "node_wf (Path_node name child_nodes host_path type visibility) \<longleftrightarrow>
     is_name name \<and> (child_nodes \<noteq> [] \<longrightarrow> type = VIRTUAL) \<and> (host_path \<noteq> [] \<longrightarrow> type \<noteq> VIRTUAL) \<and>
     distinct (map fst child_nodes) \<and> (\<forall>c \<in> set (map snd child_nodes). node_wf c)"

definition root_name_ok :: "string \<Rightarrow> bool" where
  "root_name_ok name \<longleftrightarrow> (\<exists>n. is_name n \<and> (name = [slash] @ n \<or> name = [slash, slash] @ n))"

definition root_wf :: "path_node \<Rightarrow> bool" where
  "root_wf root \<longleftrightarrow> root_name_ok (n_name root) \<and> n_type root = VIRTUAL \<and> n_visibility root = VISIBLE \<and>
     n_host_path root = [] \<and> distinct (map fst (n_child_nodes root)) \<and>
     (\<forall>c \<in> set (map snd (n_child_nodes root)). node_wf c)"

definition map_wf :: "node_map \<Rightarrow> bool" where
  "map_wf nodes \<longleftrightarrow> distinct (map fst nodes) \<and> (\<forall>c \<in> set (map snd nodes). node_wf c)"

lemma find_slash_None: "find_slash s = None \<longleftrightarrow> slash \<notin> set s"
proof -
  have "length (takeWhile (\<lambda>c. c \<noteq> slash) s) = length s \<longleftrightarrow> slash \<notin> set s"
    by (induction s) auto
  then show ?thesis by (simp add: find_slash_def Let_def)
qed

lemma assert_valid_name_Inr: "assert_valid_name name = Inr u \<longleftrightarrow> is_name name"
  by (auto simp: assert_valid_name_def try_then_eq_Inr find_slash_None is_name_def simp del: not_None_eq)

lemma map_of_None_notin: "map_of m k = None \<longleftrightarrow> k \<notin> fst ` set m"
  by (rule map_of_eq_None_iff)

lemma emplace_wf: "map_wf m \<Longrightarrow> node_wf n \<Longrightarrow> map_wf (emplace k n m)"
  by (auto simp: map_wf_def emplace_def map_of_eq_None_iff)

lemma vector_to_map_wf:
  assumes "\<forall>n \<in> set nodes. node_wf n"
  shows "map_wf (vector_to_map nodes)"
proof -
  have "map_wf m \<Longrightarrow> \<forall>n \<in> set nodes. node_wf n \<Longrightarrow>
      map_wf (foldl (\<lambda>result node. emplace (n_name node) node result) m nodes)" for m
    by (induction nodes arbitrary: m) (simp_all add: emplace_wf)
  moreover have "map_wf []" by (simp add: map_wf_def)
  ultimately show ?thesis using assms by (simp only: vector_to_map_def)
qed

lemma map_wf_filter: "map_wf m \<Longrightarrow> map_wf (filter P m)"
  by (auto simp: map_wf_def distinct_map_filter)

lemma node_wf_map: "node_wf (Path_node name cs h t v) \<longleftrightarrow>
    is_name name \<and> (cs \<noteq> [] \<longrightarrow> t = VIRTUAL) \<and> (h \<noteq> [] \<longrightarrow> t \<noteq> VIRTUAL) \<and> map_wf cs"
  by (auto simp: map_wf_def)

lemmas node_guards = assert_virtual_type_def assert_not_virtual_type_def try_then_eq_Inr assert_valid_name_Inr

lemma make_nodes_wf:
  "map_wf cs \<Longrightarrow> make_virtual_node name v cs = Inr n \<Longrightarrow> node_wf n"
  "make_host_node name t h v = Inr n \<Longrightarrow> node_wf n"
  by (auto simp: make_virtual_node_def make_host_node_def node_guards map_wf_def)

lemma insert_child_wf: "node_wf n \<Longrightarrow> node_wf c \<Longrightarrow> insert_child_node c n = Inr n' \<Longrightarrow> node_wf n'"
  by (cases n) (auto simp: node_wf_map node_guards emplace_wf simp del: node_wf.simps)

lemma set_child_nodes_wf: "node_wf n \<Longrightarrow> map_wf cs \<Longrightarrow> set_child_nodes cs n = Inr n' \<Longrightarrow> node_wf n'"
  by (cases n) (auto simp: node_wf_map node_guards simp del: node_wf.simps split: if_splits)

lemma remove_child_wf: "node_wf n \<Longrightarrow> node_wf (remove_child_node k n)"
  using map_wf_filter [of "n_child_nodes n"]
  by (cases n) (auto simp: node_wf_map simp del: node_wf.simps)

lemma setters_wf:
  assumes "node_wf n"
  shows "node_wf (clear_child_nodes n)"
    and "set_name s n = Inr n' \<Longrightarrow> node_wf n'"
    and "set_type t n = Inr n' \<Longrightarrow> node_wf n'"
    and "node_wf (set_visibility v n)"
    and "set_host_path h n = Inr n' \<Longrightarrow> node_wf n'"
  using assms by (cases n; auto simp: node_guards split: if_splits)+

section \<open>Root names\<close>

lemma root_name_iff: "root_assert_valid_name name = Inr u \<longleftrightarrow> root_name_ok name"
proof
  let ?k = "length (takeWhile (\<lambda>c. c = slash) name)"
  have rep: "takeWhile (\<lambda>c. c = slash) name = replicate ?k slash"
    by (metis (full_types) replicate_length_same set_takeWhileD)
  assume r: "root_assert_valid_name name = Inr u"
  then obtain n where n: "name \<noteq> []" "?k \<noteq> length name" "find_last_slash name = Some n" "\<not> ?k < n" "\<not> ?k > 2"
    by (auto simp: root_assert_valid_name_def Let_def try_then_eq_Inr split: option.splits)
  let ?d = "dropWhile (\<lambda>c. c = slash) name"
  have name: "name = replicate ?k slash @ ?d" by (metis rep takeWhile_dropWhile_id)
  have d: "?d \<noteq> []" using n(2) name by (metis append_Nil2 length_replicate)
  have "hd ?d \<noteq> slash" using d by (metis (full_types) hd_dropWhile)
  have mem: "slash \<in> set name" using n(3) by (auto simp: find_last_slash_def split: if_splits)
  have "slash \<notin> set ?d"
  proof
    assume "slash \<in> set ?d"
    then obtain xs ys where s: "?d = xs @ slash # ys" "slash \<notin> set ys" by (meson split_list_last)
    then have "xs \<noteq> []" using \<open>hd ?d \<noteq> slash\<close> by auto
    have "takeWhile (\<lambda>c. c \<noteq> slash) (rev name) = rev ys"
      using s by (subst name) (simp add: takeWhile_append)
    then have "n = ?k + length xs"
      using n(3) mem s arg_cong [OF name, of length] by (simp add: find_last_slash_def)
    with n(4) \<open>xs \<noteq> []\<close> show False by simp
  qed
  with d have "is_name ?d" by (simp add: is_name_def)
  moreover have "?k \<noteq> 0" using mem \<open>slash \<notin> set ?d\<close> name by (metis append_Nil replicate_0)
  then have "?k = 1 \<or> ?k = 2" using n(5) by linarith
  ultimately show "root_name_ok name"
    using name by (auto simp: root_name_ok_def numeral_2_eq_2)
next
  assume "root_name_ok name"
  then obtain n where n: "is_name n" "name = [slash] @ n \<or> name = [slash, slash] @ n"
    by (auto simp: root_name_ok_def)
  then have "takeWhile (\<lambda>c. c \<noteq> slash) (rev n) = rev n"
    by (simp add: is_name_def takeWhile_eq_all_conv) (metis)
  moreover have "takeWhile (\<lambda>c. c = slash) n = []"
    using n(1) by (cases n) (auto simp: is_name_def)
  ultimately have n': "takeWhile (\<lambda>c. c \<noteq> slash) (rev n) = rev n" "takeWhile (\<lambda>c. c = slash) n = []"
    by auto
  with n n' show "root_assert_valid_name name = Inr u"
    by (auto simp: root_assert_valid_name_def find_last_slash_def is_name_def Let_def takeWhile_append)
qed


lemma trim_end: "\<exists>k. name = trim_node_name name False @ replicate k slash"
proof -
  have "takeWhile (\<lambda>c. c = slash) (rev name) = replicate (length (takeWhile (\<lambda>c. c = slash) (rev name))) slash"
    by (metis (full_types) replicate_length_same set_takeWhileD)
  moreover have "name = rev (dropWhile (\<lambda>c. c = slash) (rev name)) @ rev (takeWhile (\<lambda>c. c = slash) (rev name))"
    by (metis rev_append rev_rev_ident takeWhile_dropWhile_id)
  ultimately show ?thesis by (metis rev_replicate trim_node_name_def)
qed

lemma trim_name: "is_name n \<Longrightarrow> trim_node_name (replicate j slash @ n @ replicate k slash) True = n"
proof -
  assume n: "is_name n"
  have r: "dropWhile (\<lambda>c. c = slash) (replicate i slash @ s) = dropWhile (\<lambda>c. c = slash) s" for i s
    by (induction i) auto
  have "dropWhile (\<lambda>c. c = slash) (n @ replicate k slash) = n @ replicate k slash"
    using n by (cases n) (auto simp: is_name_def)
  moreover have "dropWhile (\<lambda>c. c = slash) (rev n) = rev n"
    using n by (cases n rule: rev_cases) (auto simp: is_name_def)
  ultimately show ?thesis by (simp add: trim_node_name_def r)
qed

lemma trim_idem: "trim_node_name (trim_node_name name False) False = trim_node_name name False"
  by (simp add: trim_node_name_def dropWhile_idem)

lemma make_root_iff:
  "(\<exists>root. make_root_node name nodes = Inr root) \<longleftrightarrow> root_name_ok (trim_node_name name False)"
proof
  assume "root_name_ok (trim_node_name name False)"
  then obtain n where n: "is_name n" "trim_node_name name False = [slash] @ n \<or> trim_node_name name False = [slash, slash] @ n"
    by (auto simp: root_name_ok_def)
  obtain k where k: "name = trim_node_name name False @ replicate k slash" using trim_end by blast
  have "\<exists>j. name = replicate j slash @ n @ replicate k slash"
    using n(2) by (subst k) (auto intro: exI [of _ 1] exI [of _ 2] simp: numeral_2_eq_2)
  then have "trim_node_name name True = n" using trim_name [OF n(1)] by auto
  moreover have "root_assert_valid_name (trim_node_name name False) = Inr ()"
    using \<open>root_name_ok _\<close> by (simp add: root_name_iff)
  moreover have "assert_valid_name n = Inr ()" using n(1) by (simp add: assert_valid_name_Inr)
  ultimately show "\<exists>root. make_root_node name nodes = Inr root"
    by (simp add: make_root_node_def make_virtual_node_def trim_idem Let_def)
qed (auto simp: make_root_node_def make_virtual_node_def try_then_eq_Inr root_name_iff trim_idem Let_def)

lemma make_root_wf:
  assumes "map_wf nodes" "make_root_node name nodes = Inr root"
  shows "root_wf root"
  using assms
  by (auto simp: make_root_node_def make_virtual_node_def try_then_eq_Inr root_name_iff root_wf_def map_wf_def Let_def)

section \<open>Walking down\<close>

text \<open>A node reached from another through visible children.\<close>

inductive visible_below :: "path_node \<Rightarrow> path_node \<Rightarrow> bool" for start where
  here: "visible_below start start"
| child: "visible_below start n \<Longrightarrow> (k, c) \<in> set (n_child_nodes n) \<Longrightarrow> n_visibility c = VISIBLE \<Longrightarrow> visible_below start c"

lemma visible_below_trans: "visible_below b c \<Longrightarrow> visible_below a b \<Longrightarrow> visible_below a c"
  by (induction rule: visible_below.induct) (auto intro: visible_below.intros)

lemma walk_visible: "walk True start es = Some (n, rest) \<Longrightarrow> visible_below start n"
proof (induction "True" start es rule: walk.induct)
  case (2 result e out)
  show ?case
  proof (cases "e = [slash]")
    case True
    with 2(1,3) show ?thesis by simp
  next
    case False
    with 2(3) obtain c where c: "map_of (n_child_nodes result) e = Some c" "n_visibility c = VISIBLE"
        "n_type c = HOST_FOLDER \<and> n = c \<or> n_type c \<noteq> HOST_FOLDER \<and> walk True c out = Some (n, rest)"
      by (auto split: option.splits if_splits)
    have "visible_below result c"
      by (rule child [OF here map_of_SomeD [OF c(1)] c(2)])
    with c 2(2) [OF False c(1)] show ?thesis by (auto intro: visible_below_trans)
  qed
qed (auto intro: here)

lemma walk_suffix: "walk b start es = Some (n, rest) \<Longrightarrow> \<exists>used. es = used @ rest"
proof (induction b start es rule: walk.induct)
  case (2 b result e out)
  then have "rest = out \<or> (\<exists>used. out = used @ rest)"
    by (auto split: option.splits if_splits)
  then show ?case by (metis append_Cons append_Nil)
qed simp

lemma walk_stops: "walk b start es = Some (n, rest) \<Longrightarrow> rest \<noteq> [] \<Longrightarrow> n_type n = HOST_FOLDER"
  by (induction b start es rule: walk.induct) (auto split: option.splits if_splits)


lemma prefix_slash:
  "starts_with path g \<and> (length g = length path \<or> path ! length g = slash) \<longleftrightarrow>
     (\<exists>rest. path = g @ rest \<and> (rest = [] \<or> hd rest = slash))" (is "?l \<longleftrightarrow> ?r")
proof
  assume l: ?l
  then obtain rest where r: "path = g @ rest" by (auto simp: starts_with_iff)
  with l show ?r by (cases rest) auto
next
  assume ?r
  then obtain rest where r: "path = g @ rest" "rest = [] \<or> hd rest = slash" by blast
  then show ?l by (cases rest) (auto simp: starts_with_def)
qed

section \<open>Properties\<close>

text \<open>The nodes a program can build through the public operations.\<close>

inductive built :: "path_node \<Rightarrow> bool" where
  "\<forall>c \<in> set cs. built c \<Longrightarrow> make_virtual_node_of name v cs = Inr n \<Longrightarrow> built n"
| "make_host_node name t h v = Inr n \<Longrightarrow> built n"
| "built n \<Longrightarrow> built c \<Longrightarrow> add_child_node c n = Inr n' \<Longrightarrow> built n'"
| "built n \<Longrightarrow> built (remove_child_node k n)"
| "built n \<Longrightarrow> built (clear_child_nodes n)"
| "built n \<Longrightarrow> \<forall>c \<in> set cs. built c \<Longrightarrow> set_child_nodes (vector_to_map cs) n = Inr n' \<Longrightarrow> built n'"
| "built n \<Longrightarrow> set_name s n = Inr n' \<Longrightarrow> built n'"
| "built n \<Longrightarrow> set_type t n = Inr n' \<Longrightarrow> built n'"
| "built n \<Longrightarrow> built (set_visibility v n)"
| "built n \<Longrightarrow> set_host_path h n = Inr n' \<Longrightarrow> built n'"


definition tmp_node :: path_node where
  "tmp_node = Path_node ''tmp'' [] ''/tmp'' HOST_FOLDER VISIBLE"


text \<open>A root node can be made from a name exactly when, trailing slashes removed, it is one or
  two slashes and a name without slash; a plain name like \<open>fsp\<close> is refused although nothing
  in it is forbidden.\<close>

theorem root_names_accepted:
  "((\<exists>root. make_root_node name nodes = Inr root) \<longleftrightarrow> root_name_ok (trim_node_name name False)) \<and>
   make_root_node ''fsp'' nodes =
     Inl (Runtime_error ''RootPathNode name can only contain directory separators at the begining'')"
proof -
  have "make_root_node ''fsp'' nodes =
     Inl (Runtime_error ''RootPathNode name can only contain directory separators at the begining'')"
    by (simp add: make_root_node_def make_virtual_node_def trim_node_name_def slash_def assert_valid_name_def
      find_slash_def root_assert_valid_name_def find_last_slash_def Let_def)
  with make_root_iff show ?thesis by blast
qed

text \<open>C25: Looking up a virtual path only ever gives a node that is reached from the root through
  visible nodes, and leaves elements of the path over only at a host folder.\<close>

theorem lookup_visible_only:
  assumes "find_virtual_node m p True = Some (n, rest)"
  shows "visible_below (fm_root_node m) n \<and> (rest \<noteq> [] \<longrightarrow> n_type n = HOST_FOLDER)"
  using assms walk_visible walk_stops by (auto simp: find_virtual_node_def Let_def)

definition sample_mapping :: file_mapping where
  "sample_mapping = \<lparr>fm_root_node = Path_node ''//fsp'' [(''tmp'', tmp_node)] [] VIRTUAL VISIBLE,
     fm_forbidden_paths = [''/etc/passwd'', ''/root'']\<rparr>"

lemma sample_lookup:
  "find_virtual_node sample_mapping ''//fsp/tmp/../etc/passwd'' True = Some (tmp_node, [''..'', ''etc'', ''passwd''])"
  by (simp add: find_virtual_node_def sample_mapping_def trim_node_name_def slash_def starts_with_def
      elems_def names_def absolute_def tmp_node_def Let_def)

theorem lookup_visible_only_witness: "visible_below (fm_root_node sample_mapping) tmp_node"
  using lookup_visible_only [OF sample_lookup] by simp

text \<open>Translating a virtual path below a host folder is undefined: the iterator that
  \<open>find_virtual_node\<close> hands back points into its own argument. Other paths translate to the
  host path of their node, and a path without a node to the empty path.\<close>

theorem virtual_to_host_undefined:
  "virtual_to_host m p =
     (case find_virtual_node m p True of
        None \<Rightarrow> Inr []
      | Some (n, rest) \<Rightarrow> if n_type n = HOST_FOLDER then Inl Undefined_behaviour else Inr (n_host_path n))"
  by (auto simp: virtual_to_host_def split: option.split)

text \<open>The forbidden paths are compared as text: a path is forbidden if and only if one of
  them, a trailing slash removed, is the path or is followed in it by a slash, or the hash
  set finds it.\<close>

theorem forbidden_iff_prefix:
  "is_forbidden set_contains m path \<longleftrightarrow> set_contains (fm_forbidden_paths m) path \<or>
     (\<exists>f \<in> set (fm_forbidden_paths m). \<exists>rest.
        path = drop_last_slash f @ rest \<and> (rest = [] \<or> hd rest = slash))"
proof -
  have "forbidden_loop path fs \<longleftrightarrow> (\<exists>f \<in> set fs. \<exists>rest.
      path = drop_last_slash f @ rest \<and> (rest = [] \<or> hd rest = slash))" for fs
  proof (induction fs)
    case (Cons f fs)
    let ?f = "drop_last_slash f"
    have "starts_with path ?f \<and> (length ?f = length path \<or> path ! length ?f = slash) \<longleftrightarrow>
        (\<exists>rest. path = ?f @ rest \<and> (rest = [] \<or> hd rest = slash))"
      by (rule prefix_slash)
    with Cons show ?case by (simp add: Let_def) blast
  qed simp
  then show ?thesis by (simp add: is_forbidden_def)
qed

text \<open>Neither the walk nor the forbidden paths stop at \<open>..\<close>: with a folder mapped to
  \<open>/tmp\<close>, a peer's path leads to a host path that denotes the forbidden \<open>/etc/passwd\<close> and
  is not forbidden, whatever the hash set does with paths it does not hold.\<close>

theorem dotdot_escapes:
  assumes "\<And>ps p. set_contains ps p \<Longrightarrow> \<exists>q \<in> set ps. path_eq q p"
  shows "\<exists>n rest host. find_virtual_node sample_mapping ''//fsp/tmp/../etc/passwd'' True = Some (n, rest) \<and>
    virtual_to_host_from (Some n) (Into_path rest) = Inr host \<and> host = ''/tmp/../etc/passwd'' \<and>
    is_forbidden set_contains sample_mapping ''/etc/passwd'' \<and> \<not> is_forbidden set_contains sample_mapping host"
proof -
  have "\<not> set_contains [''/etc/passwd'', ''/root''] ''/tmp/../etc/passwd''"
    using assms [of "[''/etc/passwd'', ''/root'']" "''/tmp/../etc/passwd''"]
    by (auto simp: path_eq_def elems_def names_def absolute_def slash_def)
  then show ?thesis
    unfolding sample_lookup
    by (simp add: tmp_node_def path_append_def absolute_def slash_def is_forbidden_def sample_mapping_def starts_with_def drop_last_slash_def)
qed

theorem dotdot_escapes_witness:
  "\<not> is_forbidden (\<lambda>ps p. p \<in> set ps) sample_mapping ''/tmp/../etc/passwd''"
  using dotdot_escapes [of "\<lambda>ps p. p \<in> set ps"] by (auto simp: path_eq_def)

end
