(* ===== verification/Configuration.thy ===== *)
theory Configuration
  imports File_System File_Mapping
begin

text \<open>
  \<open>Config/Config.cpp\<close>, \<open>Config/ServerConfig.cpp\<close> and \<open>Config/Serialization.hpp\<close>: the two
  configurations and their files. The bytes of an archive are cereal's: \<open>cw_encode\<close> and
  \<open>cw_decode\<close> below. What a stream writes is the system's: \<open>cw_stream\<close> says for a stream that is
  open, or not, what the archive reports and what is in the file once the stream is closed.
\<close>

section \<open>The configurations\<close>

datatype transport_mode = UDP | TCP | AUTOMATIC

record config =
  cf_filepath :: path
  cf_nickname :: string
  cf_transport_mode :: transport_mode
  cf_filemap :: file_mapping
  cf_downloads_folder :: path

record server_config =
  sc_filepath :: path
  sc_uuid :: string
  sc_device_name :: string
  sc_private_keys_dir :: path
  sc_private_key_name :: string
  sc_disable_server :: bool

type_synonym server_fields = "string \<times> string \<times> path \<times> string \<times> bool"
type_synonym config_fields = "transport_mode \<times> file_mapping \<times> path"

record 'f config_world = fs_world +
  cw_home :: "string option"
  cw_pw_dir :: "string \<Rightarrow> string option"
  cw_encode :: "u32 \<times> 'f \<Rightarrow> bytes"
  cw_decode :: "bytes option \<Rightarrow> (u32 \<times> 'f) result"
  cw_stream :: "bool \<Rightarrow> bytes \<Rightarrow> unit result \<times> bytes"

definition cw_resolve :: "('f, 'm) config_world_scheme \<Rightarrow> path \<Rightarrow> path" where
  "cw_resolve W = resolve_home_component (cw_home W) (cw_pw_dir W)"

definition config_default_path :: path where
  "config_default_path = ''~/.fsp/default_config''"

definition server_config_default_path :: path where
  "server_config_default_path = ''~/.fsp/server_config''"

definition config_new :: "('f, 'm) config_world_scheme \<Rightarrow> config result" where
  "config_new W =
     try_then (make_root_node default_root_name []) (\<lambda>root.
     Inr \<lparr>cf_filepath = cw_resolve W config_default_path, cf_nickname = [], cf_transport_mode = AUTOMATIC,
       cf_filemap = \<lparr>fm_root_node = root, fm_forbidden_paths = default_forbidden_paths (cw_home W) (cw_pw_dir W)\<rparr>,
       cf_downloads_folder = cw_resolve W ''~/Downloads/FileShare''\<rparr>)"

definition set_downloads_folder :: "('f, 'm) config_world_scheme \<Rightarrow> path \<Rightarrow> config \<Rightarrow> config" where
  "set_downloads_folder W path c = c\<lparr>cf_downloads_folder := cw_resolve W path\<rparr>"

definition default_private_keys_dir :: "('f, 'm) config_world_scheme \<Rightarrow> path" where
  "default_private_keys_dir W = cw_resolve W ''~/.fsp/private''"

text \<open>The private constructor with an id; the public one sets the file as well.\<close>

definition server_config_with :: "('f, 'm) config_world_scheme \<Rightarrow> string \<Rightarrow> server_config" where
  "server_config_with W uuid = \<lparr>sc_filepath = [], sc_uuid = uuid, sc_device_name = [],
     sc_private_keys_dir = default_private_keys_dir W, sc_private_key_name = ''file_share'', sc_disable_server = False\<rparr>"

definition server_config_new :: "('f, 'm) config_world_scheme \<Rightarrow> server_config" where
  "server_config_new W =
     (server_config_with W ''0000-0000-0000-0000'')\<lparr>sc_filepath := cw_resolve W server_config_default_path\<rparr>"

definition set_private_keys_dir :: "('f, 'm) config_world_scheme \<Rightarrow> path \<Rightarrow> server_config \<Rightarrow> server_config" where
  "set_private_keys_dir W path c = c\<lparr>sc_private_keys_dir := cw_resolve W path\<rparr>"

definition set_private_key_name :: "string \<Rightarrow> server_config \<Rightarrow> server_config result" where
  "set_private_key_name name c =
     try_then (throw_if (slash \<in> set name) (Runtime_error ''Private Key Name cannot contain a directory separator''))
       (\<lambda>_. Inr (c\<lparr>sc_private_key_name := name\<rparr>))"

section \<open>Archives\<close>

definition file_share_config_version :: u32 where
  "file_share_config_version = 0"

text \<open>The check that each of the \<open>serialize\<close> functions begins with.\<close>

definition check_version :: "string \<Rightarrow> u32 \<Rightarrow> u32 \<Rightarrow> unit result" where
  "check_version name supported version =
     (if version > supported
      then Inl (Runtime_error (name @ '' file format is more recent than what this program supports''))
      else if version = supported then Inr ()
      else Inl (Runtime_error (name @ '' file format is unsupported'')))"

definition server_fields :: "server_config \<Rightarrow> server_fields" where
  "server_fields c = (sc_uuid c, sc_device_name c, sc_private_keys_dir c, sc_private_key_name c, sc_disable_server c)"

definition server_set_fields :: "server_fields \<Rightarrow> server_config \<Rightarrow> server_config" where
  "server_set_fields f c = (case f of (uuid, device_name, dir, name, disabled) \<Rightarrow>
     c\<lparr>sc_uuid := uuid, sc_device_name := device_name, sc_private_keys_dir := dir, sc_private_key_name := name,
       sc_disable_server := disabled\<rparr>)"

definition config_fields :: "config \<Rightarrow> config_fields" where
  "config_fields c = (cf_transport_mode c, cf_filemap c, cf_downloads_folder c)"

definition config_set_fields :: "config_fields \<Rightarrow> config \<Rightarrow> config" where
  "config_set_fields f c = (case f of (mode, filemap, folder) \<Rightarrow>
     c\<lparr>cf_transport_mode := mode, cf_filemap := filemap, cf_downloads_folder := folder\<rparr>)"

section \<open>Files\<close>

text \<open>
  \<open>save\<close>, the same in both classes: a file beside the target is written and renamed. That the
  stream could not be opened, or failed when it was closed, is not looked at.
\<close>

definition save_archive :: "('f, 'm) config_world_scheme \<Rightarrow> path \<Rightarrow> path \<Rightarrow> 'f \<Rightarrow> (fs, unit) action" where
  "save_archive W filepath config_file vals =
     (let config_file = (if config_file = [] then filepath else cw_resolve W config_file);
          tmp_file = config_file @ ''.tmp''
      in act_then (open_for_writing W tmp_file) (\<lambda>open.
         case cw_stream W open (cw_encode W (file_share_config_version, vals)) of
           (r, written) \<Rightarrow>
             act_then (if open then write_content tmp_file written else act_return ()) (\<lambda>_.
             act_then (act_lift r) (\<lambda>_.
             fs_rename W tmp_file config_file))))"

definition server_config_save :: "(server_fields, 'm) config_world_scheme \<Rightarrow> path \<Rightarrow> server_config \<Rightarrow> (fs, unit) action" where
  "server_config_save W config_file c = save_archive W (sc_filepath c) config_file (server_fields c)"

definition config_save :: "(config_fields, 'm) config_world_scheme \<Rightarrow> path \<Rightarrow> config \<Rightarrow> (fs, unit) action" where
  "config_save W config_file c = save_archive W (cf_filepath c) config_file (config_fields c)"

definition load_archive :: "('f, 'm) config_world_scheme \<Rightarrow> string \<Rightarrow> path \<Rightarrow> fs \<Rightarrow> 'f result" where
  "load_archive W name filepath fs =
     try_then (cw_decode W (map_option fn_content (fs (fs_key filepath)))) (\<lambda>(version, fields).
     try_then (check_version name file_share_config_version version) (\<lambda>_. Inr fields))"

definition server_config_load :: "(server_fields, 'm) config_world_scheme \<Rightarrow> path \<Rightarrow> fs \<Rightarrow> server_config result" where
  "server_config_load W config_file fs =
     (let config_file = (if config_file = [] then server_config_default_path else config_file);
          c = (server_config_with W ''0000-0000-0000-0000'')\<lparr>sc_filepath := cw_resolve W config_file\<rparr>
      in try_then (load_archive W ''ServerConfig'' (sc_filepath c) fs) (\<lambda>fields. Inr (server_set_fields fields c)))"

definition config_load :: "(config_fields, 'm) config_world_scheme \<Rightarrow> path \<Rightarrow> fs \<Rightarrow> config result" where
  "config_load W config_file fs =
     (let config_file = (if config_file = [] then config_default_path else config_file) in
      try_then (make_root_node default_root_name []) (\<lambda>root.
      let c = \<lparr>cf_filepath = cw_resolve W config_file, cf_nickname = [], cf_transport_mode = AUTOMATIC,
            cf_filemap = \<lparr>fm_root_node = root, fm_forbidden_paths = default_forbidden_paths (cw_home W) (cw_pw_dir W)\<rparr>,
            cf_downloads_folder = []\<rparr>
      in try_then (load_archive W ''Config'' (cf_filepath c) fs) (\<lambda>fields. Inr (config_set_fields fields c))))"

section \<open>Saving replaces the target as a whole\<close>

lemma concat_names: "concat (names p) = filter (\<lambda>c. c \<noteq> slash) p"
proof -
  have "concat (filter (\<lambda>w. w \<noteq> []) ws) = concat ws" for ws :: "string list" by (induction ws) auto
  moreover have "concat (split_slash p) = filter (\<lambda>c. c \<noteq> slash) p"
    by (induction p) (auto split: list.splits)
  ultimately show ?thesis by (simp add: names_def)
qed

lemma fs_key_tmp: "fs_key (p @ ''.tmp'') \<noteq> fs_key p"
proof
  assume "fs_key (p @ ''.tmp'') = fs_key p"
  then have "concat (names (p @ ''.tmp'')) = concat (names p)" by (simp add: fs_key_def)
  then show False by (simp add: concat_names slash_def)
qed

lemma save_archive_effect:
  assumes "save_archive W filepath config_file vals fs = (r, fs')"
    and "target = (if config_file = [] then filepath else cw_resolve W config_file)"
  shows "k \<noteq> fs_key target \<Longrightarrow> k \<noteq> fs_key (target @ ''.tmp'') \<Longrightarrow> fs' k = fs k"
    and "r \<noteq> Inr () \<Longrightarrow> fs' (fs_key target) = fs (fs_key target)"
    and "r = Inr () \<Longrightarrow> fs' (fs_key (target @ ''.tmp'')) = None"
    and "r = Inr () \<Longrightarrow> \<forall>b w. cw_stream W False b \<noteq> (Inr (), w) \<Longrightarrow>
      map_option fn_content (fs' (fs_key target)) = Some (snd (cw_stream W True (cw_encode W (file_share_config_version, vals))))"
  using assms fs_key_tmp [of target] not_sym [OF fs_key_tmp [of target]]
  by (auto simp: save_archive_def Let_def act_then_def act_simps open_for_writing_def write_content_def fs_rename_def
      split: prod.splits sum.splits option.splits if_splits)


section \<open>Examples\<close>

text \<open>A system that allows everything, and an archive that is the version and the device name.\<close>

definition plain_system :: fs_world where
  "plain_system = \<lparr>fw_mkdir = (\<lambda>k. True), fw_chmod = (\<lambda>k. True), fw_open = (\<lambda>k. True), fw_remove = (\<lambda>k. True),
     fw_rename = (\<lambda>k. True), fw_directory_perms = 0x1ED, fw_file_perms = 0x1A4\<rparr>"

definition plain_world :: "server_fields config_world" where
  "plain_world = fs_world.extend plain_system (config_world.fields (Some ''/home/me'') (\<lambda>u. None)
     (\<lambda>vals. [1]) (\<lambda>b. Inr (0, (''u'', ''d'', ''/k'', ''n'', False)))
     (\<lambda>open b. if open then (Inr (), b) else (Inl (Runtime_error ''write''), [])))"

definition plain_config :: server_config where
  "plain_config = \<lparr>sc_filepath = [], sc_uuid = ''u'', sc_device_name = ''d'', sc_private_keys_dir = ''/k'',
     sc_private_key_name = ''n'', sc_disable_server = False\<rparr>"


end
