(* ===== verification/Codec.thy ===== *)
theory Codec
  imports Prelude
begin

text \<open>
  The interface between the byte-level encoders and the message formats built from them: an
  encoder, a decoder that returns the rest of its input, and the laws a format needs. The
  laws are those of a self-delimiting code, so encodings can be concatenated and read back
  one after the other; the decoders of the source are partial functions of their input, so
  the laws ask for inputs a string view can hold.
\<close>

section \<open>Counted sequences\<close>

text \<open>The loop \<open>for (i = 0; i < n; i++)\<close> that reads one element per turn.\<close>

fun read_many :: "(bytes \<Rightarrow> ('a \<times> bytes) result) \<Rightarrow> nat \<Rightarrow> bytes \<Rightarrow> ('a list \<times> bytes) result" where
  "read_many rd 0 s = Inr ([], s)"
| "read_many rd (Suc n) s =
     try_then (rd s) (\<lambda>(a, s). try_then (read_many rd n s) (\<lambda>(as, s). Inr (a # as, s)))"

section \<open>Self-delimiting codes\<close>

locale codec =
  fixes enc :: "'a \<Rightarrow> bytes"
    and dec :: "bytes \<Rightarrow> ('a \<times> bytes) result"
    and valid :: "'a \<Rightarrow> bool"
  assumes dec_enc: "valid a \<Longrightarrow> addressable (enc a @ rest) \<Longrightarrow> dec (enc a @ rest) = Inr (a, rest)"
    and dec_consumes: "addressable s \<Longrightarrow> dec s = Inr (a, rest) \<Longrightarrow> \<exists>bs. bs \<noteq> [] \<and> s = bs @ rest"
begin

lemma enc_inject:
  assumes "valid a" "valid b" "addressable (enc a @ r)" "enc a @ r = enc b @ t"
  shows "a = b \<and> r = t"
proof -
  have "dec (enc a @ r) = Inr (a, r)" using assms(1,3) by (rule dec_enc)
  moreover have "dec (enc b @ t) = Inr (b, t)"
    using assms(2) assms(3) [unfolded assms(4)] by (rule dec_enc)
  ultimately show ?thesis unfolding assms(4) by simp
qed

lemma enc_not_Nil:
  assumes "valid a" "addressable (enc a)"
  shows "enc a \<noteq> []"
proof
  assume e: "enc a = []"
  with assms dec_enc [of a "[]"] have "dec [] = Inr (a, [])" by simp
  then show False using dec_consumes [of "[]" a "[]"] by simp
qed

lemma read_many_enc:
  assumes "\<forall>a \<in> set as. valid a" "addressable (concat (map enc as) @ rest)"
  shows "read_many dec (length as) (concat (map enc as) @ rest) = Inr (as, rest)"
  using assms
proof (induction as)
  case (Cons a as)
  from Cons.prems(2) have "addressable (concat (map enc as) @ rest)"
    by (simp add: addressable_def)
  with Cons show ?case by (simp add: dec_enc)
qed simp

lemma read_many_consumes:
  "addressable s \<Longrightarrow> read_many dec n s = Inr (as, rest) \<Longrightarrow>
     length as = n \<and> n + length rest \<le> length s \<and> (\<exists>bs. s = bs @ rest)"
proof (induction n arbitrary: s as)
  case (Suc n)
  from Suc.prems(2) obtain a t as' where step: "dec s = Inr (a, t)"
    and rec: "read_many dec n t = Inr (as', rest)" "as = a # as'"
    by (auto simp: try_then_eq_Inr)
  from dec_consumes [OF Suc.prems(1) step] obtain bs where bs: "bs \<noteq> []" "s = bs @ t" by auto
  then have "addressable t" "length t < length s"
    using Suc.prems(1) by (auto simp: addressable_def)
  then have "length as' = n" "n + length rest \<le> length t" "\<exists>cs. t = cs @ rest"
    using Suc.IH [OF _ rec(1)] by auto
  moreover have "\<exists>bs'. s = bs' @ rest" using calculation(3) bs(2) by auto
  ultimately show ?case using \<open>length t < length s\<close> rec(2) by simp
qed simp

end

end
