(* ===== verification/Serialize.thy ===== *)
theory Serialize
  imports Codec
begin

unbundle bit_operations_syntax

text \<open>
  \<open>source/Utils/Serialize.cpp\<close>: the fixed-width little-endian encoding of 64-bit
  integers, and \<open>include/FileShare/Utils/Time.hpp\<close>: the conversions between the file
  clock and the seconds that go on the wire.
\<close>

section \<open>Numbers\<close>

fun serialize_loop :: "nat \<Rightarrow> u64 \<Rightarrow> bytes" where
  "serialize_loop 0 n = []"
| "serialize_loop (Suc i) n = ucast (n AND 0xFF) # serialize_loop i (drop_bit 8 n)"

definition serialize_u64 :: "u64 \<Rightarrow> bytes" where
  "serialize_u64 n = serialize_loop 8 n"

text \<open>The signed overloads convert to and from the unsigned type: the same 64 bits.\<close>

definition serialize_i64 :: "64 word \<Rightarrow> bytes" where
  "serialize_i64 n = serialize_u64 n"

definition parse_fold :: "bytes \<Rightarrow> u64" where
  "parse_fold input = foldl (\<lambda>res c. push_bit 8 res + ucast c) 0 (rev input)"

definition parse_u64 :: "bytes \<Rightarrow> u64 result" where
  "parse_u64 input =
     (if sv_size input > 8
      then Inl (Runtime_error ''Input can't be larger than the output byte size'')
      else Inr (parse_fold input))"

definition parse_i64 :: "bytes \<Rightarrow> 64 word result" where
  "parse_i64 input = try_then (parse_u64 input) (\<lambda>res. Inr res)"

lemma length_serialize_loop [simp]: "length (serialize_loop k n) = k"
  by (induction k arbitrary: n) simp_all

lemma length_serialize_u64 [simp]: "length (serialize_u64 n) = 8"
  by (simp add: serialize_u64_def)

lemma parse_fold_Nil [simp]: "parse_fold [] = 0"
  by (simp add: parse_fold_def)

lemma parse_fold_Cons: "parse_fold (c # s) = push_bit 8 (parse_fold s) + ucast c"
  by (simp add: parse_fold_def)

lemma and_FF: "(n :: u64) AND 0xFF = take_bit 8 n"
  by (simp add: take_bit_eq_mask mask_eq_exp_minus_1)

lemma low_byte: "ucast (ucast ((n :: u64) AND 0xFF) :: byte) = (of_nat (unat n mod 256) :: u64)"
proof -
  have "ucast (ucast (take_bit 8 n) :: byte) = (take_bit 8 n :: u64)"
    by (rule bit_word_eqI) (auto simp: bit_simps)
  also have "take_bit 8 n = (of_nat (unat n mod 256) :: u64)"
    by (simp add: word_unat_eq_iff unat_of_nat take_bit_eq_mod unat_mod)
  finally show ?thesis by (simp add: and_FF)
qed

lemma parse_serialize_loop: "parse_fold (serialize_loop k n) = of_nat (unat n mod 256 ^ k)"
proof (induction k arbitrary: n)
  case (Suc k)
  have "unat n mod 256 ^ Suc k = 256 * (unat (drop_bit 8 n) mod 256 ^ k) + unat n mod 256"
    by (simp add: mod_mult2_eq drop_bit_eq_div unat_div)
  with Suc show ?case by (simp add: parse_fold_Cons low_byte push_bit_eq_mult)
qed simp

lemma parse_serialize_u64 [simp]: "parse_u64 (serialize_u64 n) = Inr n"
proof -
  have "unat n < 256 ^ 8" using unsigned_less [of n] by simp
  then have "parse_fold (serialize_u64 n) = n"
    by (simp add: serialize_u64_def parse_serialize_loop)
  then show ?thesis by (simp add: parse_u64_def sv_size_def)
qed

lemma serialize_loop_parse: "serialize_loop (length s) (parse_fold s) = s" if "length s \<le> 8"
proof -
  have val: "parse_fold s = of_nat (foldr (\<lambda>c acc. unat c + 256 * acc) s 0)" for s
  proof (induction s)
    case (Cons c s)
    then show ?case by (simp add: parse_fold_Cons push_bit_eq_mult)
  qed simp
  have bound: "foldr (\<lambda>c acc. unat c + 256 * acc) s 0 < 256 ^ length s" for s :: bytes
  proof (induction s)
    case (Cons c s)
    have "unat c < 256" using unsigned_less [of c] by simp
    with Cons show ?case by simp
  qed simp
  show ?thesis using that
  proof (induction s)
    case (Cons c s)
    let ?v = "foldr (\<lambda>c acc. unat c + 256 * acc) s 0"
    have c: "unat c < 256" using unsigned_less [of c] by simp
    have "?v < 256 ^ 7"
      using bound [of s] Cons.prems power_increasing [of "length s" 7 "256 :: nat"] by simp
    then have v: "unat c + 256 * ?v < 2 ^ 64" using c by simp
    have u: "unat (parse_fold (c # s)) = unat c + 256 * ?v"
      using v by (simp add: val [of "c # s"] unat_of_nat take_bit_nat_eq_self del: foldr.simps) simp
    have "unat (drop_bit 8 (parse_fold (c # s))) = ?v"
      using c by (simp add: drop_bit_eq_div unat_div u)
    also have "?v = unat (parse_fold s)"
      using v by (simp add: val unat_of_nat take_bit_nat_eq_self)
    finally have "drop_bit 8 (parse_fold (c # s)) = parse_fold s"
      by (simp add: word_unat_eq_iff)
    moreover have "ucast (parse_fold (c # s) AND 0xFF) = c"
    proof -
      have "unat (ucast (parse_fold (c # s) AND 0xFF) :: byte) = unat (parse_fold (c # s)) mod 256"
        by (simp add: and_FF unsigned_ucast_eq take_bit_eq_mod unat_mod)
      then show ?thesis using c by (simp add: word_unat_eq_iff u)
    qed
    ultimately show ?case using Cons by simp
  qed simp
qed

section \<open>The file clock\<close>

text \<open>
  A \<open>file_time_type\<close> is a signed 64-bit count of nanoseconds since the epoch of
  \<open>file_clock\<close>, here an \<open>int\<close> with its range written out; leaving the range is
  signed overflow. The epoch of \<open>file_clock\<close> is the implementation's: the library of the
  Linux build puts it 6437664000 seconds after that of \<open>system_clock\<close>
  (1 January 2174), and \<open>clock_cast\<close> adds the difference. \<open>duration_cast\<close> truncates
  towards zero.
\<close>

type_synonym file_time = int

definition in_i64 :: "int \<Rightarrow> bool" where
  "in_i64 x \<longleftrightarrow> - (2 ^ 63) \<le> x \<and> x < 2 ^ 63"

definition checked_i64 :: "int \<Rightarrow> int result" where
  "checked_i64 x = (if in_i64 x then Inr x else Inl Undefined_behaviour)"

definition epoch_diff :: int where
  "epoch_diff = 6437664000"

definition to_epoch :: "file_time \<Rightarrow> u64 result" where
  "to_epoch t =
     try_then (checked_i64 (t + epoch_diff * 10 ^ 9)) (\<lambda>system_time.
       Inr (of_int (if system_time < 0 then - ((- system_time) div 10 ^ 9)
                    else system_time div 10 ^ 9)))"

definition from_epoch :: "u64 \<Rightarrow> file_time result" where
  "from_epoch epoch = checked_i64 (sint epoch * 10 ^ 9)"

section \<open>Properties\<close>

text \<open>The fixed-width encoding is a bijection between 64-bit integers and strings of eight
  bytes, and longer input is refused.\<close>

theorem serialize_bijection:
  "length (serialize_u64 n) = 8 \<and> parse_u64 (serialize_u64 n) = Inr n \<and>
   (\<forall>s. length s = 8 \<longrightarrow> (\<exists>m. parse_u64 s = Inr m \<and> serialize_u64 m = s)) \<and>
   (\<forall>s. addressable s \<longrightarrow> 8 < length s \<longrightarrow>
      parse_u64 s = Inl (Runtime_error ''Input can't be larger than the output byte size''))"
proof -
  have "\<exists>m. parse_u64 s = Inr m \<and> serialize_u64 m = s" if "length s = 8" for s
    using serialize_loop_parse [of s] that by (simp add: parse_u64_def sv_size_def serialize_u64_def)
  moreover have "sv_size s > 8" if "addressable s" "8 < length s" for s
    using that by (simp add: word_less_nat_alt unat_sv_size)
  moreover have "parse_u64 s = Inl (Runtime_error ''Input can't be larger than the output byte size'')"
    if "sv_size s > 8" for s
    using that by (simp add: parse_u64_def)
  ultimately show ?thesis by (auto simp del: list.inject)
qed

theorem serialize_bijection_witness:
  "parse_u64 (serialize_u64 513) = Inr 513 \<and> serialize_u64 513 = [1, 2, 0, 0, 0, 0, 0, 0]"
  proof -
  have "serialize_loop (Suc (Suc (Suc (Suc (Suc (Suc (Suc (Suc 0)))))))) 513 = [1, 2, 0, 0, 0, 0, 0, 0]"
    by simp
  then have "serialize_u64 513 = [1, 2, 0, 0, 0, 0, 0, 0]"
    by (simp add: serialize_u64_def numeral_2_eq_2 eval_nat_numeral del: serialize_loop.simps)
  with serialize_bijection [of 513] show ?thesis by simp
qed

end
