(* ===== verification/Protocol_Defs.thy ===== *)
theory Protocol_Defs
  imports Serialize
begin

unbundle bit_operations_syntax

text \<open>
  \<open>include/FileShare/Protocol/Definitions.hpp\<close>, \<open>RequestData.hpp\<close>, \<open>Version.hpp\<close>
  with \<open>source/Protocol/Protocol.cpp\<close> (the name tables), \<open>source/Protocol/Version.cpp\<close>
  and the algorithm tables of \<open>source/Utils/FileHash.cpp\<close>.

  A C++ enumeration with a fixed underlying type holds every value of that type, and the
  parsers produce such values with \<open>static_cast\<close>. Each enumeration is a datatype with the
  source's enumerators and one more constructor for the values that have no name.
  \<open>CommandCode\<close> is \<open>std::uint8_t\<close>; \<open>StatusCode\<close>, \<open>HashAlgorithm\<close> and \<open>FileType\<close>
  are \<open>int\<close>, and the \<open>char\<close> they are cast from is signed on the targets of the build
  files, hence \<open>scast\<close>.
\<close>

section \<open>Command codes\<close>

datatype command_code =
    RESPONSE
  | SUPPORTED_VERSIONS
  | SELECTED_VERSION
  | SEND_FILE
  | RECEIVE_FILE
  | LIST_FILES
  | FILE_LIST
  | PING
  | DATA_PACKET
  | PAIR_REQUEST
  | ACCEPT_PAIR_REQUEST
  | UNNAMED_COMMAND byte

fun command_byte :: "command_code \<Rightarrow> byte" where
  "command_byte RESPONSE = 0x00"
| "command_byte SUPPORTED_VERSIONS = 0x01"
| "command_byte SELECTED_VERSION = 0x02"
| "command_byte SEND_FILE = 0x10"
| "command_byte RECEIVE_FILE = 0x11"
| "command_byte LIST_FILES = 0x20"
| "command_byte FILE_LIST = 0x21"
| "command_byte PING = 0x30"
| "command_byte DATA_PACKET = 0x42"
| "command_byte PAIR_REQUEST = 0x50"
| "command_byte ACCEPT_PAIR_REQUEST = 0x51"
| "command_byte (UNNAMED_COMMAND b) = b"

text \<open>
  The inverse tables. \<open>named\<close> looks a value up among the enumerators; what has no name
  keeps its number.
\<close>

definition command_enum :: "command_code list" where
  "command_enum = [RESPONSE, SUPPORTED_VERSIONS, SELECTED_VERSION, SEND_FILE, RECEIVE_FILE,
     LIST_FILES, FILE_LIST, PING, DATA_PACKET, PAIR_REQUEST, ACCEPT_PAIR_REQUEST]"

definition named :: "('e \<Rightarrow> 'v) \<Rightarrow> 'e list \<Rightarrow> ('v \<Rightarrow> 'e) \<Rightarrow> 'v \<Rightarrow> 'e" where
  "named val enum unnamed v = (case List.find (\<lambda>e. val e = v) enum of Some e \<Rightarrow> e | None \<Rightarrow> unnamed v)"

lemma named_val: "(\<And>v. val (unnamed v) = v) \<Longrightarrow> val (named val enum unnamed v) = v"
  by (auto simp: named_def find_Some_iff split: option.split)

lemma named_inverse:
  assumes "inj_on val (set enum)" "e \<in> set enum"
  shows "named val enum unnamed (val e) = e"
proof -
  have "List.find (\<lambda>e'. val e' = val e) enum \<noteq> None"
    using assms(2) by (auto simp: find_None_iff)
  then obtain e' where "List.find (\<lambda>e'. val e' = val e) enum = Some e'" by auto
  moreover from this have "e' \<in> set enum" "val e' = val e" by (auto simp: find_Some_iff)
  ultimately show ?thesis using assms by (auto simp: named_def inj_on_def)
qed

definition command_of_byte :: "byte \<Rightarrow> command_code" where
  "command_of_byte = named command_byte command_enum UNNAMED_COMMAND"

section \<open>Status codes\<close>

datatype status_code =
    STATUS_OK
  | UP_TO_DATE
  | MESSAGE_TOO_LONG
  | APPROVAL_PENDING
  | BAD_REQUEST
  | UNAUTHORIZED
  | INVALID_REQUEST_ID
  | FORBIDDEN
  | FILE_NOT_FOUND
  | UNKNOWN_COMMAND
  | TOO_MANY_REQUESTS
  | INTERNAL_ERROR
  | UNNAMED_STATUS u32

fun status_value :: "status_code \<Rightarrow> u32" where
  "status_value STATUS_OK = 0x00"
| "status_value UP_TO_DATE = 0x22"
| "status_value MESSAGE_TOO_LONG = 0x24"
| "status_value APPROVAL_PENDING = 0x33"
| "status_value BAD_REQUEST = 0x40"
| "status_value UNAUTHORIZED = 0x41"
| "status_value INVALID_REQUEST_ID = 0x42"
| "status_value FORBIDDEN = 0x43"
| "status_value FILE_NOT_FOUND = 0x44"
| "status_value UNKNOWN_COMMAND = 0x45"
| "status_value TOO_MANY_REQUESTS = 0x49"
| "status_value INTERNAL_ERROR = 0x50"
| "status_value (UNNAMED_STATUS v) = v"

definition status_enum :: "status_code list" where
  "status_enum = [STATUS_OK, UP_TO_DATE, MESSAGE_TOO_LONG, APPROVAL_PENDING, BAD_REQUEST,
     UNAUTHORIZED, INVALID_REQUEST_ID, FORBIDDEN, FILE_NOT_FOUND, UNKNOWN_COMMAND,
     TOO_MANY_REQUESTS, INTERNAL_ERROR]"

definition status_of_value :: "u32 \<Rightarrow> status_code" where
  "status_of_value = named status_value status_enum UNNAMED_STATUS"

definition status_of_char :: "byte \<Rightarrow> status_code" where
  "status_of_char c = status_of_value (scast c)"

definition status_to_char :: "status_code \<Rightarrow> byte" where
  "status_to_char s = ucast (status_value s)"

section \<open>File types and hash algorithms\<close>

datatype file_type = FILE | DIRECTORY | UNNAMED_FILE_TYPE u32

fun file_type_value :: "file_type \<Rightarrow> u32" where
  "file_type_value FILE = 0x00"
| "file_type_value DIRECTORY = 0x01"
| "file_type_value (UNNAMED_FILE_TYPE v) = v"

definition file_type_of_char :: "byte \<Rightarrow> file_type" where
  "file_type_of_char c = named file_type_value [FILE, DIRECTORY] UNNAMED_FILE_TYPE (scast c)"

definition file_type_to_char :: "file_type \<Rightarrow> byte" where
  "file_type_to_char t = ucast (file_type_value t)"

datatype hash_algorithm = MD5 | SHA256 | SHA512 | UNNAMED_HASH u32

fun hash_value :: "hash_algorithm \<Rightarrow> u32" where
  "hash_value MD5 = 0x01"
| "hash_value SHA256 = 0x02"
| "hash_value SHA512 = 0x03"
| "hash_value (UNNAMED_HASH v) = v"

definition hash_of_char :: "byte \<Rightarrow> hash_algorithm" where
  "hash_of_char c = named hash_value [MD5, SHA256, SHA512] UNNAMED_HASH (scast c)"

definition hash_to_char :: "hash_algorithm \<Rightarrow> byte" where
  "hash_to_char a = ucast (hash_value a)"

text \<open>The \<open>*_DIGEST_LENGTH\<close> constants are OpenSSL's: 16, 32 and 64 bytes.\<close>

fun algo_hash_size :: "hash_algorithm \<Rightarrow> u64 result" where
  "algo_hash_size MD5 = Inr 16"
| "algo_hash_size SHA256 = Inr 32"
| "algo_hash_size SHA512 = Inr 64"
| "algo_hash_size (UNNAMED_HASH _) = Inl (Runtime_error ''Unknown hash algorithm value'')"

fun algo_to_string :: "hash_algorithm \<Rightarrow> string result" where
  "algo_to_string MD5 = Inr ''md5''"
| "algo_to_string SHA256 = Inr ''sha256''"
| "algo_to_string SHA512 = Inr ''sha512''"
| "algo_to_string (UNNAMED_HASH _) = Inl (Runtime_error ''Unknown hash algorithm value'')"

section \<open>Names of the codes\<close>

definition lookup_name :: "(string \<times> 'e) list \<Rightarrow> string \<Rightarrow> string \<Rightarrow> 'e result" where
  "lookup_name table err str =
     (case map_of table str of Some e \<Rightarrow> Inr e | None \<Rightarrow> Inl (Runtime_error err))"

definition str_to_command :: "string \<Rightarrow> command_code result" where
  "str_to_command = lookup_name
     [(''RESPONSE'', RESPONSE),
      (''SEND_FILE'', SEND_FILE), (''RECEIVE_FILE'', RECEIVE_FILE),
      (''LIST_FILES'', LIST_FILES), (''FILE_LIST'', FILE_LIST),
      (''PING'', PING), (''DATA_PACKET'', DATA_PACKET),
      (''PAIR_REQUEST'', PAIR_REQUEST), (''ACCEPT_PAIR_REQUEST'', ACCEPT_PAIR_REQUEST)]
     ''Unknown command''"

definition str_to_status :: "string \<Rightarrow> status_code result" where
  "str_to_status = lookup_name
     [(''STATUS_OK'', STATUS_OK), (''UP_TO_DATE'', UP_TO_DATE),
      (''MESSAGE_TOO_LONG'', MESSAGE_TOO_LONG), (''APPROVAL_PENDING'', APPROVAL_PENDING),
      (''BAD_REQUEST'', BAD_REQUEST), (''INVALID_REQUEST_ID'', INVALID_REQUEST_ID),
      (''FORBIDDEN'', FORBIDDEN), (''FILE_NOT_FOUND'', FILE_NOT_FOUND),
      (''UNKNOWN_COMMAND'', UNKNOWN_COMMAND), (''TOO_MANY_REQUESTS'', TOO_MANY_REQUESTS),
      (''INTERNAL_ERROR'', INTERNAL_ERROR)]
     ''Unknown status''"

definition str_to_file_type :: "string \<Rightarrow> file_type result" where
  "str_to_file_type = lookup_name [(''FILE'', FILE), (''DIRECTORY'', DIRECTORY)] ''Unknown FileType''"

fun command_to_str :: "command_code \<Rightarrow> string" where
  "command_to_str RESPONSE = ''RESPONSE''"
| "command_to_str SEND_FILE = ''SEND_FILE''"
| "command_to_str RECEIVE_FILE = ''RECEIVE_FILE''"
| "command_to_str LIST_FILES = ''LIST_FILES''"
| "command_to_str FILE_LIST = ''FILE_LIST''"
| "command_to_str PING = ''PING''"
| "command_to_str DATA_PACKET = ''DATA_PACKET''"
| "command_to_str PAIR_REQUEST = ''PAIR_REQUEST''"
| "command_to_str ACCEPT_PAIR_REQUEST = ''ACCEPT_PAIR_REQUEST''"
| "command_to_str _ = ''__UNKNOWN_COMMAND__''"

fun status_to_str :: "status_code \<Rightarrow> string" where
  "status_to_str STATUS_OK = ''STATUS_OK''"
| "status_to_str UP_TO_DATE = ''UP_TO_DATE''"
| "status_to_str MESSAGE_TOO_LONG = ''MESSAGE_TOO_LONG''"
| "status_to_str APPROVAL_PENDING = ''APPROVAL_PENDING''"
| "status_to_str BAD_REQUEST = ''BAD_REQUEST''"
| "status_to_str UNAUTHORIZED = ''UNAUTHORIZED''"
| "status_to_str INVALID_REQUEST_ID = ''INVALID_REQUEST_ID''"
| "status_to_str FORBIDDEN = ''FORBIDDEN''"
| "status_to_str FILE_NOT_FOUND = ''FILE_NOT_FOUND''"
| "status_to_str UNKNOWN_COMMAND = ''UNKNOWN_COMMAND''"
| "status_to_str TOO_MANY_REQUESTS = ''TOO_MANY_REQUESTS''"
| "status_to_str INTERNAL_ERROR = ''INTERNAL_ERROR''"
| "status_to_str (UNNAMED_STATUS _) = ''__UNKNOWN_STATUS__''"

fun file_type_to_str :: "file_type \<Rightarrow> string" where
  "file_type_to_str FILE = ''FILE''"
| "file_type_to_str DIRECTORY = ''DIRECTORY''"
| "file_type_to_str (UNNAMED_FILE_TYPE _) = ''__UNKNOWN_STATUS__''"

section \<open>Versions\<close>

text \<open>The number and the array of its three low bytes, most significant first.\<close>

record version =
  v_number :: u32
  v_parts :: "byte \<times> byte \<times> byte"

definition mk_version :: "u32 \<Rightarrow> version" where
  "mk_version n = \<lparr>v_number = n,
     v_parts = (ucast (drop_bit 16 (n AND 0xFF0000)),
                ucast (drop_bit 8 (n AND 0x00FF00)),
                ucast (n AND 0x0000FF))\<rparr>"

definition version_eq :: "version \<Rightarrow> version \<Rightarrow> bool" where
  "version_eq v w \<longleftrightarrow> v_number v = v_number w"

fun compare_parts :: "byte list \<Rightarrow> byte list \<Rightarrow> ordering" where
  "compare_parts (x # xs) (y # ys) =
     (if x < y then Less else if y < x then Greater else compare_parts xs ys)"
| "compare_parts [] (y # ys) = Less"
| "compare_parts (x # xs) [] = Greater"
| "compare_parts [] [] = Equal"

definition parts_list :: "version \<Rightarrow> byte list" where
  "parts_list v = (case v_parts v of (a, b, c) \<Rightarrow> [a, b, c])"

definition version_compare :: "version \<Rightarrow> version \<Rightarrow> ordering" where
  "version_compare v w = compare_parts (parts_list v) (parts_list w)"

definition v_major :: "version \<Rightarrow> byte" where "v_major v = fst (v_parts v)"
definition v_minor :: "version \<Rightarrow> byte" where "v_minor v = fst (snd (v_parts v))"
definition v_patch :: "version \<Rightarrow> byte" where "v_patch v = snd (snd (v_parts v))"

text \<open>\<open>Version::NAMES\<close>: the versions the library knows, today the one.\<close>

definition version_names :: "(u32 \<times> string) list" where
  "version_names = [(0x000000, ''v0.0.0'')]"

definition version_known :: "version \<Rightarrow> bool" where
  "version_known v \<longleftrightarrow> v_number v \<in> fst ` set version_names"

section \<open>Request payloads\<close>

record send_file_data =
  sf_filepath :: bytes
  sf_hash_algorithm :: hash_algorithm
  sf_filehash :: bytes
  sf_last_updated :: file_time
  sf_packet_size :: u64
  sf_total_packets :: u64

record receive_file_data =
  rf_filepath :: bytes
  rf_packet_size :: u64
  rf_packet_start :: u64

record file_info =
  fi_path :: bytes
  fi_file_type :: file_type

record file_list_data =
  fl_request_id :: byte
  fl_packet_id :: u64
  fl_files :: "file_info list"

record data_packet_data =
  dp_request_id :: byte
  dp_packet_id :: u64
  dp_data :: bytes

datatype request_data =
    ResponseData status_code
  | SupportedVersionsData "version list"
  | SelectedVersionData version
  | SendFileData send_file_data
  | ReceiveFileData receive_file_data
  | ListFilesData bytes
  | FileListData file_list_data
  | DataPacketData data_packet_data
  | PingData

text \<open>\<open>Protocol::Request\<close>: the \<open>shared_ptr\<close> may be null.\<close>

record request =
  req_code :: command_code
  req_data :: "request_data option"
  req_message_id :: byte

text \<open>A request object before anything is parsed into it, for the examples.\<close>

definition blank_request :: request where
  "blank_request = \<lparr>req_code = RESPONSE, req_data = None, req_message_id = 0\<rparr>"

text \<open>
  \<open>*std::dynamic_pointer_cast<T>(request.request)\<close>: a null pointer, or one to another
  payload class, casts to null, and dereferencing that is undefined.
\<close>

definition deref :: "'a option \<Rightarrow> 'a result" where
  "deref p = (case p of Some x \<Rightarrow> Inr x | None \<Rightarrow> Inl Undefined_behaviour)"

fun cast_response :: "request_data option \<Rightarrow> status_code option" where
  "cast_response (Some (ResponseData s)) = Some s"
| "cast_response _ = None"

fun cast_supported_versions :: "request_data option \<Rightarrow> version list option" where
  "cast_supported_versions (Some (SupportedVersionsData vs)) = Some vs"
| "cast_supported_versions _ = None"

fun cast_selected_version :: "request_data option \<Rightarrow> version option" where
  "cast_selected_version (Some (SelectedVersionData v)) = Some v"
| "cast_selected_version _ = None"

fun cast_send_file :: "request_data option \<Rightarrow> send_file_data option" where
  "cast_send_file (Some (SendFileData d)) = Some d"
| "cast_send_file _ = None"

fun cast_receive_file :: "request_data option \<Rightarrow> receive_file_data option" where
  "cast_receive_file (Some (ReceiveFileData d)) = Some d"
| "cast_receive_file _ = None"

fun cast_list_files :: "request_data option \<Rightarrow> bytes option" where
  "cast_list_files (Some (ListFilesData d)) = Some d"
| "cast_list_files _ = None"

fun cast_file_list :: "request_data option \<Rightarrow> file_list_data option" where
  "cast_file_list (Some (FileListData d)) = Some d"
| "cast_file_list _ = None"

fun cast_data_packet :: "request_data option \<Rightarrow> data_packet_data option" where
  "cast_data_packet (Some (DataPacketData d)) = Some d"
| "cast_data_packet _ = None"

fun cast_ping :: "request_data option \<Rightarrow> unit option" where
  "cast_ping (Some PingData) = Some ()"
| "cast_ping _ = None"

lemma deref_simps [simp, try_simps]: "deref (Some x) = Inr x" "deref None = Inl Undefined_behaviour"
  by (simp_all add: deref_def)

section \<open>Casting enumerations to bytes and back\<close>

lemma command_byte_of_byte [simp]: "command_byte (command_of_byte b) = b"
  by (simp add: command_of_byte_def named_val)

lemma command_of_byte_byte: "c \<in> set command_enum \<Longrightarrow> command_of_byte (command_byte c) = c"
  unfolding command_of_byte_def
  by (rule named_inverse) (simp_all add: command_enum_def inj_on_def)

lemma command_of_byte_eval [simp]:
  "command_of_byte 0 = RESPONSE" "command_of_byte 0x01 = SUPPORTED_VERSIONS"
  "command_of_byte 0x02 = SELECTED_VERSION" "command_of_byte 0x10 = SEND_FILE"
  "command_of_byte 0x11 = RECEIVE_FILE" "command_of_byte 0x20 = LIST_FILES"
  "command_of_byte 0x21 = FILE_LIST" "command_of_byte 0x30 = PING"
  "command_of_byte 0x42 = DATA_PACKET" "command_of_byte 0x50 = PAIR_REQUEST"
  "command_of_byte 0x51 = ACCEPT_PAIR_REQUEST"
  by (simp_all add: command_of_byte_def named_def command_enum_def)

lemma ucast_scast_byte: "ucast (scast (c :: byte) :: u32) = c"
  by (rule bit_word_eqI) (auto simp: bit_simps)

lemma status_char_id [simp]: "status_to_char (status_of_char c) = c"
  by (simp add: status_to_char_def status_of_char_def status_of_value_def named_val ucast_scast_byte)

lemma status_of_char_char: "s \<in> set status_enum \<Longrightarrow> status_of_char (status_to_char s) = s"
proof -
  assume s: "s \<in> set status_enum"
  then have "(scast (status_to_char s) :: u32) = status_value s"
    by (auto simp: status_enum_def status_to_char_def)
  moreover have "inj_on status_value (set status_enum)"
    by (simp add: status_enum_def inj_on_def)
  ultimately show ?thesis
    using s by (simp add: status_of_char_def status_of_value_def named_inverse)
qed

lemma file_type_char_id [simp]: "file_type_to_char (file_type_of_char c) = c"
  by (simp add: file_type_to_char_def file_type_of_char_def named_val ucast_scast_byte)

lemma file_type_of_char_char: "t = FILE \<or> t = DIRECTORY \<Longrightarrow> file_type_of_char (file_type_to_char t) = t"
  by (auto simp: file_type_of_char_def file_type_to_char_def named_def)

lemma hash_char_id [simp]: "hash_to_char (hash_of_char c) = c"
  by (simp add: hash_to_char_def hash_of_char_def named_val ucast_scast_byte)

lemma hash_of_char_char: "algo_hash_size a = Inr n \<Longrightarrow> hash_of_char (hash_to_char a) = a"
  by (cases a) (auto simp: hash_of_char_def hash_to_char_def named_def)

lemma algo_hash_size_le: "algo_hash_size a = Inr n \<Longrightarrow> unat n \<le> 64"
  by (cases a) auto

section \<open>The name tables are inverse\<close>

lemma str_command_roundtrip:
  "str_to_command (command_to_str c) =
     (if c \<in> {SUPPORTED_VERSIONS, SELECTED_VERSION} \<or> (\<exists>b. c = UNNAMED_COMMAND b)
      then Inl (Runtime_error ''Unknown command'') else Inr c)"
  by (cases c) (simp_all add: str_to_command_def lookup_name_def)

lemma str_status_roundtrip:
  "str_to_status (status_to_str s) =
     (if s = UNAUTHORIZED \<or> (\<exists>v. s = UNNAMED_STATUS v)
      then Inl (Runtime_error ''Unknown status'') else Inr s)"
  by (cases s) (simp_all add: str_to_status_def lookup_name_def)

lemma str_file_type_roundtrip:
  "str_to_file_type (file_type_to_str t) =
     (if \<exists>v. t = UNNAMED_FILE_TYPE v then Inl (Runtime_error ''Unknown FileType'') else Inr t)"
  by (cases t) (simp_all add: str_to_file_type_def lookup_name_def)

section \<open>The order on versions\<close>

definition compare_nat :: "nat \<Rightarrow> nat \<Rightarrow> ordering" where
  "compare_nat m n = (if m < n then Less else if n < m then Greater else Equal)"

lemma byte_field:
  fixes n :: u32
  assumes "k \<le> 16"
  shows "ucast (drop_bit k (n AND push_bit k (mask 8))) = (of_nat (unat n div 2 ^ k mod 256) :: byte)"
proof -
  have "drop_bit k (n AND push_bit k (mask 8)) = take_bit 8 (drop_bit k n)"
    using assms by (auto intro: bit_word_eqI simp: bit_simps)
  moreover have "unat (take_bit 8 (drop_bit k n)) = unat n div 2 ^ k mod 256"
    by (simp only: unsigned_take_bit_eq unsigned_drop_bit_eq) (simp add: take_bit_eq_mod drop_bit_eq_div unsigned_less [of n, simplified])
  ultimately show ?thesis
    by (metis of_nat_unat)
qed

lemma parts_list_mk:
  "parts_list (mk_version n) =
     [of_nat (unat n div 65536 mod 256), of_nat (unat n div 256 mod 256), of_nat (unat n mod 256)]"
  using byte_field [of 16 n] byte_field [of 8 n] byte_field [of 0 n]
  by (simp add: parts_list_def mk_version_def mask_eq_exp_minus_1 push_bit_eq_mult)

lemma compare_parts_digits:
  assumes "a < 256" "b < 256" "c < 256" "a' < 256" "b' < 256" "c' < (256::nat)"
  shows "compare_parts [of_nat a, of_nat b, of_nat c] [of_nat a', of_nat b', of_nat c'] =
    compare_nat (65536 * a + 256 * b + c) (65536 * a' + 256 * b' + c')"
proof -
  have lt: "(of_nat x :: byte) < of_nat y \<longleftrightarrow> x < y" if "x < 256" "y < 256" for x y
    using that by (simp add: word_less_nat_alt unat_of_nat)
  show ?thesis using assms by (auto simp: lt compare_nat_def)
qed

lemma low24_split:
  "m mod 16777216 = 65536 * (m div 65536 mod 256) + 256 * (m div 256 mod 256) + m mod 256" for m :: nat
proof -
  have "m mod (256 * 65536) = 256 * (m div 256 mod 65536) + m mod 256" by (rule mod_mult2_eq)
  moreover have "m div 256 mod (256 * 256) = 256 * (m div 256 div 256 mod 256) + m div 256 mod 256"
    by (rule mod_mult2_eq)
  ultimately show ?thesis by (simp add: div_mult2_eq [symmetric])
qed

lemma version_compare_low24:
  "version_compare (mk_version n) (mk_version m) =
     compare_nat (unat n mod 16777216) (unat m mod 16777216)"
  unfolding version_compare_def parts_list_mk
  by (subst compare_parts_digits) (simp_all add: low24_split [of "unat n"] low24_split [of "unat m"])

lemma compare_nat_Equal: "compare_nat m n = Equal \<longleftrightarrow> m = n"
  by (simp add: compare_nat_def)

lemma version_compare_mk_less:
  "unat n < 2 ^ 24 \<Longrightarrow> unat m < 2 ^ 24 \<Longrightarrow>
     version_compare (mk_version n) (mk_version m) = compare_nat (unat n) (unat m)"
  by (simp add: version_compare_low24)

lemma version_eq_mk [simp]: "version_eq (mk_version n) (mk_version m) \<longleftrightarrow> n = m"
  by (simp add: version_eq_def mk_version_def)

lemma v_number_mk [simp]: "v_number (mk_version n) = n"
  by (simp add: mk_version_def)

section \<open>Properties\<close>

text \<open>\<open>str_to_status\<close> undoes \<open>status_to_str\<close> on every named status but
  \<open>UNAUTHORIZED\<close>, whose name it does not know.\<close>

theorem status_names_inverse:
  "s \<in> set status_enum \<Longrightarrow>
     str_to_status (status_to_str s) = (if s = UNAUTHORIZED then Inl (Runtime_error ''Unknown status'') else Inr s)"
  by (auto simp: str_status_roundtrip status_enum_def)

theorem status_names_inverse_witness:
  "str_to_status ''FORBIDDEN'' = Inr FORBIDDEN \<and> str_to_status ''UNAUTHORIZED'' = Inl (Runtime_error ''Unknown status'')"
  using status_names_inverse [of FORBIDDEN] status_names_inverse [of UNAUTHORIZED] by (simp add: status_enum_def)

text \<open>The three-way comparison of versions is the numeric order of the low 24 bits, while
  equality looks at all 32: two versions that differ in the top byte only are unequal and
  compare as equal.\<close>

theorem version_order:
  "version_compare (mk_version n) (mk_version m) = compare_nat (unat n mod 2 ^ 24) (unat m mod 2 ^ 24) \<and>
   (version_eq (mk_version n) (mk_version m) \<longleftrightarrow> n = m)"
  by (simp add: version_compare_low24)

end
