(* ===== verification/Framing.thy ===== *)
theory Framing
  imports Protocol_Defs
begin

text \<open>
  The contract between the message parsers and the code that feeds them a byte stream: a
  parser answers with the length of the first message and its contents, or with 0 while the
  message is incomplete. What a stream reader relies on is that the length stays inside the
  input, that an incomplete message leaves the output object alone, and that more bytes
  behind a complete message change nothing.
\<close>

section \<open>Cutting a stream into messages\<close>

text \<open>
  The messages at the front of a byte string and what is left of it: the specification of
  the loop of \<open>PeerBase::poll_requests\<close>, with nothing done to the messages.
\<close>

function drain :: "(bytes \<Rightarrow> request \<Rightarrow> (u64 \<times> request) result) \<Rightarrow> bytes \<Rightarrow> request \<Rightarrow>
    (request list \<times> bytes) result" where
  "drain parse s out =
     (case parse s out of
        Inl e \<Rightarrow> Inl e
      | Inr (n, r) \<Rightarrow>
          if n = 0 then Inr ([], s)
          else if sv_size s < n then Inl Out_of_range
          else try_then (drain parse (drop (unat n) s) r) (\<lambda>(rs, rest). Inr (r # rs, rest)))"
  by pat_completeness auto

lemma shorter_view:
  assumes "n \<noteq> 0" "\<not> sv_size s < n"
  shows "length (drop (unat n) s) < length s"
proof -
  have "0 < unat n" using assms(1) by (simp add: unat_gt_0)
  moreover have "s \<noteq> []"
    using assms by (auto simp: sv_size_def word_less_nat_alt unat_gt_0)
  ultimately show ?thesis by simp
qed

termination drain
  by (relation "measure (\<lambda>(parse, s, out). length s)") (simp_all add: shorter_view del: length_drop)

declare drain.simps [simp del]

section \<open>Frame parsers\<close>

locale frame_parser =
  fixes parse :: "bytes \<Rightarrow> request \<Rightarrow> (u64 \<times> request) result"
  assumes parse_bound: "addressable s \<Longrightarrow> parse s out = Inr (n, r) \<Longrightarrow> unat n \<le> length s"
    and parse_pending: "addressable s \<Longrightarrow> parse s out = Inr (0, r) \<Longrightarrow> r = out \<and> (\<forall>out'. parse s out' = Inr (0, out'))"
    and parse_stable: "addressable (s @ t) \<Longrightarrow> parse s out = Inr (n, r) \<Longrightarrow> n \<noteq> 0 \<Longrightarrow>
      parse (s @ t) out' = Inr (n, r)"
begin

lemma parse_in_range: "addressable s \<Longrightarrow> parse s out = Inr (n, r) \<Longrightarrow> \<not> sv_size s < n"
  using parse_bound [of s out n r] by (simp add: sv_size_less_iff)

lemma drain_step:
  assumes "addressable s" "parse s out = Inr (n, r)" "n \<noteq> 0"
  shows "drain parse s out = try_then (drain parse (drop (unat n) s) r) (\<lambda>(rs, rest). Inr (r # rs, rest))"
  using assms by (subst drain.simps) (simp add: parse_in_range)

lemma drain_pending:
  "addressable s \<Longrightarrow> parse s out = Inr (0, r) \<Longrightarrow> drain parse s out = Inr ([], s)"
  by (subst drain.simps) simp

lemma drain_cases:
  assumes "addressable s" "drain parse s out = Inr (rs, rest)"
  obtains (pending) "parse s out = Inr (0, out)" "rs = []" "rest = s"
    | (message) n r rs' where "parse s out = Inr (n, r)" "n \<noteq> 0" "rs = r # rs'"
        "drain parse (drop (unat n) s) r = Inr (rs', rest)" "length (drop (unat n) s) < length s"
proof -
  from assms(2) obtain n r where p: "parse s out = Inr (n, r)"
    by (subst (asm) drain.simps) (auto split: sum.splits)
  show ?thesis
  proof (cases "n = 0")
    case True
    with p assms parse_pending [of s out r] show ?thesis
      by (intro pending) (auto simp: drain_pending)
  next
    case False
    with p assms show ?thesis
      by (intro message [of n r "tl rs"])
        (auto simp: drain_step try_then_eq_Inr shorter_view parse_in_range simp del: length_drop)
  qed
qed

text \<open>A drain that ends leaves an incomplete message and a suffix of the input.\<close>

lemma drain_suffix:
  "addressable s \<Longrightarrow> drain parse s out = Inr (rs, rest) \<Longrightarrow>
     (\<exists>used. s = used @ rest) \<and> (\<forall>out'. parse rest out' = Inr (0, out'))"
proof (induction "length s" arbitrary: s out rs rule: less_induct)
  case less
  from less.prems show ?case
  proof (cases rule: drain_cases)
    case pending
    then show ?thesis using parse_pending [of s out out] less.prems(1) by auto
  next
    case (message n r rs')
    from less.hyps [OF message(5) addressable_drop [OF less.prems(1)] message(4)]
    obtain used where "drop (unat n) s = used @ rest" "\<forall>out'. parse rest out' = Inr (0, out')" by auto
    then show ?thesis by (metis append_assoc append_take_drop_id)
  qed
qed

text \<open>
  How the stream is cut into reads does not matter: what is left after one read, followed by
  the next, gives the messages the whole stream gives. (The first read must not make the
  parser throw.)
\<close>

lemma drain_append:
  "addressable (s @ t) \<Longrightarrow> drain parse s out = Inr (rs, rest) \<Longrightarrow>
     drain parse (rest @ t) (last (out # rs)) = Inr (rs', rest') \<Longrightarrow>
     drain parse (s @ t) out = Inr (rs @ rs', rest')"
proof (induction "length s" arbitrary: s out rs rule: less_induct)
  case less
  have s: "addressable s" using less.prems(1) by (rule addressable_append [THEN conjunct1])
  from s less.prems(2) show ?case
  proof (cases rule: drain_cases)
    case pending
    with less.prems(3) show ?thesis by simp
  next
    case (message n r rs1)
    have le: "unat n \<le> length s" using parse_bound [OF s message(1)] .
    have "addressable (drop (unat n) s @ t)"
      using less.prems(1) by (simp add: addressable_def)
    moreover have "drain parse (rest @ t) (last (r # rs1)) = Inr (rs', rest')"
      using less.prems(3) message(3) by simp
    ultimately have "drain parse (drop (unat n) s @ t) r = Inr (rs1 @ rs', rest')"
      using less.hyps [OF message(5)] message(4) by blast
    moreover have "drop (unat n) (s @ t) = drop (unat n) s @ t" using le by simp
    ultimately show ?thesis
      using drain_step [OF less.prems(1) parse_stable [OF less.prems(1) message(1,2)] message(2)]
        message(3) by simp
  qed
qed

end

end
