(* ===== verification/Handshake_Format.thy ===== *)
theory Handshake_Format
  imports Framing
begin

unbundle bit_operations_syntax

text \<open>
  \<open>source/Protocol/Handler/IProtocolHandler.cpp\<close>: the two messages of the version
  negotiation, common to all protocol versions, and the \<open>Protocol\<close> class of
  \<open>source/Protocol/Protocol.cpp\<close> that picks the handler for a version.
\<close>

section \<open>Messages\<close>

definition magic_bytes :: bytes where
  "magic_bytes = [0x46, 0x53, 0x50, 0x5F]"

definition static_bytes :: nat where
  "static_bytes = 6"

definition version_count :: byte where
  "version_count = of_nat (length version_names)"

text \<open>The three bytes of a version number, most significant first.\<close>

definition version_bytes :: "u32 \<Rightarrow> bytes" where
  "version_bytes n =
     [ucast (drop_bit 16 (n AND 0xFF0000)), ucast (drop_bit 8 (n AND 0xFF00)), ucast (n AND 0xFF)]"

definition client_version_payload :: bytes where
  "client_version_payload =
     magic_bytes @ [command_byte SUPPORTED_VERSIONS, version_count] @
     concat (map (version_bytes \<circ> fst) version_names)"

definition format_client_version_list :: bytes where
  "format_client_version_list = client_version_payload"

definition format_server_selected_version :: "version \<Rightarrow> bytes" where
  "format_server_selected_version v =
     magic_bytes @ [command_byte SELECTED_VERSION] @ version_bytes (v_number v)"

text \<open>
  Reading a version: the first two bytes go through \<open>static_cast<std::uint8_t>\<close>, the third
  is a plain \<open>char\<close> and is sign-extended by the addition.
\<close>

definition version_at :: "bytes \<Rightarrow> u64 \<Rightarrow> version result" where
  "version_at s off =
     try_then (sv_at s off) (\<lambda>a.
     try_then (sv_at s (off + 1)) (\<lambda>b.
     try_then (sv_at s (off + 2)) (\<lambda>c.
       Inr (mk_version (push_bit 16 (ucast a) + push_bit 8 (ucast b) + scast c)))))"

fun version_loop :: "bytes \<Rightarrow> nat \<Rightarrow> nat \<Rightarrow> version list result" where
  "version_loop s i 0 = Inr []"
| "version_loop s i (Suc k) =
     try_then (version_at s (of_nat (i * 3))) (\<lambda>v.
     try_then (version_loop s (Suc i) k) (\<lambda>vs. Inr (v # vs)))"

text \<open>
  The parsers return the number of bytes they used, 0 when the message is incomplete, and
  write \<open>out\<close> only when they return a positive number.
\<close>

definition parse_client_version :: "bytes \<Rightarrow> request \<Rightarrow> (u64 \<times> request) result" where
  "parse_client_version raw_msg out =
     (if sv_size raw_msg < of_nat static_bytes then Inr (0, out)
      else
        try_then (throw_if (\<not> starts_with raw_msg (take 5 client_version_payload))
          (Runtime_error ''Invalid Client Version message'')) (\<lambda>_.
        try_then (sv_at raw_msg 5) (\<lambda>nb_versions.
          if sv_size raw_msg < of_nat (static_bytes + unat nb_versions * 3) then Inr (0, out)
          else
            try_then (sv_substr raw_msg (of_nat static_bytes) npos) (\<lambda>versions_str.
            try_then (version_loop versions_str 0 (unat nb_versions)) (\<lambda>versions.
            try_then (sv_at raw_msg 4) (\<lambda>code.
              Inr (of_nat (static_bytes + unat nb_versions * 3),
                   \<lparr>req_code = command_of_byte code,
                    req_data = Some (SupportedVersionsData versions),
                    req_message_id = 0\<rparr>)))))))"

definition parse_server_version :: "bytes \<Rightarrow> request \<Rightarrow> (u64 \<times> request) result" where
  "parse_server_version raw_msg out =
     (if sv_size raw_msg < 8 then Inr (0, out)
      else
        try_then (sv_at raw_msg 4) (\<lambda>code.
        try_then (throw_if (\<not> starts_with raw_msg magic_bytes \<or> code \<noteq> command_byte SELECTED_VERSION)
          (Runtime_error ''Invalid Server Version message'')) (\<lambda>_.
        try_then (version_at raw_msg 5) (\<lambda>version.
          Inr (8, \<lparr>req_code = command_of_byte code,
                   req_data = Some (SelectedVersionData version),
                   req_message_id = 0\<rparr>)))))"

section \<open>The protocol object\<close>

text \<open>
  \<open>PROTOCOL_LIST\<close> is a \<open>std::map\<close> ordered by \<open>Version::operator<=>\<close>, which looks at
  the three byte array only. There is one handler.
\<close>

datatype handler = Handler_v0_0_0

record protocol =
  p_version :: version
  p_handler :: "handler option"

definition protocol_list :: "(version \<times> handler) list" where
  "protocol_list = [(mk_version 0x000000, Handler_v0_0_0)]"

definition set_version :: "version \<Rightarrow> protocol \<Rightarrow> protocol result" where
  "set_version version p =
     (case List.find (\<lambda>(v, _). version_compare v version = Equal) protocol_list of
        None \<Rightarrow> Inl (Runtime_error ''Unsuported protocol version'')
      | Some (_, h) \<Rightarrow> Inr (p\<lparr>p_handler := Some h\<rparr>))"

definition mk_protocol :: "version \<Rightarrow> protocol result" where
  "mk_protocol version = set_version version \<lparr>p_version = version, p_handler = None\<rparr>"

section \<open>Laws\<close>

lemma length_version_bytes [simp]: "length (version_bytes n) = 3"
  by (simp add: version_bytes_def)

lemma length_magic [simp]: "length magic_bytes = 4"
  by (simp add: magic_bytes_def)

lemma client_version_payload_eval:
  "client_version_payload = [0x46, 0x53, 0x50, 0x5F, 0x01, 0x01, 0, 0, 0]"
  by (simp add: client_version_payload_def magic_bytes_def version_count_def version_names_def
      version_bytes_def)

lemma version_bytes_fields:
  "version_bytes n =
     [of_nat (unat n div 65536 mod 256), of_nat (unat n div 256 mod 256), of_nat (unat n mod 256)]"
  using byte_field [of 16 n] byte_field [of 8 n] byte_field [of 0 n]
  by (simp add: version_bytes_def mask_eq_exp_minus_1 push_bit_eq_mult)

lemma bit_low_byte: "bit (of_nat (unat n mod 256) :: byte) 7 \<longleftrightarrow> bit (n :: u32) 7"
proof -
  have "(of_nat (unat n mod 256) :: byte) = ucast n"
    by (simp add: word_unat_eq_iff unat_of_nat unsigned_ucast_eq take_bit_eq_mod unat_mod)
  then show ?thesis by (simp add: bit_simps)
qed

text \<open>What the reader makes of the three bytes of \<open>n\<close>.\<close>

definition wire_version :: "u32 \<Rightarrow> u32" where
  "wire_version n = take_bit 24 n - (if bit n 7 then 256 else 0)"

lemma version_at_bytes:
  assumes "addressable (pre @ version_bytes n @ post)" "unat off = length pre"
  shows "version_at (pre @ version_bytes n @ post) off = Inr (mk_version (wire_version n))"
proof -
  let ?s = "pre @ version_bytes n @ post"
  have len: "length pre + 3 \<le> length ?s" by simp
  then have "length pre + 3 < 2 ^ 63" using assms(1) by (simp add: addressable_def)
  then have off: "unat (off + 1) = length pre + 1" "unat (off + 2) = length pre + 2"
    using assms(2) by (simp_all add: unat_word_ariths)
  have at: "sv_at ?s (off) = Inr (version_bytes n ! 0)"
     "sv_at ?s (off + 1) = Inr (version_bytes n ! 1)"
     "sv_at ?s (off + 2) = Inr (version_bytes n ! 2)"
    using assms off len by (simp_all add: sv_at_nth nth_append)
  have "push_bit 16 (ucast (version_bytes n ! 0)) + push_bit 8 (ucast (version_bytes n ! 1)) + ucast (version_bytes n ! 2)
     = (of_nat (65536 * (unat n div 65536 mod 256) + 256 * (unat n div 256 mod 256) + unat n mod 256) :: u32)"
    by (simp add: version_bytes_fields push_bit_eq_mult ucast_of_nat_byte)
  also have "\<dots> = take_bit 24 n"
    unfolding low24_split [symmetric]
    by (simp add: word_unat_eq_iff unat_of_nat take_bit_eq_mod unat_mod)
  finally show ?thesis
    by (simp add: version_at_def at) (simp add: scast_byte version_bytes_fields bit_low_byte wire_version_def algebra_simps)
qed

lemma wire_version_small: "unat n < 2 ^ 24 \<Longrightarrow> \<not> bit n 7 \<Longrightarrow> wire_version n = n"
  by (simp add: wire_version_def word_unat_eq_iff take_bit_eq_mod unat_mod)

section \<open>The two parsers\<close>

lemma server_version_parse_format:
  assumes "addressable (format_server_selected_version (mk_version n) @ rest)"
  shows "parse_server_version (format_server_selected_version (mk_version n) @ rest) out =
    Inr (8, \<lparr>req_code = SELECTED_VERSION,
             req_data = Some (SelectedVersionData (mk_version (wire_version n))),
             req_message_id = 0\<rparr>)"
proof -
  let ?pre = "magic_bytes @ [command_byte SELECTED_VERSION]"
  let ?s = "?pre @ version_bytes n @ rest"
  have s: "format_server_selected_version (mk_version n) @ rest = ?s"
    by (simp add: format_server_selected_version_def)
  have a: "addressable ?s" using assms s by simp
  have "version_at ?s 5 = Inr (mk_version (wire_version n))"
    by (rule version_at_bytes [OF a]) simp
  moreover have "sv_at ?s 4 = Inr (command_byte SELECTED_VERSION)"
    using sv_at_append [of ?pre "version_bytes n @ rest" 4] a by (simp add: nth_append)
  moreover have "\<not> sv_size ?s < 8"
    using a by (simp add: sv_size_less_iff)
  moreover have "starts_with ?s magic_bytes" by (simp add: starts_with_iff)
  ultimately show ?thesis
    unfolding parse_server_version_def s
    by (simp add:)
qed

lemma client_version_parse_format:
  assumes "addressable (format_client_version_list @ rest)"
  shows "parse_client_version (format_client_version_list @ rest) out =
    Inr (9, \<lparr>req_code = SUPPORTED_VERSIONS,
             req_data = Some (SupportedVersionsData [mk_version 0]), req_message_id = 0\<rparr>)"
proof -
  let ?s = "format_client_version_list @ rest"
  have e: "?s = [0x46, 0x53, 0x50, 0x5F, 0x01, 0x01, 0, 0, 0] @ rest"
    by (simp add: format_client_version_list_def client_version_payload_eval)
  have s6: "sv_substr ?s 6 npos = Inr ([0, 0, 0] @ rest)"
    using sv_substr_append(1) [of "[0x46, 0x53, 0x50, 0x5F, 0x01, 0x01]" "[0, 0, 0] @ rest" 6] assms
    by (simp add: e)
  have "addressable ([] @ version_bytes 0 @ rest)"
    using assms by (simp add: addressable_def format_client_version_list_def client_version_payload_eval)
  from version_at_bytes [OF this, of 0]
  have v: "version_at (0 # 0 # 0 # rest) 0 = Inr (mk_version 0)"
    by (simp add: version_bytes_def wire_version_def)
  have sz: "\<not> sv_size ?s < 6" "\<not> sv_size ?s < 9"
    using assms by (simp_all add: sv_size_less_iff e)
  have at: "sv_at ?s 5 = Inr 1" "sv_at ?s 4 = Inr 1"
    using assms by (simp_all add: sv_at_nth e)
  have st: "starts_with ?s (take 5 client_version_payload)"
    by (simp add: e client_version_payload_eval starts_with_def)
  show ?thesis
    using sz at s6 v st
    by (simp add: parse_client_version_def static_bytes_def)
qed

lemma version_at_no_UB:
  assumes "addressable s" "unat off + 3 \<le> length s"
  shows "\<exists>v. version_at s off = Inr v"
proof -
  have "unat off + 3 < 2 ^ 63" using assms by (simp add: addressable_def)
  then have "unat (off + 1) = unat off + 1" "unat (off + 2) = unat off + 2"
    by (simp_all add: unat_word_ariths)
  with assms show ?thesis by (simp add: version_at_def sv_at_nth)
qed

lemma version_loop_no_UB:
  assumes "addressable s" "(i + k) * 3 \<le> length s"
  shows "\<exists>vs. version_loop s i k = Inr vs \<and> length vs = k"
  using assms(2)
proof (induction k arbitrary: i)
  case (Suc k)
  have "unat (of_nat (i * 3) :: u64) = i * 3"
    using assms(1) Suc.prems by (simp add: addressable_def unat_of_nat take_bit_nat_eq_self del: of_nat_mult)
  then obtain v where v: "version_at s (of_nat (i * 3)) = Inr v"
    using version_at_no_UB [OF assms(1), of "of_nat (i * 3)"] Suc.prems by auto
  from Suc.IH [of "Suc i"] Suc.prems obtain vs where "version_loop s (Suc i) k = Inr vs" "length vs = k"
    by auto
  with v show ?case by simp
qed simp


lemma client_version_total:
  assumes a: "addressable raw"
  shows "parse_client_version raw out =
     (if length raw < 6 then Inr (0, out)
      else if \<not> starts_with raw (take 5 client_version_payload)
      then Inl (Runtime_error ''Invalid Client Version message'')
      else if length raw < 6 + unat (raw ! 5) * 3 then Inr (0, out)
      else Inr (of_nat (6 + unat (raw ! 5) * 3),
        \<lparr>req_code = SUPPORTED_VERSIONS,
         req_data = Some (SupportedVersionsData
           (projr (version_loop (drop 6 raw) 0 (unat (raw ! 5))))),
         req_message_id = 0\<rparr>))"
proof (cases "length raw < 6")
  case True
  then show ?thesis using a by (simp add: parse_client_version_def static_bytes_def sv_size_less_iff)
next
  case False
  let ?nb = "raw ! 5"
  have nb: "unat ?nb < 256" using unsigned_less [of ?nb] by simp
  then have tot: "unat (of_nat (6 + unat ?nb * 3) :: u64) = 6 + unat ?nb * 3"
    by (simp add: unat_of_nat take_bit_nat_eq_self del: of_nat_add of_nat_mult)
  have at: "sv_at raw 5 = Inr ?nb" "sv_at raw 4 = Inr (raw ! 4)"
    using a False by (simp_all add: sv_at_nth)
  have cut: "sv_substr raw 6 npos = Inr (drop 6 raw)"
    using sv_substr_append(1) [of "take 6 raw" "drop 6 raw" 6] a False by simp
  have code: "command_of_byte (raw ! 4) = SUPPORTED_VERSIONS"
    if "starts_with raw (take 5 client_version_payload)"
  proof -
    from that obtain t where "raw = take 5 client_version_payload @ t" by (auto simp: starts_with_iff)
    then have "raw ! 4 = command_byte SUPPORTED_VERSIONS"
      by (simp add: client_version_payload_eval)
    then show ?thesis by simp
  qed
  have loop: "\<exists>vs. version_loop (drop 6 raw) 0 (unat ?nb) = Inr vs"
    if "\<not> length raw < 6 + unat ?nb * 3"
  proof -
    have "(0 + unat ?nb) * 3 \<le> length (drop 6 raw)" using that by simp
    from version_loop_no_UB [OF addressable_drop [OF a] this] show ?thesis by blast
  qed
  show ?thesis
    using a False at cut code loop tot
    by (auto simp: parse_client_version_def static_bytes_def sv_size_less_iff)
qed

section \<open>More input\<close>

lemma sv_at_stable: "addressable (s @ t) \<Longrightarrow> sv_at s i = Inr b \<Longrightarrow> sv_at (s @ t) i = Inr b"
proof -
  assume a: "addressable (s @ t)" and b: "sv_at s i = Inr b"
  have "addressable s" using a by (simp add: addressable_def)
  with b have "unat i < length s" "b = s ! unat i"
    by (auto simp: sv_at_def word_less_nat_alt unat_sv_size split: if_splits)
  then show ?thesis using a by (simp add: sv_at_append)
qed

lemma version_at_stable:
  "addressable (s @ t) \<Longrightarrow> version_at s off = Inr v \<Longrightarrow> version_at (s @ t) off = Inr v"
  by (auto simp: version_at_def try_then_eq_Inr intro!: sv_at_stable)

lemma version_loop_stable:
  "addressable (s @ t) \<Longrightarrow> version_loop s i k = Inr vs \<Longrightarrow> version_loop (s @ t) i k = Inr vs"
  by (induction k arbitrary: i vs) (auto simp: try_then_eq_Inr version_at_stable)

lemma starts_with_stable: "length p \<le> length s \<Longrightarrow> starts_with (s @ t) p = starts_with s p"
  by (simp add: starts_with_def)

lemma server_version_total:
  assumes a: "addressable raw"
  shows "parse_server_version raw out =
    (if length raw < 8 then Inr (0, out)
     else if starts_with raw (magic_bytes @ [command_byte SELECTED_VERSION])
     then Inr (8, \<lparr>req_code = SELECTED_VERSION,
       req_data = Some (SelectedVersionData (projr (version_at raw 5))), req_message_id = 0\<rparr>)
     else Inl (Runtime_error ''Invalid Server Version message''))"
proof (cases "length raw < 8")
  case True
  then show ?thesis using a by (simp add: parse_server_version_def sv_size_less_iff)
next
  case False
  then have at: "sv_at raw 4 = Inr (raw ! 4)" using a by (simp add: sv_at_nth)
  obtain v where v: "version_at raw 5 = Inr v"
    using version_at_no_UB [OF a, of 5] False by auto
  have "take 5 raw = take 4 raw @ [raw ! 4]"
    using take_Suc_conv_app_nth [of 4 raw] False by simp
  then have "starts_with raw (magic_bytes @ [command_byte SELECTED_VERSION]) \<longleftrightarrow>
      starts_with raw magic_bytes \<and> raw ! 4 = command_byte SELECTED_VERSION"
    by (auto simp: starts_with_def)
  then show ?thesis using a False at v
    by (auto simp: parse_server_version_def sv_size_less_iff)
qed

section \<open>Both are frame parsers\<close>

interpretation server_frames: frame_parser parse_server_version
proof
  fix s t :: bytes and out out' r :: request and n :: u64
  show "unat n \<le> length s" if "addressable s" "parse_server_version s out = Inr (n, r)"
    using that by (auto simp: server_version_total split: if_splits)
  show "r = out \<and> (\<forall>out'. parse_server_version s out' = Inr (0, out'))"
    if "addressable s" "parse_server_version s out = Inr (0, r)"
    using that by (auto simp: server_version_total split: if_splits)
  assume a: "addressable (s @ t)" and p: "parse_server_version s out = Inr (n, r)" "n \<noteq> 0"
  have s: "addressable s" using a by (simp add: addressable_def)
  with p have l: "\<not> length s < 8" by (auto simp: server_version_total split: if_splits)
  obtain v where v: "version_at s 5 = Inr v" using version_at_no_UB [OF s, of 5] l by auto
  from version_at_stable [OF a v] v
  show "parse_server_version (s @ t) out' = Inr (n, r)"
    using a s p l starts_with_stable [of "magic_bytes @ [command_byte SELECTED_VERSION]" s t]
    by (simp add: server_version_total split: if_splits)
qed

interpretation client_frames: frame_parser parse_client_version
proof
  fix s t :: bytes and out out' r :: request and n :: u64
  have size: "unat (of_nat (6 + unat (b :: byte) * 3) :: u64) = 6 + unat b * 3" for b
  proof -
    have "unat b < 256" by (rule unat_byte_less)
    then have "6 + unat b * 3 < 2 ^ 64" by simp
    then show ?thesis by (simp add: unat_of_nat take_bit_nat_eq_self del: of_nat_add of_nat_mult)
  qed
  then have pos: "(of_nat (6 + unat (b :: byte) * 3) :: u64) \<noteq> 0" for b
    by (metis add_is_0 unat_0 zero_neq_numeral)
  show "unat n \<le> length s" if "addressable s" "parse_client_version s out = Inr (n, r)"
    using that size by (auto simp: client_version_total split: if_splits simp del: of_nat_add of_nat_mult)
  show "r = out \<and> (\<forall>out'. parse_client_version s out' = Inr (0, out'))"
    if "addressable s" "parse_client_version s out = Inr (0, r)"
    using that pos by (auto simp: client_version_total split: if_splits simp del: of_nat_add of_nat_mult)
  assume a: "addressable (s @ t)" and p: "parse_client_version s out = Inr (n, r)" "n \<noteq> 0"
  have s: "addressable s" using a by (simp add: addressable_def)
  with p have l: "\<not> length s < 6" "\<not> length s < 6 + unat (s ! 5) * 3"
    by (auto simp: client_version_total split: if_splits)
  have "(0 + unat (s ! 5)) * 3 \<le> length (drop 6 s)" using l by simp
  from version_loop_no_UB [OF addressable_drop [OF s] this] obtain vs
    where vs: "version_loop (drop 6 s) 0 (unat (s ! 5)) = Inr vs" by blast
  have "addressable (drop 6 s @ t)" using a by (simp add: addressable_def)
  from version_loop_stable [OF this vs] have "version_loop (drop 6 (s @ t)) 0 (unat ((s @ t) ! 5)) = Inr vs"
    using l by (simp add: nth_append)
  moreover have "starts_with (s @ t) (take 5 client_version_payload) = starts_with s (take 5 client_version_payload)"
    using l by (intro starts_with_stable) simp
  moreover have "(s @ t) ! 5 = s ! 5" using l by (simp add: nth_append)
  ultimately show "parse_client_version (s @ t) out' = Inr (n, r)"
    using a s p l vs by (simp add: client_version_total split: if_splits)
qed

section \<open>Properties\<close>

text \<open>The selected version a server sends is read back as the same version when its
  number is below 2^24 and its patch byte below 128; in general the third byte arrives
  sign-extended, 256 too small, and only the low 24 bits arrive at all.\<close>

theorem selected_version_wire:
  assumes "addressable (format_server_selected_version (mk_version n) @ rest)"
  shows "parse_server_version (format_server_selected_version (mk_version n) @ rest) out =
      Inr (8, \<lparr>req_code = SELECTED_VERSION,
               req_data = Some (SelectedVersionData (mk_version (take_bit 24 n - (if bit n 7 then 256 else 0)))),
               req_message_id = 0\<rparr>)"
  using server_version_parse_format [OF assms] by (simp add: wire_version_def)

theorem selected_version_wire_witness:
  "parse_server_version (format_server_selected_version (mk_version 0x000180) @ [0x46]) blank_request =
     Inr (8, \<lparr>req_code = SELECTED_VERSION, req_data = Some (SelectedVersionData (mk_version 0x80)), req_message_id = 0\<rparr>)"
  using selected_version_wire [of "0x180" "[0x46]" blank_request]
  by (simp add: addressable_def format_server_selected_version_def magic_bytes_def version_bytes_def)

text \<open>On every input a client version list is refused, incomplete, or read without leaving
  the buffer, and it is as long as its sixth byte says.\<close>

theorem client_version_defined:
  assumes "addressable raw"
  shows "parse_client_version raw out \<noteq> Inl Undefined_behaviour \<and>
    (\<forall>n r. parse_client_version raw out = Inr (n, r) \<longrightarrow> n \<noteq> 0 \<longrightarrow>
       unat n = 6 + 3 * unat (raw ! 5) \<and> unat n \<le> length raw)"
proof -
  have "unat (of_nat (6 + unat (raw ! 5) * 3) :: u64) = 6 + unat (raw ! 5) * 3"
    using unat_byte_less [of "raw ! 5"] by (simp add: unat_of_nat take_bit_nat_eq_self del: of_nat_add of_nat_mult)
  then show ?thesis
    by (auto simp: client_version_total [OF assms] split: if_splits simp del: of_nat_add of_nat_mult)
qed

theorem client_version_defined_witness:
  "parse_client_version format_client_version_list blank_request \<noteq> Inl Undefined_behaviour"
  using client_version_defined [of format_client_version_list blank_request]
  by (simp add: addressable_def format_client_version_list_def client_version_payload_eval)

text \<open>The two sides of the handshake agree: what the client sends is read as the list of the
  versions it knows, every one of which the protocol object accepts.\<close>

theorem client_version_agreed:
  assumes "addressable (format_client_version_list @ rest)"
  shows "parse_client_version (format_client_version_list @ rest) out =
      Inr (of_nat (length format_client_version_list),
           \<lparr>req_code = SUPPORTED_VERSIONS,
            req_data = Some (SupportedVersionsData (map (mk_version \<circ> fst) version_names)),
            req_message_id = 0\<rparr>) \<and>
    list_all (\<lambda>(n, _). \<exists>p. mk_protocol (mk_version n) = Inr p \<and> p_handler p \<noteq> None) version_names"
  using client_version_parse_format [OF assms]
  by (simp add: format_client_version_list_def client_version_payload_eval version_names_def
      mk_protocol_def set_version_def protocol_list_def version_compare_low24 compare_nat_def)

theorem client_version_agreed_witness:
  "fst (projr (parse_client_version (format_client_version_list @ [0]) blank_request)) = 9"
  using client_version_agreed [of "[0]" blank_request]
  by (simp add: addressable_def format_client_version_list_def client_version_payload_eval)

end
