(* ===== verification/VarInt.thy ===== *)
theory VarInt
  imports Codec
begin

unbundle bit_operations_syntax

text \<open>
  \<open>FileShare::Utils::VarInt\<close> (\<open>include/FileShare/Utils/VarInt.hpp\<close>,
  \<open>source/Utils/VarInt.cpp\<close>): the variable-length integer of the wire format, seven bits
  per byte, least significant group first, the high bit set on every byte but the last.
  The object keeps the bytes, a view of them, and a cached number with a dirty flag; all
  four are fields of the model, and the \<open>mutable\<close> updates of the \<open>const\<close> members are
  part of the results.
\<close>

section \<open>State and operations\<close>

record var_int =
  m_values :: bytes
  m_string :: bytes
  m_value :: u64
  m_value_dirty :: bool

text \<open>
  A default-constructed object leaves \<open>m_value\<close> indeterminate: the argument \<open>junk\<close>
  stands for whatever the memory held.
\<close>

definition varint_new :: "u64 \<Rightarrow> var_int" where
  "varint_new junk = \<lparr>m_values = [], m_string = [], m_value = junk, m_value_dirty = True\<rparr>"

definition reset_string_view :: "var_int \<Rightarrow> var_int" where
  "reset_string_view v = v\<lparr>m_string := m_values v\<rparr>"

definition varint_assign :: "var_int \<Rightarrow> var_int \<Rightarrow> var_int" where
  "varint_assign this_v other =
     reset_string_view (this_v\<lparr>m_values := m_values other, m_value := m_value other,
                               m_value_dirty := m_value_dirty other\<rparr>)"

text \<open>The \<open>while (value != 0)\<close> loop of \<open>reset\<close>: the bytes it pushes.\<close>

function varint_digits :: "u64 \<Rightarrow> bytes" where
  "varint_digits value =
     (if value = 0 then []
      else
        let tmp = (ucast (value AND 0x7F) :: byte);
            tmp = tmp OR (if value - ucast tmp = 0 then 0 else 0x80)
        in tmp # varint_digits (drop_bit 7 value))"
  by pat_completeness auto

lemma unat_drop_7: "unat (drop_bit 7 (value :: u64)) = unat value div 128"
  by (simp add: drop_bit_eq_div unat_div)

termination varint_digits
proof (relation "measure unat")
  fix n :: u64
  assume "n \<noteq> 0"
  then have "0 < unat n" by (simp add: unat_gt_0)
  then show "(drop_bit 7 n, n) \<in> measure unat"
    by (simp add: unat_drop_7)
qed simp

declare varint_digits.simps [simp del]

definition varint_reset :: "u64 \<Rightarrow> var_int \<Rightarrow> var_int" where
  "varint_reset value v =
     (let v = v\<lparr>m_values := []\<rparr>;
          v = v\<lparr>m_value_dirty := False\<rparr>;
          v = v\<lparr>m_value := value\<rparr>;
          v = (if value = 0 then v\<lparr>m_values := m_values v @ [0]\<rparr> else v);
          v = v\<lparr>m_values := m_values v @ varint_digits value\<rparr>
      in reset_string_view v)"

text \<open>The constructor from a number; the object's memory before it is irrelevant.\<close>

definition varint_of :: "u64 \<Rightarrow> var_int" where
  "varint_of value = varint_reset value (varint_new 0)"

text \<open>
  \<open>parse\<close>: the loop collects bytes in \<open>result\<close> until one has a clear high bit. The
  caller's \<open>output\<close> and the object change only on success.
\<close>

fun parse_loop :: "bytes \<Rightarrow> bytes \<Rightarrow> (bytes \<times> bytes) option" where
  "parse_loop [] res = None"
| "parse_loop (c # iter) res =
     (let res = res @ [c] in
      if c AND 0x80 = 0 then Some (res, iter) else parse_loop iter res)"

definition varint_parse :: "bytes \<Rightarrow> bytes \<Rightarrow> var_int \<Rightarrow> bool \<times> bytes \<times> var_int" where
  "varint_parse input output v =
     (case parse_loop input [] of
        Some (res, rest) \<Rightarrow>
          (True, rest, reset_string_view (v\<lparr>m_value_dirty := True, m_values := res\<rparr>))
      | None \<Rightarrow> (False, output, v))"

definition varint_byte_size :: "var_int \<Rightarrow> u64" where
  "varint_byte_size v = of_nat (length (m_values v))"

definition varint_to_string :: "var_int \<Rightarrow> bytes" where
  "varint_to_string v = m_string v"

text \<open>\<open>reset_number_view\<close>: the reverse iteration is a fold from the last byte.\<close>

definition leftover_value :: byte where
  "leftover_value = of_nat ((8 * 8) mod 7)"

definition max_size :: nat where
  "max_size = (8 * 8) div 7"

definition number_loop :: "bytes \<Rightarrow> u64" where
  "number_loop values =
     foldl (\<lambda>res c. push_bit 7 res + ucast (c AND 0x7F)) 0 (rev values)"

definition reset_number_view :: "var_int \<Rightarrow> var_int result" where
  "reset_number_view v =
     (if length (m_values v) > max_size \<and>
         (length (m_values v) \<noteq> max_size + 1 \<or> last (m_values v) \<noteq> leftover_value)
      then Inl (Runtime_error ''Value is too big to fit in a std::size_t'')
      else Inr (v\<lparr>m_value := number_loop (m_values v), m_value_dirty := False\<rparr>))"

definition varint_to_number :: "var_int \<Rightarrow> (u64 \<times> var_int) result" where
  "varint_to_number v =
     try_then (if m_value_dirty v then reset_number_view v else Inr v)
       (\<lambda>v. Inr (m_value v, v))"

definition varint_compare :: "var_int \<Rightarrow> var_int \<Rightarrow> ordering" where
  "varint_compare v other =
     (if m_value v < m_value other then Less
      else if m_value v = m_value other then Equal else Greater)"

text \<open>
  How the protocol handler reads a number: \<open>parse(payload, payload)\<close>, an exception when it
  fails, then \<open>to_number()\<close>. The object is reused between calls in the source;
  \<open>parse_ignores_object\<close> below shows that nothing of its old contents survives.
\<close>

definition read_varint :: "bytes \<Rightarrow> (u64 \<times> bytes) result" where
  "read_varint payload =
     (case varint_parse payload payload (varint_new 0) of
        (ok, payload, v) \<Rightarrow>
          try_then (throw_if (\<not> ok) (Runtime_error ''BAD_REQUEST'')) (\<lambda>_.
          try_then (varint_to_number v) (\<lambda>(n, _). Inr (n, payload))))"

section \<open>The number a byte sequence stands for\<close>

text \<open>
  The specification side: the number whose base-128 digits are the low seven bits of the
  bytes, as an unbounded natural number; the shape \<open>parse\<close> accepts; and the test that
  guards \<open>to_number\<close>.
\<close>

definition groups_value :: "bytes \<Rightarrow> nat" where
  "groups_value bs = foldr (\<lambda>b acc. unat (b AND 0x7F) + 128 * acc) bs 0"

definition varint_wf :: "bytes \<Rightarrow> bool" where
  "varint_wf bs \<longleftrightarrow> bs \<noteq> [] \<and> (\<forall>b \<in> set (butlast bs). b AND 0x80 \<noteq> 0) \<and> last bs AND 0x80 = 0"

definition fits :: "bytes \<Rightarrow> bool" where
  "fits bs \<longleftrightarrow> length bs \<le> max_size \<or> (length bs = max_size + 1 \<and> last bs = leftover_value)"

text \<open>The encoding \<open>to_string\<close> of a freshly reset object.\<close>

definition varint_bytes :: "u64 \<Rightarrow> bytes" where
  "varint_bytes n = varint_to_string (varint_of n)"

lemma groups_value_simps [simp]:
  "groups_value [] = 0"
  "groups_value (b # bs) = unat (b AND 0x7F) + 128 * groups_value bs"
  by (simp_all add: groups_value_def)

lemma and_7F: "(x :: 'a :: len word) AND 0x7F = take_bit 7 x"
  by (simp add: take_bit_eq_mask mask_eq_exp_minus_1)

lemma unat_and_7F: "unat (b AND 0x7F :: byte) = unat b mod 128"
  by (simp add: and_7F take_bit_eq_mod unat_mod)

lemma unat_and_7F_u64: "unat (n AND 0x7F :: u64) = unat n mod 128"
  by (simp add: and_7F take_bit_eq_mod unat_mod)

lemma groups_value_bound: "groups_value bs < 128 ^ length bs"
proof (induction bs)
  case (Cons b bs)
  have "unat (b AND 0x7F) < 128" by (simp add: unat_and_7F)
  with Cons show ?case by simp
qed simp

section \<open>Bits of one group\<close>

lemma high_bit: "(0x80 :: byte) = 2 ^ 7" by simp

lemma low_group_clear: "take_bit 7 (x :: byte) AND 0x80 = 0"
  unfolding high_bit and_exp_eq_0_iff_not_bit by (simp add: bit_take_bit_iff)
lemma low_group_id: "take_bit 7 (x :: byte) AND 0x7F = take_bit 7 x"
  by (simp add: and_7F)
lemma high_group_set: "(take_bit 7 (x :: byte) OR 0x80) AND 0x80 = 0x80"
  unfolding high_bit by (rule bit_word_eqI) (auto simp: bit_simps)
lemma high_group_low: "(take_bit 7 (x :: byte) OR 0x80) AND 0x7F = take_bit 7 x"
  unfolding and_7F high_bit
  by (rule bit_word_eqI) (auto simp add: bit_simps)

lemma ucast_low: "ucast (n AND 0x7F :: u64) = (take_bit 7 (ucast n) :: byte)"
  by (rule bit_word_eqI) (auto simp: and_7F bit_simps)
lemma unat_ucast_byte: "unat (ucast (b :: byte) :: u64) = unat b"
proof -
  have "unat b < 2 ^ 8" using unsigned_less [of b] by simp
  then have "unat b < 2 ^ 64" by simp
  then show ?thesis by (simp add: unsigned_ucast_eq take_bit_nat_eq_self)
qed

lemma ucast_low_back: "ucast (take_bit 7 (ucast n) :: byte) = (take_bit 7 n :: u64)"
  by (rule bit_word_eqI) (auto simp: and_7F bit_simps)

section \<open>The encoding loop\<close>

lemma digits_step:
  assumes "n \<noteq> 0"
  shows "varint_digits n =
     (if unat n < 128 then [take_bit 7 (ucast n)]
      else (take_bit 7 (ucast n) OR 0x80) # varint_digits (drop_bit 7 n))"
proof -
  have "n - take_bit 7 n = 0 \<longleftrightarrow> unat n = unat (take_bit 7 n)"
    unfolding right_minus_eq by (rule word_unat_eq_iff)
  also have "\<dots> \<longleftrightarrow> unat n < 128"
    by (simp add: take_bit_eq_mod unat_mod) (metis mod_less mod_less_divisor zero_less_numeral)
  finally have low: "n - take_bit 7 n = 0 \<longleftrightarrow> unat n < 128" .
  have small: "drop_bit 7 n = 0" if "unat n < 128"
    by (rule word_unat_eq_iff [THEN iffD2]) (simp add: unat_drop_7 that)
  show ?thesis
    unfolding varint_digits.simps [of n] Let_def ucast_low ucast_low_back low
    using assms by (auto simp: small varint_digits.simps [of 0])
qed


lemma groups_digits: "n \<noteq> 0 \<Longrightarrow> varint_wf (varint_digits n)"
proof (induction n rule: varint_digits.induct)
  case (1 n)
  have "drop_bit 7 n \<noteq> 0" if "\<not> unat n < 128"
    using that by (simp add: word_unat_eq_iff unat_drop_7)
  with 1 show ?case
    by (auto simp: digits_step varint_wf_def low_group_clear high_group_set)
qed

lemma value_digits: "groups_value (varint_digits n) = unat n"
proof (induction n rule: varint_digits.induct)
  case (1 n)
  have t: "unat (take_bit 7 (ucast n :: byte)) = unat n mod 128"
  proof -
    have "unat (take_bit 7 (ucast n :: byte)) = unat (ucast (take_bit 7 (ucast n :: byte)) :: u64)"
      by (simp add: unat_ucast_byte)
    also have "\<dots> = unat n mod 128"
      unfolding ucast_low_back by (simp add: take_bit_eq_mod unat_mod)
    finally show ?thesis .
  qed
  show ?case
  proof (cases "n = 0")
    case True
    then show ?thesis by (simp add: varint_digits.simps [of 0])
  next
    case False
    with 1 show ?thesis
      by (auto simp: digits_step high_group_low low_group_id t unat_drop_7)
  qed
qed

lemma length_digits: "unat n < 128 ^ k \<Longrightarrow> length (varint_digits n) \<le> k"
proof (induction k arbitrary: n)
  case 0
  then have "n = 0" by (simp add: unat_eq_zero)
  then show ?case by (simp add: varint_digits.simps [of 0])
next
  case (Suc k)
  then have "unat (drop_bit 7 n) < 128 ^ k"
    by (simp add: unat_drop_7 less_mult_imp_div_less mult.commute)
  with Suc.IH [of "drop_bit 7 n"] show ?case
    by (cases "n = 0") (auto simp: digits_step varint_digits.simps [of 0])
qed

lemma length_digits_ge: "128 ^ k \<le> unat n \<Longrightarrow> k < length (varint_digits n)"
proof (rule ccontr)
  assume a: "128 ^ k \<le> unat n" "\<not> k < length (varint_digits n)"
  have "groups_value (varint_digits n) < 128 ^ length (varint_digits n)"
    by (rule groups_value_bound)
  also have "\<dots> \<le> 128 ^ k" using a(2) by (simp add: power_increasing)
  finally show False using a(1) by (simp add: value_digits)
qed

section \<open>The decoding loop\<close>

text \<open>The loop of \<open>to_number\<close> computes the value modulo 2^64.\<close>

lemma number_loop_Cons: "number_loop (b # bs) = push_bit 7 (number_loop bs) + ucast (b AND 0x7F)"
  by (simp add: number_loop_def)

lemma number_loop_value: "number_loop bs = of_nat (groups_value bs)"
proof (induction bs)
  case (Cons b bs)
  have "ucast (b AND 0x7F) = (of_nat (unat (b AND 0x7F)) :: u64)"
    by simp
  with Cons show ?case
    by (simp add: number_loop_Cons push_bit_eq_mult algebra_simps)
qed (simp add: number_loop_def)

lemma groups_value_append: "groups_value (as @ bs) = groups_value as + 128 ^ length as * groups_value bs"
  by (induction as) (simp_all add: algebra_simps)

lemma fits_value: "fits bs \<Longrightarrow> groups_value bs < 2 ^ 64"
proof -
  assume "fits bs"
  then consider "length bs \<le> 9" | "length bs = 10" "last bs = 1"
    by (auto simp: fits_def max_size_def leftover_value_def)
  then show ?thesis
  proof cases
    case 1
    have "groups_value bs < 128 ^ length bs" by (rule groups_value_bound)
    also have "\<dots> \<le> 128 ^ 9" using 1 by (intro power_increasing) simp_all
    also have "\<dots> < (2::nat) ^ 64" by simp
    finally show ?thesis .
  next
    case 2
    then have bs: "bs = butlast bs @ [1]" by (metis append_butlast_last_id list.size(3) zero_neq_numeral)
    have "length (butlast bs) = 9" using 2 by simp
    moreover have "groups_value (butlast bs) < 128 ^ length (butlast bs)" by (rule groups_value_bound)
    ultimately have "groups_value (butlast bs) < 128 ^ 9" by simp
    then have "groups_value (butlast bs @ [1]) < 2 ^ 64"
      using \<open>length (butlast bs) = 9\<close> by (simp add: groups_value_append)
    with bs show ?thesis by simp
  qed
qed


lemma length_digits_top:
  "128 ^ k \<le> unat n \<Longrightarrow> unat n < 2 * 128 ^ k \<Longrightarrow>
     length (varint_digits n) = k + 1 \<and> last (varint_digits n) = 1"
proof (induction k arbitrary: n)
  case 0
  then have "n = 1" by (simp add: word_unat_eq_iff)
  then show ?case by (simp add: digits_step take_bit_eq_mod)
next
  case (Suc k)
  then have "128 ^ k \<le> unat (drop_bit 7 n)" "unat (drop_bit 7 n) < 2 * 128 ^ k"
    by (simp_all add: unat_drop_7 less_eq_div_iff_mult_less_eq less_mult_imp_div_less)
  note IH = Suc.IH [OF this]
  have "128 * 1 \<le> 128 * (128 ^ k :: nat)" by (intro mult_left_mono) simp_all
  with Suc.prems(1) have big: "128 \<le> unat n" by (metis le_trans mult_1_right power_Suc)
  then have "n \<noteq> 0" "\<not> unat n < 128" by (auto simp: not_less)
  with IH show ?case by (auto simp: digits_step)
qed

lemma unat_of_nat_groups: "fits bs \<Longrightarrow> unat (of_nat (groups_value bs) :: u64) = groups_value bs"
  using fits_value [of bs] by (simp add: unat_of_nat take_bit_nat_eq_self)

lemma varint_digits_fits: "fits (varint_digits n)"
proof (cases "unat n < 128 ^ 9")
  case True
  then show ?thesis using length_digits [of n 9] by (simp add: fits_def max_size_def)
next
  case False
  have "unat n < 2 ^ 64" using unsigned_less [of n] by simp
  with False length_digits_top [of 9 n] show ?thesis
    by (simp add: fits_def max_size_def leftover_value_def)
qed

section \<open>Laws of the operations\<close>

lemma varint_of_unfold:
  "varint_of n = \<lparr>m_values = (if n = 0 then [0] else varint_digits n),
     m_string = (if n = 0 then [0] else varint_digits n), m_value = n, m_value_dirty = False\<rparr>"
  by (simp add: varint_of_def varint_reset_def reset_string_view_def varint_new_def
      varint_digits.simps [of 0])

lemma varint_bytes_unfold: "varint_bytes n = (if n = 0 then [0] else varint_digits n)"
  by (simp add: varint_bytes_def varint_to_string_def varint_of_unfold)

lemma varint_of_selectors [simp]:
  "m_values (varint_of n) = varint_bytes n"
  "varint_to_string (varint_of n) = varint_bytes n"
  "varint_to_number (varint_of n) = Inr (n, varint_of n)"
  "varint_byte_size (varint_of n) = of_nat (length (varint_bytes n))"
  by (simp_all add: varint_bytes_unfold varint_of_unfold varint_to_string_def
      varint_to_number_def varint_byte_size_def)

lemma varint_reset_any: "varint_reset n v = varint_of n"
  by (cases v) (simp add: varint_reset_def varint_of_def reset_string_view_def varint_new_def Let_def)

lemma varint_bytes_wf: "varint_wf (varint_bytes n)"
  using groups_digits [of n] by (auto simp: varint_bytes_unfold varint_wf_def)

lemma varint_bytes_value [simp]: "groups_value (varint_bytes n) = unat n"
  by (simp add: varint_bytes_unfold value_digits)

lemma varint_bytes_fits: "fits (varint_bytes n)"
  using varint_digits_fits [of n]
  by (auto simp: varint_bytes_unfold fits_def max_size_def)

lemma varint_bytes_length: "0 < length (varint_bytes n) \<and> length (varint_bytes n) \<le> 10"
  using varint_bytes_wf [of n] varint_bytes_fits [of n]
  by (auto simp: varint_wf_def fits_def max_size_def)

lemma varint_bytes_not_Nil [simp]: "varint_bytes n \<noteq> []"
  using varint_bytes_length [of n] by auto

lemma varint_bytes_length_le: "k > 0 \<Longrightarrow> unat n < 128 ^ k \<Longrightarrow> length (varint_bytes n) \<le> k"
  using length_digits [of n k] by (auto simp: varint_bytes_unfold)

lemma varint_wf_Cons:
  "varint_wf (c # bs) \<longleftrightarrow> (if bs = [] then c AND 0x80 = 0 else c AND 0x80 \<noteq> 0 \<and> varint_wf bs)"
  by (auto simp: varint_wf_def)

lemma parse_loop_wf: "varint_wf bs \<Longrightarrow> parse_loop (bs @ rest) res = Some (res @ bs, rest)"
proof (induction bs arbitrary: res)
  case (Cons c bs)
  then show ?case by (auto simp: varint_wf_Cons Let_def split: if_splits)
qed (simp add: varint_wf_def)

lemma parse_loop_Some:
  "parse_loop s res = Some (out, rest) \<Longrightarrow> \<exists>bs. varint_wf bs \<and> s = bs @ rest \<and> out = res @ bs"
proof (induction s arbitrary: res)
  case (Cons c s)
  show ?case
  proof (cases "c AND 0x80 = 0")
    case True
    with Cons.prems show ?thesis
      by (intro exI [of _ "[c]"]) (simp add: varint_wf_def Let_def)
  next
    case False
    with Cons.prems have "parse_loop s (res @ [c]) = Some (out, rest)" by (simp add: Let_def)
    with Cons.IH obtain bs where "varint_wf bs" "s = bs @ rest" "out = (res @ [c]) @ bs" by blast
    with False show ?thesis
      by (intro exI [of _ "c # bs"]) (auto simp: varint_wf_Cons varint_wf_def)
  qed
qed simp

lemma parse_loop_None: "parse_loop s res = None \<longleftrightarrow> (\<forall>b \<in> set s. b AND 0x80 \<noteq> 0)"
  by (induction s arbitrary: res) (auto simp: Let_def)

lemma parse_loop_append:
  "parse_loop s res = Some (out, rest) \<Longrightarrow> parse_loop (s @ t) res = Some (out, rest @ t)"
  by (induction s arbitrary: res) (auto simp: Let_def split: if_splits)

lemma to_number_dirty:
  "m_value_dirty v \<Longrightarrow> varint_to_number v =
     (if fits (m_values v)
      then Inr (of_nat (groups_value (m_values v)),
                v\<lparr>m_value := of_nat (groups_value (m_values v)), m_value_dirty := False\<rparr>)
      else Inl (Runtime_error ''Value is too big to fit in a std::size_t''))"
  by (auto simp: varint_to_number_def reset_number_view_def fits_def number_loop_value)

lemma read_varint_wf:
  assumes "varint_wf bs"
  shows "read_varint (bs @ rest) =
    (if fits bs then Inr (of_nat (groups_value bs), rest)
     else Inl (Runtime_error ''Value is too big to fit in a std::size_t''))"
  using assms
  by (simp add: read_varint_def varint_parse_def parse_loop_wf to_number_dirty reset_string_view_def)

lemma read_varint_bytes [simp]: "read_varint (varint_bytes n @ rest) = Inr (n, rest)"
  by (simp add: read_varint_wf varint_bytes_wf varint_bytes_fits)

lemma read_varint_Inr:
  assumes "read_varint s = Inr (n, rest)"
  obtains bs where "s = bs @ rest" "varint_wf bs" "fits bs" "unat n = groups_value bs"
proof -
  from assms obtain out where "parse_loop s [] = Some (out, rest)"
    by (auto simp: read_varint_def varint_parse_def try_then_eq_Inr split: option.splits)
  from parse_loop_Some [OF this] obtain bs where bs: "varint_wf bs" "s = bs @ rest" by auto
  with assms have f: "fits bs" "n = of_nat (groups_value bs)"
    by (auto simp: read_varint_wf split: if_splits)
  then have "unat n = groups_value bs" by (simp add: unat_of_nat_groups)
  with bs f show ?thesis by (intro that)
qed

lemma read_varint_consumes: "read_varint s = Inr (n, rest) \<Longrightarrow> length rest < length s"
  by (erule read_varint_Inr) (auto simp: varint_wf_def)

lemma read_varint_append:
  "read_varint s = Inr (n, rest) \<Longrightarrow> read_varint (s @ t) = Inr (n, rest @ t)"
  by (erule read_varint_Inr) (simp add: read_varint_wf word_unat_eq_iff unat_of_nat_groups)

lemma read_varint_incomplete:
  "read_varint s = Inl (Runtime_error ''BAD_REQUEST'') \<longleftrightarrow> (\<forall>b \<in> set s. b AND 0x80 \<noteq> 0)"
proof (cases "parse_loop s []")
  case None
  then show ?thesis using parse_loop_None [of s "[]"]
    by (simp add: read_varint_def varint_parse_def)
next
  case (Some r)
  then obtain out rest where r: "parse_loop s [] = Some (out, rest)" by (cases r) auto
  then obtain bs where "varint_wf bs" "s = bs @ rest" using parse_loop_Some by blast
  moreover have "\<not> (\<forall>b \<in> set s. b AND 0x80 \<noteq> 0)" using r parse_loop_None [of s "[]"] by auto
  ultimately show ?thesis by (simp add: read_varint_wf split: if_splits)
qed

interpretation varint_codec: codec varint_bytes read_varint "\<lambda>_. True"
proof
  show "\<exists>bs. bs \<noteq> [] \<and> s = bs @ rest" if "read_varint s = Inr (a, rest)" for s a rest
    using that by (elim read_varint_Inr) (auto simp: varint_wf_def)
qed simp

section \<open>The object invariant\<close>

text \<open>The view is a view of the bytes, and a clean cache is the number they stand for.\<close>

definition varint_inv :: "var_int \<Rightarrow> bool" where
  "varint_inv v \<longleftrightarrow> m_string v = m_values v \<and>
     (\<not> m_value_dirty v \<longrightarrow> fits (m_values v) \<and> m_value v = of_nat (groups_value (m_values v)))"

lemma varint_inv_of: "varint_inv (varint_of n)"
  using varint_bytes_fits [of n]
  by (simp add: varint_inv_def varint_of_unfold varint_bytes_unfold value_digits)

lemma varint_inv_parse:
  "varint_inv v \<Longrightarrow> varint_parse input out v = (ok, out', v') \<Longrightarrow> varint_inv v'"
  by (auto simp: varint_parse_def varint_inv_def reset_string_view_def split: option.splits)

lemma varint_inv_assign: "varint_inv w \<Longrightarrow> varint_inv (varint_assign v w)"
  by (simp add: varint_inv_def varint_assign_def reset_string_view_def)

lemma to_number_clean: "\<not> m_value_dirty v \<Longrightarrow> varint_to_number v = Inr (m_value v, v)"
  by (simp add: varint_to_number_def)

lemma varint_inv_to_number:
  "varint_inv v \<Longrightarrow> varint_to_number v = Inr (n, v') \<Longrightarrow>
     varint_inv v' \<and> m_values v' = m_values v \<and> unat n = groups_value (m_values v)"
  by (cases "m_value_dirty v")
    (auto simp: varint_inv_def to_number_dirty to_number_clean unat_of_nat_groups split: if_splits)

section \<open>Properties\<close>

text \<open>C26: Encoding a number with \<open>reset\<close> and parsing the bytes with anything behind them gives
  the number back and leaves exactly what was behind, whatever both objects held before.\<close>

theorem varint_roundtrip:
  "\<exists>v' v''. varint_parse (varint_to_string (varint_reset n w) @ rest) out v = (True, rest, v') \<and>
     varint_to_number v' = Inr (n, v'')"
  by (simp add: varint_reset_any varint_parse_def parse_loop_wf varint_bytes_wf reset_string_view_def
      to_number_dirty varint_bytes_fits)

text \<open>C27: After a successful \<open>parse\<close>, \<open>to_number\<close> either returns exactly the number the
  seven-bit groups stand for, with no wrap-around, or throws; it throws exactly when there are
  more than ten groups, or ten with a last one other than 1.\<close>

theorem varint_to_number_exact:
  assumes "varint_parse input out v = (True, rest, v')"
  shows "\<exists>bs. input = bs @ rest \<and> varint_wf bs \<and>
    (if length bs \<le> 9 \<or> (length bs = 10 \<and> last bs = 1)
     then groups_value bs < 2 ^ 64 \<and> (\<exists>v''. varint_to_number v' = Inr (of_nat (groups_value bs), v''))
     else varint_to_number v' = Inl (Runtime_error ''Value is too big to fit in a std::size_t''))"
proof -
  from assms obtain bs where p: "parse_loop input [] = Some (bs, rest)"
    and v': "v' = reset_string_view (v\<lparr>m_value_dirty := True, m_values := bs\<rparr>)"
    by (auto simp: varint_parse_def split: option.splits)
  from parse_loop_Some [OF p] have "varint_wf bs" "input = bs @ rest" by auto
  moreover have "fits bs \<longleftrightarrow> length bs \<le> 9 \<or> (length bs = 10 \<and> last bs = 1)"
    by (simp add: fits_def max_size_def leftover_value_def)
  ultimately show ?thesis
    using fits_value [of bs] by (intro exI [of _ bs]) (simp add: v' to_number_dirty reset_string_view_def)
qed

theorem varint_to_number_exact_witness:
  "\<exists>bs. [0xAC, 0x02, 0x07] = bs @ [0x07] \<and> varint_wf bs \<and>
    (if length bs \<le> 9 \<or> (length bs = 10 \<and> last bs = 1)
     then groups_value bs < 2 ^ 64 \<and>
       (\<exists>v''. varint_to_number (snd (snd (varint_parse [0xAC, 0x02, 0x07] [] (varint_new 0)))) =
          Inr (of_nat (groups_value bs), v''))
     else varint_to_number (snd (snd (varint_parse [0xAC, 0x02, 0x07] [] (varint_new 0)))) =
        Inl (Runtime_error ''Value is too big to fit in a std::size_t''))"
  by (rule varint_to_number_exact [of _ "[]" "varint_new 0"]) (simp add: varint_parse_def)

text \<open>The comparison operator reads the cached number without refreshing it, so
  a successful \<open>parse\<close> does not change how the object compares with any other.\<close>

theorem varint_compare_stale:
  assumes "varint_parse input out v = (ok, rest, v')"
  shows "varint_compare v' w = varint_compare v w \<and> varint_compare w v' = varint_compare w v"
  using assms by (auto simp: varint_parse_def varint_compare_def reset_string_view_def split: option.splits)

theorem varint_compare_stale_witness:
  "varint_compare (snd (snd (varint_parse [0x01] [] (varint_of 5)))) (varint_of 5) = Equal"
proof -
  obtain ok rest v' where p: "varint_parse [0x01] [] (varint_of 5) = (ok, rest, v')"
    by (cases "varint_parse [0x01] [] (varint_of 5)")
  from varint_compare_stale [OF p, of "varint_of 5"] p show ?thesis
    by (simp add: varint_compare_def)
qed

end
