(* ===== verification/Protocol_Handler.thy ===== *)
theory Protocol_Handler
  imports Handshake_Format VarInt
begin

unbundle bit_operations_syntax

text \<open>
  \<open>source/Protocol/Handler/v0.0.0/ProtocolHandler.cpp\<close>: the message formats of version
  0.0.0. Every message is a header (magic bytes, command, message id, payload size as a
  \<open>VarInt\<close>) and a payload. The formatters build a \<open>VarInt\<close> from each number, so its
  \<open>to_string()\<close> is \<open>varint_bytes n\<close>, its \<open>byte_size()\<close> is \<open>byte_size n\<close> and its
  \<open>to_number()\<close> is \<open>n\<close> (\<open>varint_of_selectors\<close>). \<open>reserve\<close> on the result string only
  sets its capacity and is left out; \<open>reserve\<close> on the vector of \<open>parse_file_list\<close> gets
  a number from the peer and can throw.
\<close>

section \<open>Formatting\<close>

definition byte_size :: "u64 \<Rightarrow> u64" where
  "byte_size n = varint_byte_size (varint_of n)"

definition message_header :: "command_code \<Rightarrow> byte \<Rightarrow> u64 \<Rightarrow> bytes" where
  "message_header code message_id payload_size =
     magic_bytes @ [command_byte code, message_id] @ varint_bytes payload_size"

definition format_response :: "byte \<Rightarrow> status_code \<Rightarrow> bytes" where
  "format_response message_id status =
     message_header RESPONSE message_id 1 @ [status_to_char status]"

definition format_send_file :: "byte \<Rightarrow> send_file_data \<Rightarrow> bytes result" where
  "format_send_file message_id data =
     try_then (to_epoch (sf_last_updated data)) (\<lambda>updated_at.
     try_then (algo_hash_size (sf_hash_algorithm data)) (\<lambda>algo_size.
     try_then (throw_if (sv_size (sf_filehash data) \<noteq> algo_size) (Runtime_error ''Wrong hash size'')) (\<lambda>_.
       let filepath_size = sv_size (sf_filepath data);
           packet_size = sf_packet_size data;
           total_packets = sf_total_packets data;
           payload_size = byte_size filepath_size + filepath_size + 1 + sv_size (sf_filehash data) + 8 +
             byte_size packet_size + byte_size total_packets
       in Inr (message_header SEND_FILE message_id payload_size @
            varint_bytes filepath_size @ sf_filepath data @
            [hash_to_char (sf_hash_algorithm data)] @ sf_filehash data @
            serialize_u64 updated_at @
            varint_bytes packet_size @ varint_bytes total_packets))))"

text \<open>The constant \<open>PACKET_SIZE\<close>; the requested \<open>packet_size\<close> is not sent.\<close>

definition packet_size_constant :: u64 where
  "packet_size_constant = 4096"

definition format_receive_file :: "byte \<Rightarrow> receive_file_data \<Rightarrow> bytes" where
  "format_receive_file message_id data =
     (let filepath_size = sv_size (rf_filepath data);
          v_packet_size = packet_size_constant;
          v_packet_start = rf_packet_start data;
          payload_size = byte_size filepath_size + filepath_size +
            byte_size v_packet_size + byte_size v_packet_start
      in message_header RECEIVE_FILE message_id payload_size @
           varint_bytes filepath_size @ rf_filepath data @
           varint_bytes v_packet_size @ varint_bytes v_packet_start)"

definition format_list_files :: "byte \<Rightarrow> bytes \<Rightarrow> bytes" where
  "format_list_files message_id folderpath =
     (let folderpath_size = sv_size folderpath;
          payload_size = byte_size folderpath_size + folderpath_size
      in message_header LIST_FILES message_id payload_size @
           varint_bytes folderpath_size @ folderpath)"

definition format_file_info :: "file_info \<Rightarrow> bytes" where
  "format_file_info file =
     varint_bytes (sv_size (fi_path file)) @ fi_path file @ [file_type_to_char (fi_file_type file)]"

definition format_file_list :: "byte \<Rightarrow> file_list_data \<Rightarrow> bytes" where
  "format_file_list message_id data =
     (let item_count = of_nat (length (fl_files data));
          array_total_size =
            foldl (\<lambda>total file. total + (byte_size (sv_size (fi_path file)) + sv_size (fi_path file) + 1))
              0 (fl_files data);
          payload_size = 1 + byte_size (fl_packet_id data) + byte_size item_count + array_total_size
      in message_header FILE_LIST message_id payload_size @
           [fl_request_id data] @ varint_bytes (fl_packet_id data) @ varint_bytes item_count @
           concat (map format_file_info (fl_files data)))"

definition format_data_packet :: "byte \<Rightarrow> data_packet_data \<Rightarrow> bytes" where
  "format_data_packet message_id data =
     (let packet_id = dp_packet_id data;
          packet_size = sv_size (dp_data data);
          payload_size = 1 + byte_size packet_id + byte_size packet_size + packet_size
      in message_header DATA_PACKET message_id payload_size @
           [dp_request_id data] @ varint_bytes packet_id @ varint_bytes packet_size @ dp_data data)"

definition format_ping :: "byte \<Rightarrow> bytes" where
  "format_ping message_id = message_header PING message_id 0"

definition format_request :: "request \<Rightarrow> bytes result" where
  "format_request request =
     (case req_code request of
        RESPONSE \<Rightarrow> try_then (deref (cast_response (req_data request)))
          (\<lambda>data. Inr (format_response (req_message_id request) data))
      | SEND_FILE \<Rightarrow> try_then (deref (cast_send_file (req_data request)))
          (\<lambda>data. format_send_file (req_message_id request) data)
      | RECEIVE_FILE \<Rightarrow> try_then (deref (cast_receive_file (req_data request)))
          (\<lambda>data. Inr (format_receive_file (req_message_id request) data))
      | LIST_FILES \<Rightarrow> try_then (deref (cast_list_files (req_data request)))
          (\<lambda>data. Inr (format_list_files (req_message_id request) data))
      | FILE_LIST \<Rightarrow> try_then (deref (cast_file_list (req_data request)))
          (\<lambda>data. Inr (format_file_list (req_message_id request) data))
      | PING \<Rightarrow> try_then (deref (cast_ping (req_data request)))
          (\<lambda>data. Inr (format_ping (req_message_id request)))
      | DATA_PACKET \<Rightarrow> try_then (deref (cast_data_packet (req_data request)))
          (\<lambda>data. Inr (format_data_packet (req_message_id request) data))
      | PAIR_REQUEST \<Rightarrow> Inl (Runtime_error ''TODO: NOT IMPLEMENTED'')
      | ACCEPT_PAIR_REQUEST \<Rightarrow> Inl (Runtime_error ''TODO: NOT IMPLEMENTED'')
      | _ \<Rightarrow> Inl (Runtime_error ''UNKNOWN_COMMAND''))"

section \<open>Parsing payloads\<close>

definition bad_request :: cpp_error where
  "bad_request = Runtime_error ''BAD_REQUEST''"

definition parse_response :: "bytes \<Rightarrow> request_data result" where
  "parse_response payload =
     try_then (throw_if (payload = []) bad_request) (\<lambda>_.
     try_then (sv_at payload 0) (\<lambda>status. Inr (ResponseData (status_of_char status))))"

text \<open>A size, that many bytes, and the payload behind them.\<close>

definition read_sized :: "bytes \<Rightarrow> (bytes \<times> bytes) result" where
  "read_sized payload =
     try_then (read_varint payload) (\<lambda>(n, payload).
     try_then (throw_if (sv_size payload < n) bad_request) (\<lambda>_.
     try_then (sv_substr payload 0 n) (\<lambda>str.
     try_then (sv_substr payload n npos) (\<lambda>payload. Inr (str, payload)))))"

definition parse_send_file :: "bytes \<Rightarrow> request_data result" where
  "parse_send_file payload =
     try_then (read_sized payload) (\<lambda>(filepath, payload).
     try_then (sv_at payload 0) (\<lambda>c.
     let hash_algorithm = hash_of_char c in
     try_then (algo_hash_size hash_algorithm) (\<lambda>algo_size.
     try_then (throw_if (sv_size payload < 1 + algo_size + 8 + 1) bad_request) (\<lambda>_.
     try_then (sv_substr payload 1 algo_size) (\<lambda>filehash.
     try_then (sv_substr payload (1 + algo_size) npos) (\<lambda>payload.
     try_then (sv_substr payload 0 8) (\<lambda>s.
     try_then (parse_u64 s) (\<lambda>updated_at.
     try_then (from_epoch updated_at) (\<lambda>last_updated.
     try_then (sv_substr payload 8 npos) (\<lambda>payload.
     try_then (read_varint payload) (\<lambda>(packet_size, payload).
     try_then (read_varint payload) (\<lambda>(total_packets, payload).
       Inr (SendFileData \<lparr>sf_filepath = filepath, sf_hash_algorithm = hash_algorithm,
         sf_filehash = filehash, sf_last_updated = last_updated,
         sf_packet_size = packet_size, sf_total_packets = total_packets\<rparr>)))))))))))))"

definition parse_receive_file :: "bytes \<Rightarrow> request_data result" where
  "parse_receive_file payload =
     try_then (read_sized payload) (\<lambda>(filepath, payload).
     try_then (read_varint payload) (\<lambda>(packet_size, payload).
     try_then (read_varint payload) (\<lambda>(packet_start, payload).
       Inr (ReceiveFileData \<lparr>rf_filepath = filepath, rf_packet_size = packet_size,
         rf_packet_start = packet_start\<rparr>))))"

definition parse_list_files :: "bytes \<Rightarrow> request_data result" where
  "parse_list_files payload =
     try_then (read_varint payload) (\<lambda>(n, payload).
     try_then (throw_if (sv_size payload < n) bad_request) (\<lambda>_.
     try_then (sv_substr payload 0 n) (\<lambda>folderpath. Inr (ListFilesData folderpath))))"

text \<open>One turn of the loop of \<open>parse_file_list\<close>; the sum \<open>n + 1\<close> wraps around.\<close>

definition read_file_info :: "bytes \<Rightarrow> (file_info \<times> bytes) result" where
  "read_file_info payload =
     try_then (read_varint payload) (\<lambda>(n, payload).
     try_then (throw_if (sv_size payload < n + 1) bad_request) (\<lambda>_.
     try_then (sv_substr payload 0 n) (\<lambda>path.
     try_then (sv_substr payload n npos) (\<lambda>payload.
     try_then (sv_at payload 0) (\<lambda>t.
     try_then (sv_substr payload 1 npos) (\<lambda>payload.
       Inr (\<lparr>fi_path = path, fi_file_type = file_type_of_char t\<rparr>, payload)))))))"

text \<open>\<open>std::vector<FileInfo>::max_size()\<close>: elements of 40 bytes.\<close>

definition files_max_size :: nat where
  "files_max_size = (2 ^ 63 - 1) div 40"

definition parse_file_list :: "bytes \<Rightarrow> request_data result" where
  "parse_file_list payload =
     try_then (sv_at payload 0) (\<lambda>request_id.
     try_then (sv_substr payload 1 npos) (\<lambda>payload.
     try_then (read_varint payload) (\<lambda>(packet_id, payload).
     try_then (read_varint payload) (\<lambda>(nb_items, payload).
     try_then (throw_if (files_max_size < unat nb_items) Length_error) (\<lambda>_.
     try_then (read_many read_file_info (unat nb_items) payload) (\<lambda>(files, payload).
       Inr (FileListData \<lparr>fl_request_id = request_id, fl_packet_id = packet_id,
         fl_files = files\<rparr>)))))))"

definition parse_data_packet :: "bytes \<Rightarrow> request_data result" where
  "parse_data_packet payload =
     try_then (sv_at payload 0) (\<lambda>request_id.
     try_then (sv_substr payload 1 npos) (\<lambda>payload.
     try_then (read_varint payload) (\<lambda>(packet_id, payload).
     try_then (read_varint payload) (\<lambda>(n, payload).
     try_then (throw_if (sv_size payload < n) bad_request) (\<lambda>_.
     try_then (sv_substr payload 0 n) (\<lambda>data.
       Inr (DataPacketData \<lparr>dp_request_id = request_id, dp_packet_id = packet_id,
         dp_data = data\<rparr>)))))))"

definition parse_ping :: "bytes \<Rightarrow> request_data result" where
  "parse_ping payload = Inr PingData"

definition get_request_data :: "command_code \<Rightarrow> bytes \<Rightarrow> request_data result" where
  "get_request_data cmd payload =
     (case cmd of
        RESPONSE \<Rightarrow> parse_response payload
      | SEND_FILE \<Rightarrow> parse_send_file payload
      | RECEIVE_FILE \<Rightarrow> parse_receive_file payload
      | LIST_FILES \<Rightarrow> parse_list_files payload
      | FILE_LIST \<Rightarrow> parse_file_list payload
      | PING \<Rightarrow> parse_ping payload
      | DATA_PACKET \<Rightarrow> parse_data_packet payload
      | PAIR_REQUEST \<Rightarrow> Inl (Runtime_error ''TODO: NOT IMPLEMENTED'')
      | ACCEPT_PAIR_REQUEST \<Rightarrow> Inl (Runtime_error ''TODO: NOT IMPLEMENTED'')
      | _ \<Rightarrow> Inl (Runtime_error ''UNKNOWN_COMMAND''))"

section \<open>Parsing messages\<close>

definition base_header_size :: u64 where
  "base_header_size = 6"

definition parse_request :: "bytes \<Rightarrow> request \<Rightarrow> (u64 \<times> request) result" where
  "parse_request raw_msg out =
     (if sv_size raw_msg < base_header_size then Inr (0, out)
      else
        try_then (throw_if (\<not> starts_with raw_msg magic_bytes) (Runtime_error ''Missing magic bytes'')) (\<lambda>_.
        try_then (sv_at raw_msg 4) (\<lambda>code.
        try_then (sv_at raw_msg 5) (\<lambda>message_id.
        try_then (sv_substr raw_msg 6 8) (\<lambda>size_str.
          case varint_parse size_str [] (varint_new 0) of
            (ok, _, payload_size) \<Rightarrow>
              try_then (throw_if (\<not> ok) (Runtime_error ''MESSAGE_TOO_LONG'')) (\<lambda>_.
              let header_size = base_header_size + varint_byte_size payload_size in
              try_then (varint_to_number payload_size) (\<lambda>(n, payload_size).
                if sv_size raw_msg < header_size + n then Inr (0, out)
                else
                  try_then (sv_substr raw_msg header_size n) (\<lambda>payload.
                  try_then (get_request_data (command_of_byte code) payload) (\<lambda>request_data.
                    Inr (header_size + n,
                         \<lparr>req_code = command_of_byte code, req_data = Some request_data,
                          req_message_id = message_id\<rparr>))))))))))"

section \<open>Framing\<close>

text \<open>The declared payload size: the bytes of its \<open>VarInt\<close> inside the eight-byte window.\<close>

definition size_field :: "bytes \<Rightarrow> bytes option" where
  "size_field raw = map_option fst (parse_loop (take 8 (drop 6 raw)) [])"

lemma size_field_Some:
  assumes "size_field raw = Some bs"
  shows "varint_wf bs" "length bs \<le> 8" "fits bs" "groups_value bs < 2 ^ 56" "6 + length bs \<le> length raw"
proof -
  from assms obtain rest where "parse_loop (take 8 (drop 6 raw)) [] = Some (bs, rest)"
    by (auto simp: size_field_def)
  from parse_loop_Some [OF this] have w: "varint_wf bs" "take 8 (drop 6 raw) = bs @ rest" by auto
  then have l: "length bs + length rest = min 8 (length raw - 6)"
    by (metis length_append length_drop length_take min.commute)
  from w(1) have "0 < length bs" by (simp add: varint_wf_def)
  with l show "6 + length bs \<le> length raw" by linarith
  from l show "length bs \<le> 8" by linarith
  from w(1) show "varint_wf bs" .
  from \<open>length bs \<le> 8\<close> show "fits bs" by (simp add: fits_def max_size_def)
  have "groups_value bs < 128 ^ length bs" by (rule groups_value_bound)
  also have "\<dots> \<le> 128 ^ 8" using \<open>length bs \<le> 8\<close> by (intro power_increasing) auto
  finally show "groups_value bs < 2 ^ 56" by simp
qed

lemma parse_request_eq:
  assumes a: "addressable raw"
  shows "parse_request raw out =
    (if length raw < 6 then Inr (0, out)
     else if \<not> starts_with raw magic_bytes then Inl (Runtime_error ''Missing magic bytes'')
     else case size_field raw of
         None \<Rightarrow> Inl (Runtime_error ''MESSAGE_TOO_LONG'')
       | Some bs \<Rightarrow>
           let h = 6 + length bs; n = groups_value bs in
           if length raw < h + n then Inr (0, out)
           else try_then (get_request_data (command_of_byte (raw ! 4)) (take n (drop h raw))) (\<lambda>d.
             Inr (of_nat (h + n), \<lparr>req_code = command_of_byte (raw ! 4), req_data = Some d,
                                    req_message_id = raw ! 5\<rparr>)))"
proof (cases "length raw < 6 \<or> \<not> starts_with raw magic_bytes")
  case True
  then show ?thesis using a by (auto simp: parse_request_def base_header_size_def sv_size_less_iff)
next
  case False
  then have l: "6 \<le> length raw" and m: "starts_with raw magic_bytes" by auto
  have at: "sv_at raw 4 = Inr (raw ! 4)" "sv_at raw 5 = Inr (raw ! 5)"
    using a l by (simp_all add: sv_at_nth)
  have sub: "sv_substr raw 6 8 = Inr (take 8 (drop 6 raw))"
    using a l by (simp add: sv_substr_def sv_size_less_iff)
  have h: "\<not> sv_size raw < 6" using a l by (simp add: sv_size_less_iff)
  show ?thesis
  proof (cases "size_field raw")
    case None
    then show ?thesis using l m at sub h
      by (auto simp: parse_request_def base_header_size_def varint_parse_def size_field_def split: option.splits)
  next
    case (Some bs)
    note f = size_field_Some [OF Some]
    from Some obtain rest where p: "parse_loop (take 8 (drop 6 raw)) [] = Some (bs, rest)"
      by (auto simp: size_field_def)
    have u: "unat (6 + of_nat (length bs) :: u64) = 6 + length bs"
       "unat (of_nat (groups_value bs) :: u64) = groups_value bs"
       "unat (6 + of_nat (length bs) + of_nat (groups_value bs) :: u64) = 6 + length bs + groups_value bs"
    proof -
      have m: "6 + length bs + groups_value bs < 2 ^ 64" using f(2,4) by simp
      have "(6 + of_nat (length bs) + of_nat (groups_value bs) :: u64) = of_nat (6 + length bs + groups_value bs)"
        by simp
      then show "unat (6 + of_nat (length bs) + of_nat (groups_value bs) :: u64) = 6 + length bs + groups_value bs"
        using unat_of_nat_u64 [OF m] by (simp only:)
      have "(6 + of_nat (length bs) :: u64) = of_nat (6 + length bs)" by simp
      then show "unat (6 + of_nat (length bs) :: u64) = 6 + length bs"
        using unat_of_nat_u64 [of "6 + length bs"] m by (simp only:)
      from m show "unat (of_nat (groups_value bs) :: u64) = groups_value bs"
        by (simp add: unat_of_nat_u64)
    qed
    have sub2: "sv_substr raw (6 + of_nat (length bs)) (of_nat (groups_value bs)) =
        Inr (take (groups_value bs) (drop (6 + length bs) raw))"
      using a f(5) by (simp add: sv_substr_def sv_size_less_iff u)
    show ?thesis
      using Some l m at sub sub2 h p f(3) a
      by (simp add: parse_request_def base_header_size_def varint_parse_def to_number_dirty
          reset_string_view_def varint_byte_size_def sv_size_less_iff u Let_def)
  qed
qed

lemma size_field_append:
  "size_field raw = Some bs \<Longrightarrow> size_field (raw @ t) = Some bs"
proof -
  assume "size_field raw = Some bs"
  then obtain rest where p: "parse_loop (take 8 (drop 6 raw)) [] = Some (bs, rest)" and l: "6 \<le> length raw"
    using size_field_Some(5) [of raw bs] by (auto simp: size_field_def)
  then have "take 8 (drop 6 (raw @ t)) = take 8 (drop 6 raw) @ take (8 - (length raw - 6)) t" by simp
  with parse_loop_append [OF p] show ?thesis by (simp add: size_field_def)
qed

interpretation request_frames: frame_parser parse_request
proof
  fix s t :: bytes and out out' r :: request and n :: u64
  have big: "unat (of_nat (6 + length bs + groups_value bs) :: u64) = 6 + length bs + groups_value bs"
    if "size_field raw = Some bs" for raw bs
    using size_field_Some [OF that]
    by (simp add: unat_of_nat take_bit_nat_eq_self del: of_nat_add)
  then have pos: "(of_nat (6 + length bs + groups_value bs) :: u64) \<noteq> 0"
    if "size_field raw = Some bs" for raw bs
    using that by (metis add_is_0 unat_0 zero_neq_numeral)
  show "unat n \<le> length s" if "addressable s" "parse_request s out = Inr (n, r)"
    using that big [of s]
    by (auto simp: parse_request_eq Let_def try_then_eq_Inr split: if_splits option.splits simp del: of_nat_add)
  show "r = out \<and> (\<forall>out'. parse_request s out' = Inr (0, out'))"
    if "addressable s" "parse_request s out = Inr (0, r)"
    using that pos [of s]
    by (auto simp: parse_request_eq Let_def try_then_eq_Inr split: if_splits option.splits simp del: of_nat_add)
  assume a: "addressable (s @ t)" and p: "parse_request s out = Inr (n, r)" "n \<noteq> 0"
  have s: "addressable s" using a by (simp add: addressable_def)
  with p obtain bs where f: "size_field s = Some bs" "\<not> length s < 6" "starts_with s magic_bytes"
      "\<not> length s < 6 + length bs + groups_value bs"
    by (auto simp: parse_request_eq Let_def split: if_splits option.splits simp del: of_nat_add)
  then have "starts_with (s @ t) magic_bytes" "(s @ t) ! 4 = s ! 4" "(s @ t) ! 5 = s ! 5"
    by (auto simp: starts_with_stable nth_append)
  with f size_field_append [OF f(1), of t] p(1) show "parse_request (s @ t) out' = Inr (n, r)"
    unfolding parse_request_eq [OF a] parse_request_eq [OF s]
    by (simp add: Let_def del: of_nat_add)
qed

end
