(* ===== verification/Protocol_Roundtrip.thy ===== *)
theory Protocol_Roundtrip
  imports Protocol_Handler
begin

unbundle bit_operations_syntax

text \<open>
  The formatters and the parsers of the protocol handler agree: each payload, each message and
  each stream of messages is read back as it was written, up to what the format does not carry.
\<close>

section \<open>Reading back what was formatted\<close>

lemma byte_size_eq: "byte_size n = of_nat (length (varint_bytes n))"
  by (simp add: byte_size_def)

lemma sv_size_eq: "of_nat (length s) = sv_size s"
  by (simp add: sv_size_def)

lemma parse_request_message:
  assumes "addressable (message_header c mid (of_nat (length p)) @ p @ rest)"
    and "length p < 2 ^ 56" and "c \<in> set command_enum"
  shows "parse_request (message_header c mid (of_nat (length p)) @ p @ rest) out =
    try_then (get_request_data c p) (\<lambda>d.
      Inr (of_nat (length (message_header c mid (of_nat (length p)) @ p)),
           \<lparr>req_code = c, req_data = Some d, req_message_id = mid\<rparr>))"
proof -
  let ?n = "of_nat (length p) :: u64"
  let ?h = "message_header c mid ?n"
  let ?s = "?h @ p @ rest"
  have u: "unat ?n = length p"
    using assms(2) by (simp add: unat_of_nat take_bit_nat_eq_self)
  then have "unat ?n < 128 ^ 8" using assms(2) by simp
  then have vl: "length (varint_bytes ?n) \<le> 8" by (intro varint_bytes_length_le) simp
  have "take 8 (drop 6 ?s) = varint_bytes ?n @ take (8 - length (varint_bytes ?n)) (p @ rest)"
    using vl by (simp add: message_header_def)
  then have f: "size_field ?s = Some (varint_bytes ?n)"
    by (simp add: size_field_def parse_loop_wf varint_bytes_wf)
  have h: "length ?h = 6 + length (varint_bytes ?n)" by (simp add: message_header_def)
  have "?s ! 4 = command_byte c" "?s ! 5 = mid"
    by (simp_all add: message_header_def nth_append)
  moreover have "starts_with ?s magic_bytes" by (simp add: message_header_def)
  ultimately show ?thesis
    using f h u by (simp add: parse_request_eq [OF assms(1)] command_of_byte_byte [OF assms(3)] Let_def drop_append)
qed

lemma read_sized_bytes:
  assumes "addressable (varint_bytes (sv_size s) @ s @ rest)"
  shows "read_sized (varint_bytes (sv_size s) @ s @ rest) = Inr (s, rest)"
proof -
  have "addressable (s @ rest)" using assms by (simp add: addressable_def)
  moreover from this have "unat (sv_size s) = length s" by (intro unat_sv_size) (simp add: addressable_def)
  ultimately show ?thesis
    by (simp add: read_sized_def sv_substr_append sv_size_less_iff)
qed

lemma sv_substr_drop:
  "addressable s \<Longrightarrow> unat n \<le> length s \<Longrightarrow> sv_substr s n npos = Inr (drop (unat n) s)"
  using sv_substr_append(1) [of "take (unat n) s" "drop (unat n) s" n] by simp

lemma read_sized_Inr:
  assumes "addressable p" "read_sized p = Inr (s, rest)"
  shows "\<exists>bs. bs \<noteq> [] \<and> p = bs @ s @ rest"
proof -
  from assms(2) obtain n q where n: "read_varint p = Inr (n, q)" "\<not> sv_size q < n"
      "sv_substr q 0 n = Inr s" "sv_substr q n npos = Inr rest"
    by (auto simp: read_sized_def try_then_eq_Inr)
  from n(1) obtain bs where bs: "p = bs @ q" "bs \<noteq> []" by (elim read_varint_Inr) (auto simp: varint_wf_def)
  then have q: "addressable q" using assms(1) by (simp add: addressable_def)
  with n have "unat n \<le> length q" by (simp add: sv_size_less_iff)
  with n q have "s = take (unat n) q" "rest = drop (unat n) q"
    by (auto simp: sv_substr_drop) (simp add: sv_substr_def)
  then have "q = s @ rest" by simp
  with bs show ?thesis by blast
qed

interpretation sized_codec: codec "\<lambda>s. varint_bytes (sv_size s) @ s" read_sized "\<lambda>_. True"
proof
  show "\<exists>bs. bs \<noteq> [] \<and> p = bs @ rest" if "addressable p" "read_sized p = Inr (a, rest)" for p a rest
    using read_sized_Inr [OF that] by (metis append_assoc append_is_Nil_conv)
  show "read_sized ((varint_bytes (sv_size a) @ a) @ rest) = Inr (a, rest)"
    if "addressable ((varint_bytes (sv_size a) @ a) @ rest)" for a rest
    using that read_sized_bytes [of a rest] by simp
qed

definition named_file_type :: "file_info \<Rightarrow> bool" where
  "named_file_type fi \<longleftrightarrow> fi_file_type fi = FILE \<or> fi_file_type fi = DIRECTORY"

lemma read_file_info_bytes:
  assumes "named_file_type fi" "addressable (format_file_info fi @ rest)"
  shows "read_file_info (format_file_info fi @ rest) = Inr (fi, rest)"
proof -
  let ?s = "fi_path fi"
  let ?t = "file_type_to_char (fi_file_type fi)"
  have a: "addressable (?s @ ?t # rest)" using assms(2) by (simp add: addressable_def format_file_info_def)
  then have l: "length ?s < 2 ^ 63 - 1" by (simp add: addressable_def)
  then have u: "unat (sv_size ?s) = length ?s" by (intro unat_sv_size) (simp add: addressable_def)
  have e: "sv_size ?s + 1 = of_nat (length ?s + 1)" by (simp add: sv_size_def)
  have "unat (sv_size ?s + 1) = length ?s + 1"
    unfolding e by (rule unat_of_nat_u64) (use l in simp)
  then have big: "\<not> sv_size (?s @ ?t # rest) < sv_size ?s + 1"
    unfolding sv_size_less_iff [OF a] by simp
  have ta: "addressable (?t # rest)" using a by (simp add: addressable_def)
  then have "sv_substr (?t # rest) 1 npos = Inr rest"
    using sv_substr_append(1) [of "[?t]" rest 1] by simp
  moreover have "sv_at (?t # rest) 0 = Inr ?t" using ta by (rule sv_at_0_Cons)
  moreover have "file_type_of_char ?t = fi_file_type fi"
    using assms(1) by (intro file_type_of_char_char) (simp add: named_file_type_def)
  moreover note sv_substr_append [OF a u] big
  ultimately show ?thesis
    by (simp add: read_file_info_def format_file_info_def)
qed

lemma sv_substr_npos_Inr:
  assumes "addressable s" "sv_substr s n npos = Inr t"
  shows "unat n \<le> length s" "t = drop (unat n) s"
proof -
  show "unat n \<le> length s" using assms by (auto simp: sv_substr_def sv_size_less_iff split: if_splits)
  with assms show "t = drop (unat n) s" by (simp add: sv_substr_drop)
qed

lemma read_file_info_Inr:
  assumes "addressable p" "read_file_info p = Inr (fi, rest)"
  shows "\<exists>bs. bs \<noteq> [] \<and> p = bs @ rest"
proof -
  from assms(2) obtain n q r where n: "read_varint p = Inr (n, q)"
      "sv_substr q n npos = Inr r" "sv_substr r 1 npos = Inr rest"
    by (auto simp: read_file_info_def try_then_eq_Inr)
  from n(1) obtain bs where bs: "p = bs @ q" "bs \<noteq> []" by (elim read_varint_Inr) (auto simp: varint_wf_def)
  then have q: "addressable q" using assms(1) by (simp add: addressable_def)
  then have r: "r = drop (unat n) q" using n(2) by (rule sv_substr_npos_Inr)
  then have "addressable r" using q by (simp add: addressable_drop)
  then have "rest = drop (unat (1 :: u64)) r" using n(3) by (rule sv_substr_npos_Inr)
  then have "p = (bs @ take (1 + unat n) q) @ rest" using bs r by simp
  then show ?thesis using bs(2) by blast
qed

interpretation file_info_codec: codec format_file_info read_file_info named_file_type
  by unfold_locales (simp_all add: read_file_info_bytes read_file_info_Inr)

section \<open>Round trips of the payloads\<close>

text \<open>
  What the receiver makes of a request: the packet size of a file request is replaced by the
  constant, and the date comes back in whole seconds, displaced by the distance between
  the epochs of the two clocks.
\<close>

definition trunc_seconds :: "int \<Rightarrow> int" where
  "trunc_seconds x = (if x < 0 then - ((- x) div 10 ^ 9) else x div 10 ^ 9) * 10 ^ 9"

fun received :: "request_data \<Rightarrow> request_data" where
  "received (SendFileData d) =
     SendFileData (d\<lparr>sf_last_updated := trunc_seconds (sf_last_updated d + epoch_diff * 10 ^ 9)\<rparr>)"
| "received (ReceiveFileData d) = ReceiveFileData (d\<lparr>rf_packet_size := packet_size_constant\<rparr>)"
| "received d = d"

lemma sint_of_int_64: "in_i64 x \<Longrightarrow> sint (of_int x :: u64) = x"
  by (simp add: in_i64_def sint_sbintrunc' signed_take_bit_int_eq_self)

lemma trunc_seconds_range: "in_i64 x \<Longrightarrow> in_i64 (trunc_seconds x)"
  and trunc_seconds_quot: "in_i64 x \<Longrightarrow> in_i64 (if x < 0 then - ((- x) div 10 ^ 9) else x div 10 ^ 9)"
  by (auto simp: in_i64_def trunc_seconds_def)

lemma from_epoch_received:
  assumes "to_epoch t = Inr e"
  shows "from_epoch e = Inr (trunc_seconds (t + epoch_diff * 10 ^ 9))"
proof -
  let ?x = "t + epoch_diff * 10 ^ 9"
  from assms have r: "in_i64 ?x" 
    and e: "e = of_int (if ?x < 0 then - ((- ?x) div 10 ^ 9) else ?x div 10 ^ 9)"
    by (auto simp: to_epoch_def checked_i64_def split: if_splits)
  have "sint e * 10 ^ 9 = trunc_seconds ?x"
    unfolding e sint_of_int_64 [OF trunc_seconds_quot [OF r]] by (simp only: trunc_seconds_def)
  then show ?thesis using trunc_seconds_range [OF r] by (simp add: from_epoch_def checked_i64_def)
qed

lemma send_file_payload:
  assumes "algo_hash_size (sf_hash_algorithm d) = Inr (sv_size (sf_filehash d))"
    and "to_epoch (sf_last_updated d) = Inr e"
    and "addressable p"
    and p: "p = varint_bytes (sv_size (sf_filepath d)) @ sf_filepath d @
      [hash_to_char (sf_hash_algorithm d)] @ sf_filehash d @ serialize_u64 e @
      varint_bytes (sf_packet_size d) @ varint_bytes (sf_total_packets d)"
  shows "parse_send_file p = Inr (received (SendFileData d))"
proof -
  let ?c = "hash_to_char (sf_hash_algorithm d)" and ?h = "sf_filehash d"
  let ?v = "varint_bytes (sf_packet_size d) @ varint_bytes (sf_total_packets d)"
  let ?q = "?c # ?h @ serialize_u64 e @ ?v"
  have a: "addressable (varint_bytes (sv_size (sf_filepath d)) @ sf_filepath d @ ?q)" 
    using assms(3) p by simp
  then have q: "addressable ?q" by (simp add: addressable_def)
  then have uh: "unat (sv_size ?h) = length ?h" by (intro unat_sv_size) (simp add: addressable_def)
  have le: "length ?h \<le> 64" using algo_hash_size_le [OF assms(1)] uh by simp
  have u1: "unat (1 + sv_size ?h) = 1 + length ?h"
    and u10: "unat (1 + sv_size ?h + 8 + 1) = 10 + length ?h"
    using le uh by (simp_all add: unat_word_ariths)
  have s: "sv_substr ?q 1 (sv_size ?h) = Inr ?h"
  proof -
    have "\<not> sv_size ?q < 1" unfolding sv_size_less_iff [OF q] by simp
    then show ?thesis unfolding sv_substr_def by (simp add: uh)
  qed
  have t: "sv_substr ?q (1 + sv_size ?h) npos = Inr (serialize_u64 e @ ?v)"
    using sv_substr_append(1) [of "?c # ?h" "serialize_u64 e @ ?v" "1 + sv_size ?h"] q u1 by simp
  have "0 < length (varint_bytes (sf_packet_size d))" by simp
  then have "\<not> sv_size ?q < 1 + sv_size ?h + 8 + 1"
    unfolding sv_size_less_iff [OF q] u10 by (simp del: length_greater_0_conv)
  moreover have "addressable (serialize_u64 e @ ?v)" using q by (simp add: addressable_def)
  moreover note sv_substr_append [OF this, of 8]
  moreover have "sv_at ?q 0 = Inr ?c" using q by (rule sv_at_0_Cons)
  ultimately show ?thesis
    using read_sized_bytes [OF a] s t assms(1)
    by (simp add: parse_send_file_def p hash_of_char_char [OF assms(1)] from_epoch_received [OF assms(2)]
        read_varint_bytes [of _ "[]", simplified])
qed

lemma receive_file_payload:
  assumes "addressable p"
    and p: "p = varint_bytes (sv_size (rf_filepath d)) @ rf_filepath d @
      varint_bytes packet_size_constant @ varint_bytes (rf_packet_start d)"
  shows "parse_receive_file p = Inr (received (ReceiveFileData d))"
  using assms(1) read_sized_bytes [of "rf_filepath d" "varint_bytes packet_size_constant @ varint_bytes (rf_packet_start d)"]
  by (simp add: p parse_receive_file_def read_varint_bytes [of _ "[]", simplified])

lemma sized_tail:
  assumes "addressable (pre @ s)"
  shows "\<not> sv_size s < sv_size s \<and> sv_substr s 0 (sv_size s) = Inr s"
proof -
  have a: "addressable s" using assms by (simp add: addressable_def)
  then have "sv_substr (s @ []) 0 (sv_size s) = Inr s"
    by (intro sv_substr_append(2)) (simp_all add: unat_sv_size)
  then show ?thesis by simp
qed

lemma list_files_payload:
  assumes "addressable (varint_bytes (sv_size f) @ f)"
  shows "parse_list_files (varint_bytes (sv_size f) @ f) = Inr (ListFilesData f)"
  using sized_tail [OF assms] by (simp add: parse_list_files_def)

lemma data_packet_payload:
  assumes "addressable p"
    and p: "p = [dp_request_id d] @ varint_bytes (dp_packet_id d) @ varint_bytes (sv_size (dp_data d)) @ dp_data d"
  shows "parse_data_packet p = Inr (DataPacketData d)"
proof -
  let ?t = "varint_bytes (dp_packet_id d) @ varint_bytes (sv_size (dp_data d)) @ dp_data d"
  have a: "addressable ([dp_request_id d] @ ?t)" using assms by simp
  have "addressable ((dp_request_id d # varint_bytes (dp_packet_id d) @ varint_bytes (sv_size (dp_data d))) @ dp_data d)"
    using a by simp
  from sized_tail [OF this] show ?thesis
    using a sv_substr_append(1) [OF a, of 1] by (simp add: p parse_data_packet_def sv_at_0_Cons)
qed

lemma file_list_payload:
  assumes "addressable p" "length p < 2 ^ 56" "\<forall>f \<in> set (fl_files d). named_file_type f"
    and p: "p = [fl_request_id d] @ varint_bytes (fl_packet_id d) @
      varint_bytes (of_nat (length (fl_files d))) @ concat (map format_file_info (fl_files d))"
  shows "parse_file_list p = Inr (FileListData d)"
proof -
  let ?c = "concat (map format_file_info (fl_files d))"
  have a: "addressable ([fl_request_id d] @ varint_bytes (fl_packet_id d) @
      varint_bytes (of_nat (length (fl_files d))) @ ?c)" using assms by simp
  have "length fs \<le> length (concat (map format_file_info fs))" for fs
    by (induction fs) (simp_all add: format_file_info_def)
  then have "length (fl_files d) < 2 ^ 56" using assms(2) le_less_trans [of "length (fl_files d)" "length ?c"]
    by (auto simp: p)
  then have u: "unat (of_nat (length (fl_files d)) :: u64) = length (fl_files d)"
     and m: "\<not> files_max_size < length (fl_files d)"
    by (simp_all add: unat_of_nat take_bit_nat_eq_self files_max_size_def)
  have "addressable (?c @ [])" using a by (simp add: addressable_def)
  from file_info_codec.read_many_enc [OF assms(3) this]
  show ?thesis
    using a sv_substr_append(1) [OF a, of 1] u m
    by (simp add: p parse_file_list_def sv_at_0_Cons)
qed

lemma response_payload:
  "s \<in> set status_enum \<Longrightarrow> parse_response [status_to_char s] = Inr (ResponseData s)"
  by (simp add: parse_response_def sv_at_0_Cons addressable_def status_of_char_char)

section \<open>Round trips of the messages\<close>

definition named_codes :: "request \<Rightarrow> bool" where
  "named_codes r =
     (case req_data r of
        Some (ResponseData s) \<Rightarrow> s \<in> set status_enum
      | Some (FileListData d) \<Rightarrow> (\<forall>f \<in> set (fl_files d). named_file_type f)
      | _ \<Rightarrow> True)"

definition received_request :: "request \<Rightarrow> request" where
  "received_request r = r\<lparr>req_data := map_option received (req_data r)\<rparr>"

lemmas wire_sizes = byte_size_eq sv_size_def

lemma deref_eq_Inr: "deref p = Inr x \<longleftrightarrow> p = Some x"
  by (cases p) simp_all

lemma cast_eq_Some:
  "cast_response p = Some s \<longleftrightarrow> p = Some (ResponseData s)"
  "cast_send_file p = Some a \<longleftrightarrow> p = Some (SendFileData a)"
  "cast_receive_file p = Some b \<longleftrightarrow> p = Some (ReceiveFileData b)"
  "cast_list_files p = Some c \<longleftrightarrow> p = Some (ListFilesData c)"
  "cast_file_list p = Some d \<longleftrightarrow> p = Some (FileListData d)"
  "cast_data_packet p = Some e \<longleftrightarrow> p = Some (DataPacketData e)"
  "cast_ping p = Some u \<longleftrightarrow> p = Some PingData"
  by (auto elim!: cast_response.elims cast_send_file.elims cast_receive_file.elims
      cast_list_files.elims cast_file_list.elims cast_data_packet.elims cast_ping.elims)

lemma file_list_total:
  "foldl (\<lambda>total file. total + (byte_size (sv_size (fi_path file)) + sv_size (fi_path file) + 1)) acc fs =
     acc + of_nat (length (concat (map format_file_info fs)))"
proof (induction fs arbitrary: acc)
  case (Cons f fs)
  show ?case
    by (simp only: foldl_Cons Cons.IH) (simp add: format_file_info_def wire_sizes)
qed simp

definition delivers :: "request \<Rightarrow> bytes \<Rightarrow> bool" where
  "delivers r m \<longleftrightarrow> (\<exists>p d. m = message_header (req_code r) (req_message_id r) (of_nat (length p)) @ p \<and>
     req_code r \<in> set command_enum \<and> req_data r = Some d \<and>
     (named_codes r \<longrightarrow> addressable p \<longrightarrow> length p < 2 ^ 56 \<longrightarrow>
        get_request_data (req_code r) p = Inr (received d)))"

lemma deliversI:
  assumes "m = message_header (req_code r) (req_message_id r) n @ p" "n = of_nat (length p)"
    and "req_code r \<in> set command_enum" "req_data r = Some d"
    and "named_codes r \<Longrightarrow> addressable p \<Longrightarrow> length p < 2 ^ 56 \<Longrightarrow> get_request_data (req_code r) p = Inr (received d)"
  shows "delivers r m"
  using assms unfolding delivers_def by blast

lemma format_send_file_delivers:
  assumes "format_send_file (req_message_id r) d = Inr m" "req_code r = SEND_FILE" "req_data r = Some (SendFileData d)"
  shows "delivers r m"
proof -
  from assms(1) obtain e where e: "to_epoch (sf_last_updated d) = Inr e"
      "algo_hash_size (sf_hash_algorithm d) = Inr (sv_size (sf_filehash d))"
    by (auto simp: format_send_file_def try_then_eq_Inr)
  let ?p = "varint_bytes (sv_size (sf_filepath d)) @ sf_filepath d @
      [hash_to_char (sf_hash_algorithm d)] @ sf_filehash d @ serialize_u64 e @
      varint_bytes (sf_packet_size d) @ varint_bytes (sf_total_packets d)"
  have m: "m = message_header (req_code r) (req_message_id r)
      (byte_size (sv_size (sf_filepath d)) + sv_size (sf_filepath d) + 1 + sv_size (sf_filehash d) + 8 +
       byte_size (sf_packet_size d) + byte_size (sf_total_packets d)) @ ?p"
    using assms(1) e by (simp add: format_send_file_def Let_def assms(2))
  show ?thesis
  proof (rule deliversI [OF m _ _ assms(3)])
    show "get_request_data (req_code r) ?p = Inr (received (SendFileData d))" if "addressable ?p"
      using send_file_payload [OF e(2,1) that refl] by (simp only: assms(2) get_request_data_def command_code.case)
  qed (simp_all add: wire_sizes assms(2) command_enum_def)
qed

lemma format_file_list_delivers:
  assumes "req_code r = FILE_LIST" "req_data r = Some (FileListData d)"
  shows "delivers r (format_file_list (req_message_id r) d)"
proof (rule deliversI [OF _ _ _ assms(2)])
  show "format_file_list (req_message_id r) d = message_header (req_code r) (req_message_id r)
     (1 + byte_size (fl_packet_id d) + byte_size (of_nat (length (fl_files d))) +
        (0 + of_nat (length (concat (map format_file_info (fl_files d)))))) @
     ([fl_request_id d] @ varint_bytes (fl_packet_id d) @
      varint_bytes (of_nat (length (fl_files d))) @ concat (map format_file_info (fl_files d)))"
    unfolding format_file_list_def file_list_total Let_def by (simp add: assms)
qed (use assms in \<open>auto simp: wire_sizes get_request_data_def command_enum_def named_codes_def intro!: file_list_payload\<close>)

lemma format_request_delivers:
  assumes "format_request r = Inr m"
  shows "delivers r m"
proof -
  note unf = wire_sizes get_request_data_def command_enum_def named_codes_def Let_def
  show ?thesis
  proof (cases "req_code r")
    case RESPONSE
    then show ?thesis using assms
      by (auto simp: format_request_def try_then_eq_Inr deref_eq_Inr cast_eq_Some format_response_def
          unf intro!: deliversI response_payload)
  next
    case SEND_FILE
    then show ?thesis using assms
      by (auto simp: format_request_def try_then_eq_Inr deref_eq_Inr cast_eq_Some intro: format_send_file_delivers)
  next
    case RECEIVE_FILE
    then show ?thesis using assms
      by (auto simp: format_request_def try_then_eq_Inr deref_eq_Inr cast_eq_Some format_receive_file_def
          unf intro!: deliversI receive_file_payload simp del: received.simps)
  next
    case LIST_FILES
    then show ?thesis using assms
      by (auto simp: format_request_def try_then_eq_Inr deref_eq_Inr cast_eq_Some format_list_files_def
          unf intro!: deliversI list_files_payload [unfolded sv_size_def])
  next
    case FILE_LIST
    then show ?thesis using assms
      by (auto simp: format_request_def try_then_eq_Inr deref_eq_Inr cast_eq_Some intro: format_file_list_delivers)
  next
    case PING
    then show ?thesis using assms
      by (auto simp: format_request_def try_then_eq_Inr deref_eq_Inr cast_eq_Some format_ping_def parse_ping_def
          unf intro!: deliversI)
  next
    case DATA_PACKET
    then show ?thesis using assms
      by (auto simp: format_request_def try_then_eq_Inr deref_eq_Inr cast_eq_Some format_data_packet_def
          unf intro!: deliversI data_packet_payload)
  qed (use assms in \<open>simp_all add: format_request_def\<close>)
qed

lemma request_parse_format:
  assumes "format_request r = Inr m" "named_codes r" "length m < 2 ^ 56" "addressable (m @ rest)"
  shows "parse_request (m @ rest) out = Inr (of_nat (length m), received_request r)"
proof -
  from format_request_delivers [OF assms(1)] obtain p d where
    m: "m = message_header (req_code r) (req_message_id r) (of_nat (length p)) @ p"
    and r: "req_code r \<in> set command_enum" "req_data r = Some d"
    and g: "addressable p \<longrightarrow> length p < 2 ^ 56 \<longrightarrow> get_request_data (req_code r) p = Inr (received d)"
    using assms(2) by (auto simp: delivers_def)
  have "length p < 2 ^ 56" "addressable p" using m assms(3) by (simp_all add: addressable_def)
  with g have "get_request_data (req_code r) p = Inr (received d)" by simp
  then show ?thesis
    using parse_request_message [of "req_code r" "req_message_id r" p rest out] assms(4) r \<open>length p < 2 ^ 56\<close>
    by (simp add: m received_request_def)
qed

lemma drain_formatted:
  assumes "list_all2 (\<lambda>r m. format_request r = Inr m \<and> named_codes r \<and> length m < 2 ^ 56) rs ms"
    and "addressable (concat ms)"
  shows "drain parse_request (concat ms) out = Inr (map received_request rs, [])"
  using assms
proof (induction rs ms arbitrary: out rule: list_all2_induct)
  case Nil
  then show ?case
    by (subst drain.simps) (simp add: parse_request_def base_header_size_def sv_size_def)
next
  case (Cons r rs m ms)
  have a: "addressable (m @ concat ms)" using Cons.prems by simp
  then have p: "parse_request (m @ concat ms) out = Inr (of_nat (length m), received_request r)"
    using Cons.hyps(1) by (intro request_parse_format) auto
  have "m \<noteq> []" using format_request_delivers [of r m] Cons.hyps(1)
    by (auto simp: delivers_def message_header_def magic_bytes_def)
  moreover have u: "unat (of_nat (length m) :: u64) = length m"
    using Cons.hyps(1) by (simp add: unat_of_nat take_bit_nat_eq_self)
  ultimately have nz: "(of_nat (length m) :: u64) \<noteq> 0" by (metis length_0_conv unat_0)
  have "addressable (concat ms)" using a by (rule addressable_append [THEN conjunct2])
  then have "drain parse_request (concat ms) (received_request r) = Inr (map received_request rs, [])"
    by (rule Cons.IH)
  with request_frames.drain_step [OF a p nz] u show ?case by simp
qed

end
