(* ===== verification/Protocol_Safety.thy ===== *)
theory Protocol_Safety
  imports Protocol_Roundtrip
begin

unbundle bit_operations_syntax

text \<open>
  What the parser does on input that no formatter produced: messages cut short, and the
  payloads on which it reads out of bounds.
\<close>

section \<open>Messages cut short\<close>

lemma varint_prefix_incomplete:
  assumes "varint_wf bs" "k < length bs"
  shows "parse_loop (take k bs) [] = None"
proof -
  have "set (take k bs) \<subseteq> set (butlast bs)"
    using assms(2) by (simp add: butlast_conv_take set_take_subset_set_take)
  then show ?thesis using assms(1) by (auto simp: parse_loop_None varint_wf_def)
qed

lemma parse_request_short: "addressable raw \<Longrightarrow> length raw < 6 \<Longrightarrow> parse_request raw out = Inr (0, out)"
  by (simp add: parse_request_eq)

lemma parse_request_cut:
  assumes "addressable (message_header c mid (of_nat (length p)) @ p)" "length p < 2 ^ 56"
    and "k < length (message_header c mid (of_nat (length p)) @ p)"
  shows "parse_request (take k (message_header c mid (of_nat (length p)) @ p)) out =
    (if 6 \<le> k \<and> k < length (message_header c mid (of_nat (length p)))
     then Inl (Runtime_error ''MESSAGE_TOO_LONG'') else Inr (0, out))"
proof -
  let ?n = "of_nat (length p) :: u64"
  let ?v = "varint_bytes ?n"
  let ?h = "magic_bytes @ [command_byte c, mid]"
  let ?s = "take k (message_header c mid ?n @ p)"
  have s: "?s = take k (?h @ ?v @ p)" by (simp add: message_header_def)
  have u: "unat ?n = length p" using assms(2) by (simp add: unat_of_nat take_bit_nat_eq_self)
  have vl: "length ?v \<le> 8" by (intro varint_bytes_length_le) (use u assms(2) in simp_all)
  have a: "addressable ?s" using assms(1) by (rule addressable_take)
  consider "k < 6" | "6 \<le> k" "k < 6 + length ?v" | "6 + length ?v \<le> k" by linarith
  then show ?thesis
  proof cases
    case 1
    then have "length ?s < 6" by simp
    with 1 show ?thesis by (simp only: parse_request_short [OF a]) simp
  next
    case 2
    then have e: "?s = ?h @ take (k - 6) ?v" unfolding s by (simp add: take_Cons')
    have "size_field ?s = None"
      unfolding size_field_def e using vl 2 by (simp add: varint_prefix_incomplete [OF varint_bytes_wf])
    moreover have "starts_with ?s magic_bytes" unfolding e by simp
    moreover have "length ?s = k" using assms(3) by simp
    ultimately show ?thesis
      using 2 unfolding parse_request_eq [OF a] by (simp add: message_header_def del: take_append)
  next
    case 3
    then have e: "?s = ?h @ ?v @ take (k - 6 - length ?v) p" unfolding s by (simp add: take_Cons')
    have "size_field ?s = Some ?v"
      unfolding size_field_def e using vl by (simp add: parse_loop_wf varint_bytes_wf)
    moreover have "length ?s = k" using assms(3) by simp
    moreover have "starts_with ?s magic_bytes" unfolding e by simp
    ultimately show ?thesis
      using 3 u assms(3) unfolding parse_request_eq [OF a] by (simp add: message_header_def Let_def del: take_append)
  qed
qed

section \<open>Reads out of bounds\<close>

lemma read_varint_no_UB: "read_varint s \<noteq> Inl Undefined_behaviour"
proof (cases "parse_loop s []")
  case (Some r)
  then obtain out rest where "parse_loop s [] = Some (out, rest)" by (cases r) auto
  from parse_loop_Some [OF this] obtain bs where "varint_wf bs" "s = bs @ rest" by auto
  then show ?thesis by (simp add: read_varint_wf)
qed (simp add: read_varint_def varint_parse_def)

lemma read_varint_addressable:
  "addressable s \<Longrightarrow> read_varint s = Inr (n, rest) \<Longrightarrow> addressable rest"
  by (erule read_varint_Inr) (simp add: addressable_def)

lemmas no_UB = read_varint_no_UB sv_substr_no_UB

lemma bad_request_defined [simp]: "bad_request \<noteq> Undefined_behaviour" "Undefined_behaviour \<noteq> bad_request"
  by (simp_all add: bad_request_def)

lemma read_sized_no_UB: "read_sized p \<noteq> Inl Undefined_behaviour"
  by (auto simp: read_sized_def try_then_eq_Inl no_UB split: prod.splits)

lemma sv_at_0_UB: "addressable s \<Longrightarrow> sv_at s 0 = Inl Undefined_behaviour \<longleftrightarrow> s = []"
  by (cases s) (simp_all add: sv_at_0_Cons)

lemma read_file_info_no_UB:
  assumes a: "addressable p"
  shows "read_file_info p \<noteq> Inl Undefined_behaviour"
proof
  assume "read_file_info p = Inl Undefined_behaviour"
  then obtain n q r where q: "read_varint p = Inr (n, q)" "\<not> sv_size q < n + 1"
      "sv_substr q n npos = Inr r" "sv_at r 0 = Inl Undefined_behaviour"
    by (auto simp: read_file_info_def try_then_eq_Inl no_UB split: prod.splits)
  have aq: "addressable q" using a q(1) by (rule read_varint_addressable)
  with q(3) have r: "unat n \<le> length q" "r = drop (unat n) q" "addressable r" by (auto dest: sv_substr_npos_Inr)
  then have "r = []" using q(4) by (simp add: sv_at_0_UB)
  then have "length q = unat n" using r by simp
  moreover have "length q < 2 ^ 63" using aq by (simp add: addressable_def)
  ultimately have "unat (n + 1) = unat n + 1" by (simp add: unat_word_ariths)
  with q(2) aq \<open>length q = unat n\<close> show False by (simp add: sv_size_less_iff)
qed

lemma read_many_files_no_UB:
  "addressable p \<Longrightarrow> read_many read_file_info n p \<noteq> Inl Undefined_behaviour"
proof (induction n arbitrary: p)
  case (Suc n)
  have "addressable q" if "read_file_info p = Inr (fi, q)" for fi q
    using read_file_info_Inr [OF Suc.prems that] Suc.prems by (auto simp: addressable_def)
  with Suc.IH read_file_info_no_UB [OF Suc.prems] show ?case
    by (auto simp: try_then_eq_Inl split: prod.splits)
qed simp

lemma parse_send_file_UB:
  assumes a: "addressable p" and ub: "parse_send_file p = Inl Undefined_behaviour"
  shows "\<exists>f q. read_sized p = Inr (f, q) \<and>
    (q = [] \<or> (\<exists>k \<le> 64. from_epoch (parse_fold (take 8 (drop (1 + k) q))) = Inl Undefined_behaviour))"
proof -
  have hash: "algo_hash_size h \<noteq> Inl Undefined_behaviour" for h by (cases h) auto
  have p64: "parse_u64 s \<noteq> Inl Undefined_behaviour" for s by (simp add: parse_u64_def)
  from ub obtain f q where q: "read_sized p = Inr (f, q)"
    by (auto simp: parse_send_file_def try_then_eq_Inl read_sized_no_UB split: prod.splits)
  with read_sized_Inr [OF a q] a have aq: "addressable q" by (auto simp: addressable_def)
  show ?thesis
  proof (cases q)
    case (Cons c q')
    with ub q obtain n t s u where t: "algo_hash_size (hash_of_char c) = Inr n"
        "sv_substr q (1 + n) npos = Inr t" "sv_substr t 0 8 = Inr s" "parse_u64 s = Inr u"
        "from_epoch u = Inl Undefined_behaviour"
      by (auto simp: parse_send_file_def Let_def try_then_eq_Inl sv_at_0_Cons [OF aq [unfolded Cons]] hash p64 no_UB
          split: prod.splits)
    have n: "unat n \<le> 64" using t(1) by (rule algo_hash_size_le)
    then have "unat (1 + n) = 1 + unat n" by (simp add: unat_word_ariths)
    with t(2) aq have "t = drop (1 + unat n) q" by (auto dest: sv_substr_npos_Inr)
    moreover have "s = take 8 t" using t(3) by (simp add: sv_substr_def split: if_splits)
    moreover have "u = parse_fold s" using t(4) by (simp add: parse_u64_def split: if_splits)
    ultimately show ?thesis using q t(5) n by auto
  qed (use q in blast)
qed

lemma parse_file_list_UB:
  assumes a: "addressable p" and ub: "parse_file_list p = Inl Undefined_behaviour"
  shows "p = []"
proof (rule ccontr)
  assume "p \<noteq> []"
  then have "sv_at p 0 \<noteq> Inl Undefined_behaviour" using a by (simp add: sv_at_0_UB)
  with ub obtain q n r l t m where q: "sv_substr p 1 npos = Inr q" "read_varint q = Inr (n, r)"
      "read_varint r = Inr (l, t)" "read_many read_file_info m t = Inl Undefined_behaviour"
    by (auto simp: parse_file_list_def try_then_eq_Inl no_UB split: prod.splits)
  from sv_substr_npos_Inr(2) [OF a q(1)] a have "addressable q" by (simp add: addressable_drop)
  then have "addressable r" using q(2) by (rule read_varint_addressable)
  then have "addressable t" using q(3) by (rule read_varint_addressable)
  with q(4) read_many_files_no_UB show False by blast
qed

lemma parse_data_packet_UB:
  "addressable p \<Longrightarrow> parse_data_packet p = Inl Undefined_behaviour \<Longrightarrow> p = []"
  by (auto simp: parse_data_packet_def try_then_eq_Inl no_UB sv_at_0_UB split: prod.splits)

lemma parse_response_no_UB: "addressable p \<Longrightarrow> parse_response p \<noteq> Inl Undefined_behaviour"
  by (cases p) (auto simp: parse_response_def sv_at_0_Cons)

lemma parse_list_files_no_UB: "parse_list_files p \<noteq> Inl Undefined_behaviour"
  by (auto simp: parse_list_files_def try_then_eq_Inl no_UB split: prod.splits)

lemma parse_receive_file_no_UB: "parse_receive_file p \<noteq> Inl Undefined_behaviour"
  by (auto simp: parse_receive_file_def try_then_eq_Inl no_UB read_sized_no_UB split: prod.splits)

lemma get_request_data_UB:
  assumes a: "addressable p" and ub: "get_request_data c p = Inl Undefined_behaviour"
  shows "(p = [] \<and> (c = FILE_LIST \<or> c = DATA_PACKET)) \<or>
    (c = SEND_FILE \<and> (\<exists>f q. read_sized p = Inr (f, q) \<and>
      (q = [] \<or> (\<exists>k \<le> 64. from_epoch (parse_fold (take 8 (drop (1 + k) q))) = Inl Undefined_behaviour))))"
  using parse_send_file_UB [OF a] parse_file_list_UB [OF a] parse_data_packet_UB [OF a]
    parse_response_no_UB [OF a] parse_list_files_no_UB parse_receive_file_no_UB ub
  by (cases c) (simp_all add: get_request_data_def parse_ping_def)

section \<open>Properties\<close>

text \<open>C3: Every request the handler formats is parsed back, whatever bytes follow it: the
  parser consumes exactly the message and returns its command, message id and payload, the
  payload changed only as \<open>received\<close> says.\<close>

theorem request_roundtrip:
  assumes "format_request r = Inr m" "named_codes r" "length m < 2 ^ 56" "addressable (m @ rest)"
  shows "parse_request (m @ rest) out =
    Inr (of_nat (length m), r\<lparr>req_data := map_option received (req_data r)\<rparr>)"
  using request_parse_format [OF assms] by (simp add: received_request_def)

definition sample_packet :: request where
  "sample_packet = \<lparr>req_code = DATA_PACKET,
     req_data = Some (DataPacketData \<lparr>dp_request_id = 3, dp_packet_id = 200, dp_data = [7, 8]\<rparr>),
     req_message_id = 9\<rparr>"

definition sample_message :: bytes where
  "sample_message = [0x46, 0x53, 0x50, 0x5F, 0x42, 9, 6, 3, 0xC8, 0x01, 2, 7, 8]"

lemma sample_formatted: "format_request sample_packet = Inr sample_message"
  by (simp add: format_request_def sample_packet_def format_data_packet_def message_header_def magic_bytes_def
      byte_size_def varint_bytes_unfold varint_digits.simps sv_size_def sample_message_def Let_def)

theorem request_roundtrip_witness:
  "parse_request (sample_message @ [1, 2]) blank_request = Inr (13, sample_packet)"
  using request_roundtrip [OF sample_formatted, of "[1, 2]" blank_request]
  by (simp add: named_codes_def sample_packet_def sample_message_def addressable_def)

text \<open>C11: A stream of formatted requests is cut into exactly those requests, with no byte left
  over.\<close>

theorem request_stream:
  assumes "list_all2 (\<lambda>r m. format_request r = Inr m \<and> named_codes r \<and> length m < 2 ^ 56) rs ms"
    and "addressable (concat ms)"
  shows "drain parse_request (concat ms) out = Inr (map received_request rs, [])"
  using assms by (rule drain_formatted)

theorem request_stream_witness:
  "drain parse_request (sample_message @ sample_message) blank_request = Inr ([sample_packet, sample_packet], [])"
  using request_stream [of "[sample_packet, sample_packet]" "[sample_message, sample_message]" blank_request]
  by (simp add: sample_formatted named_codes_def) (simp add: sample_packet_def sample_message_def addressable_def received_request_def)

text \<open>How the network cuts a stream into reads does not change the messages: what one read
  leaves over, followed by the next read, gives the messages the whole gives. (A read that
  ends inside the size field makes the parser throw instead: \<open>request_cut_short\<close>.)\<close>

theorem request_segmentation:
  assumes "addressable (s @ t)" "drain parse_request s out = Inr (rs, rest)"
    and "drain parse_request (rest @ t) (last (out # rs)) = Inr (rs', rest')"
  shows "drain parse_request (s @ t) out = Inr (rs @ rs', rest')"
  using assms by (rule request_frames.drain_append)

theorem request_segmentation_witness:
  "drain parse_request (take 10 sample_message @ drop 10 sample_message) blank_request = Inr ([sample_packet], [])"
proof -
  have a: "addressable sample_message" "addressable (take 10 sample_message)"
    by (simp_all add: sample_message_def addressable_def)
  have whole: "drain parse_request sample_message blank_request = Inr ([sample_packet], [])"
    using drain_formatted [of "[sample_packet]" "[sample_message]" blank_request] sample_formatted
    by (simp add: named_codes_def) (simp add: sample_packet_def sample_message_def addressable_def received_request_def)
  have p: "parse_request (take 10 sample_message) blank_request = Inr (0, blank_request)"
    using parse_request_cut [of DATA_PACKET 9 "[3, 0xC8, 0x01, 2, 7, 8]" 10 blank_request]
    by (simp add: message_header_def magic_bytes_def varint_bytes_unfold varint_digits.simps
        addressable_def sample_message_def)
  show ?thesis
    using request_segmentation [of "take 10 sample_message" "drop 10 sample_message" blank_request "[]"
        "take 10 sample_message" "[sample_packet]" "[]"]
      a(1) whole request_frames.drain_pending [OF a(2) p]
    by (simp del: take_append)
qed

text \<open>A message cut short at any byte is reported as incomplete, except when the cut falls
  inside the size field: then the parser throws \<open>MESSAGE_TOO_LONG\<close>, as for a size of more
  than eight bytes.\<close>

theorem request_cut_short:
  assumes "format_request r = Inr m" "length m < 2 ^ 56" "k < length m"
  shows "\<exists>size_end. 6 < size_end \<and> size_end \<le> 14 \<and> size_end \<le> length m \<and>
    parse_request (take k m) out =
      (if 6 \<le> k \<and> k < size_end then Inl (Runtime_error ''MESSAGE_TOO_LONG'') else Inr (0, out))"
proof -
  from format_request_delivers [OF assms(1)] obtain p where
    m: "m = message_header (req_code r) (req_message_id r) (of_nat (length p)) @ p"
    by (auto simp: delivers_def)
  have l: "length p < 2 ^ 56" using m assms(2) by simp
  then have "unat (of_nat (length p) :: u64) = length p" by (simp add: unat_of_nat take_bit_nat_eq_self)
  then have "length (varint_bytes (of_nat (length p))) \<le> 8"
    by (intro varint_bytes_length_le) (use l in simp_all)
  moreover have "addressable m" using assms(2) by (simp add: addressable_def)
  ultimately show ?thesis
    using parse_request_cut [of "req_code r" "req_message_id r" p k out] l assms(3) m
    by (intro exI [of _ "length (message_header (req_code r) (req_message_id r) (of_nat (length p)))"])
      (simp add: message_header_def)
qed

theorem request_cut_short_witness:
  "parse_request (take 6 sample_message) blank_request = Inl (Runtime_error ''MESSAGE_TOO_LONG'')"
proof -
  have "length sample_message = 13" by (simp add: sample_message_def)
  with request_cut_short [OF sample_formatted, of 6 blank_request] show ?thesis by auto
qed


definition empty_packet :: bytes where
  "empty_packet = [0x46, 0x53, 0x50, 0x5F, 0x42, 0, 0]"

lemma empty_packet_UB: "parse_request empty_packet out = Inl Undefined_behaviour"
proof -
  have "size_field empty_packet = Some [0]"
    by (simp add: size_field_def empty_packet_def)
  moreover have "addressable empty_packet" by (simp add: addressable_def empty_packet_def)
  ultimately show ?thesis
    by (simp add: parse_request_eq) (simp add: empty_packet_def magic_bytes_def starts_with_def groups_value_def
      get_request_data_def parse_data_packet_def)
qed


text \<open>The date of a \<open>SEND_FILE\<close> does not survive: converting a file time to seconds and
  back always succeeds when the first conversion does, and gives the time in whole seconds plus
  6437664000 seconds.\<close>

theorem file_time_shifted:
  assumes "to_epoch t = Inr e"
  shows "from_epoch e = Inr (trunc_seconds (t + 6437664000 * 10 ^ 9)) \<and>
    (0 \<le> t \<longrightarrow> 6437664000 * 10 ^ 9 - 10 ^ 9 < projr (from_epoch e) - t)"
proof -
  have q: "0 \<le> x \<Longrightarrow> x - 10 ^ 9 < trunc_seconds x" for x :: int
  proof -
    have "x = x div 10 ^ 9 * 10 ^ 9 + x mod 10 ^ 9" "x mod 10 ^ 9 < (10 ^ 9 :: int)" by simp_all
    then show "0 \<le> x \<Longrightarrow> x - 10 ^ 9 < trunc_seconds x" by (simp add: trunc_seconds_def)
  qed
  from q [of "t + 6437664000 * 10 ^ 9"] show ?thesis
    using from_epoch_received [OF assms] by (auto simp: epoch_diff_def)
qed

theorem file_time_shifted_witness:
  "from_epoch (projr (to_epoch 0)) = Inr (6437664000 * 10 ^ 9)"
  using file_time_shifted [of 0 6437664000]
  by (simp add: to_epoch_def checked_i64_def in_i64_def epoch_diff_def trunc_seconds_def)

end
