(* ===== verification/Peer_Base.thy ===== *)
theory Peer_Base
  imports Actions Protocol_Safety
begin

text \<open>
  \<open>source/Peer/PeerBase.cpp\<close>: what the two kinds of peers share, the socket, the identity
  read from the certificate, and the loop that cuts the received bytes into requests.

  The TLS socket and the certificates are CppSockets' and OpenSSL's: a socket is any type
  \<open>'s\<close> with the operations of the record below, each of which may throw and change it.
\<close>

section \<open>Sockets and certificates\<close>

datatype nid = NID_dnQualifier | NID_commonName

text \<open>What the code asks of a certificate; the key is absent when it cannot be written as PEM.\<close>

record peer_cert =
  pc_verify :: bool
  pc_subject_entry :: "nid \<Rightarrow> bytes"
  pc_pubkey_pem :: "bytes option"

record 's socket_ops =
  so_connected :: "'s \<Rightarrow> bool"
  so_read :: "'s \<Rightarrow> bytes result \<times> 's"
  so_write :: "bytes \<Rightarrow> 's \<Rightarrow> unit result \<times> 's"
  so_close :: "'s \<Rightarrow> 's"
  so_peer_cert :: "'s \<Rightarrow> peer_cert option"

section \<open>State and operations\<close>

record 's peer_base =
  pb_socket :: 's
  pb_device_uuid :: bytes
  pb_device_name :: bytes
  pb_public_key :: bytes
  pb_buffer :: bytes

definition pb_write :: "('s, 'w) socket_ops_scheme \<Rightarrow> bytes \<Rightarrow> (('s, 'm) peer_base_scheme, unit) action" where
  "pb_write S message p =
     (case so_write S message (pb_socket p) of (r, s) \<Rightarrow> (r, p\<lparr>pb_socket := s\<rparr>))"

definition pb_read :: "('s, 'w) socket_ops_scheme \<Rightarrow> (('s, 'm) peer_base_scheme, bytes) action" where
  "pb_read S p = (case so_read S (pb_socket p) of (r, s) \<Rightarrow> (r, p\<lparr>pb_socket := s\<rparr>))"

definition pb_disconnect :: "('s, 'w) socket_ops_scheme \<Rightarrow> ('s, 'm) peer_base_scheme \<Rightarrow> ('s, 'm) peer_base_scheme" where
  "pb_disconnect S p = p\<lparr>pb_socket := so_close S (pb_socket p)\<rparr>"

definition read_peer_certificate :: "('s, 'w) socket_ops_scheme \<Rightarrow> (('s, 'm) peer_base_scheme, unit) action" where
  "read_peer_certificate S p =
     (case so_peer_cert S (pb_socket p) of
        None \<Rightarrow> (Inl (Runtime_error ''Peer didn't provide a Certificate''), p)
      | Some cert \<Rightarrow>
          if \<not> pc_verify cert then (Inl (Runtime_error ''Invalid Certificate''), p)
          else
            let device_uuid = pc_subject_entry cert NID_dnQualifier;
                device_name = pc_subject_entry cert NID_commonName in
            (case pc_pubkey_pem cert of
               None \<Rightarrow> (Inl (Runtime_error ''Failed to fetch public key''), p)
             | Some public_key \<Rightarrow>
                 (Inr (), p\<lparr>pb_public_key := public_key, pb_device_uuid := device_uuid,
                            pb_device_name := device_name\<rparr>)))"

text \<open>The constructor from an accepted socket.\<close>

definition peer_base_new :: "('s, 'w) socket_ops_scheme \<Rightarrow> 's \<Rightarrow> 's peer_base result" where
  "peer_base_new S peer =
     try_then (throw_if (\<not> so_connected S peer) (Runtime_error ''Socket is not connected'')) (\<lambda>_.
       case read_peer_certificate S
           \<lparr>pb_socket = peer, pb_device_uuid = [], pb_device_name = [], pb_public_key = [], pb_buffer = []\<rparr> of
         (r, p) \<Rightarrow> try_then r (\<lambda>_. Inr p))"

section \<open>Polling\<close>

text \<open>
  The loop of \<open>poll_requests\<close>. The two virtual functions it calls are arguments; \<open>request\<close>
  is the object that every call of \<open>parse_bytes\<close> writes to. The result is the number of
  bytes used.
\<close>

function poll_loop :: "(bytes \<Rightarrow> request \<Rightarrow> ('p, u64 \<times> request) action) \<Rightarrow> (request \<Rightarrow> ('p, unit) action) \<Rightarrow>
    bytes \<Rightarrow> request \<Rightarrow> u64 \<Rightarrow> ('p, u64) action" where
  "poll_loop parse_bytes authorize_request view request used p =
     (case parse_bytes view request p of
        (Inl e, p) \<Rightarrow> (Inl e, p)
      | (Inr (ret, request), p) \<Rightarrow>
          if ret = 0 then (Inr used, p)
          else
            (case authorize_request request p of
               (Inl e, p) \<Rightarrow> (Inl e, p)
             | (Inr _, p) \<Rightarrow>
                 if sv_size view < ret then (Inl Out_of_range, p)
                 else poll_loop parse_bytes authorize_request (drop (unat ret) view) request (used + ret) p))"
  by pat_completeness auto

termination poll_loop
  by (relation "measure (\<lambda>(parse_bytes, authorize_request, view, request, used, p). length view)")
    (simp_all add: shorter_view del: length_drop)

declare poll_loop.simps [simp del]

definition poll_requests :: "('s, 'w) socket_ops_scheme \<Rightarrow>
    (bytes \<Rightarrow> request \<Rightarrow> (('s, 'm) peer_base_scheme, u64 \<times> request) action) \<Rightarrow>
    (request \<Rightarrow> (('s, 'm) peer_base_scheme, unit) action) \<Rightarrow>
    request \<Rightarrow> (('s, 'm) peer_base_scheme, unit) action" where
  "poll_requests S parse_bytes authorize_request request =
     act_then (act_get (\<lambda>p. so_connected S (pb_socket p))) (\<lambda>connected.
     if \<not> connected then act_return ()
     else
       act_then (pb_read S) (\<lambda>bytes.
       act_then (act_modify (\<lambda>p. p\<lparr>pb_buffer := pb_buffer p @ bytes\<rparr>)) (\<lambda>_.
       act_then (act_get pb_buffer) (\<lambda>view.
       if view = [] then act_return ()
       else
         act_then (poll_loop parse_bytes authorize_request view request 0) (\<lambda>used.
         act_then (act_get pb_buffer) (\<lambda>buffer.
         act_then (act_lift (sv_substr buffer used npos)) (\<lambda>buffer.
         act_modify (\<lambda>p. p\<lparr>pb_buffer := buffer\<rparr>))))))))"

section \<open>What polling does\<close>

text \<open>The handler called on each of a list of requests, up to the first that throws.\<close>

primrec act_each :: "('a \<Rightarrow> ('p, unit) action) \<Rightarrow> 'a list \<Rightarrow> ('p, unit) action" where
  "act_each f [] = act_return ()"
| "act_each f (x # xs) = act_then (f x) (\<lambda>_. act_each f xs)"

lemma act_each_keeps: "(\<And>x. act_keeps I (f x)) \<Longrightarrow> act_keeps I (act_each f xs)"
  by (induction xs) (auto intro: act_keeps_intros)

context frame_parser begin

lemma poll_loop_drain:
  "addressable view \<Longrightarrow> drain parse view out = Inr (rs, rest) \<Longrightarrow>
     poll_loop (\<lambda>v r. act_lift (parse v r)) authorize view out used p =
       act_then (act_each authorize rs)
         (\<lambda>_. act_return (used + of_nat (length view - length rest))) p"
proof (induction "length view" arbitrary: view out rs used p rule: less_induct)
  case less
  from less.prems show ?case
  proof (cases rule: drain_cases)
    case pending
    then show ?thesis by (subst poll_loop.simps) (simp add: act_simps)
  next
    case (message n r rs')
    note a = addressable_drop [OF less.prems(1), of "unat n"]
    have n: "unat n \<le> length view" using parse_bound [OF less.prems(1) message(1)] .
    obtain u where "drop (unat n) view = u @ rest" using drain_suffix [OF a message(4)] by auto
    then have l: "unat n + length rest \<le> length view" by (metis n le_diff_conv2 length_append length_drop le_add2 add.commute)
    have "of_nat (length view - length rest) = (of_nat (unat n + (length view - unat n - length rest)) :: u64)"
      using l by (intro arg_cong [where f = of_nat]) linarith
    then have "of_nat (length view - length rest) = n + of_nat (length view - unat n - length rest)"
      by simp
    then have e: "used + n + of_nat (length (drop (unat n) view) - length rest) =
        used + of_nat (length view - length rest)" by simp
    show ?thesis
    proof (cases "authorize r p")
      case (Pair res q)
      show ?thesis
      proof (cases res)
        case (Inl err)
        then show ?thesis using message Pair
          by (subst poll_loop.simps) (simp add: act_simps act_then_def)
      next
        case (Inr x)
        have "poll_loop (\<lambda>v r. act_lift (parse v r)) authorize view out used p =
            poll_loop (\<lambda>v r. act_lift (parse v r)) authorize (drop (unat n) view) r (used + n) q"
          using message(1,2) Pair Inr parse_in_range [OF less.prems(1) message(1)]
          by (subst poll_loop.simps) (simp add: act_simps)
        also have "\<dots> = act_then (act_each authorize rs')
            (\<lambda>_. act_return (used + of_nat (length view - length rest))) q"
          by (simp only: less.hyps [OF message(5) a message(4)] e)
        finally show ?thesis
          using message(3) Pair Inr by (simp add: act_then_assoc act_then_eval)
      qed
    qed
  qed
qed

end

definition keeps_buffer :: "(('s, 'm) peer_base_scheme, 'a) action \<Rightarrow> bool" where
  "keeps_buffer m \<longleftrightarrow> (\<forall>p. pb_buffer (snd (m p)) = pb_buffer p)"

lemma keeps_buffer_iff: "keeps_buffer m \<longleftrightarrow> (\<forall>b. act_keeps (\<lambda>p. pb_buffer p = b) m)"
  by (simp add: keeps_buffer_def act_keeps_def)

lemma keeps_buffer_each: "(\<And>x. keeps_buffer (f x)) \<Longrightarrow> keeps_buffer (act_each f xs)"
  by (simp add: keeps_buffer_iff act_each_keeps)

lemma keeps_bufferD: "keeps_buffer m \<Longrightarrow> m p = (r, q) \<Longrightarrow> pb_buffer q = pb_buffer p"
  by (metis keeps_buffer_def snd_conv)

lemma poll_requests_read:
  assumes "so_connected S (pb_socket p)" "so_read S (pb_socket p) = (Inr new, s)" "pb_buffer p @ new \<noteq> []"
  shows "poll_requests S parse authorize out p =
    act_then (poll_loop parse authorize (pb_buffer p @ new) out 0) (\<lambda>used.
       act_then (act_get pb_buffer) (\<lambda>buffer.
       act_then (act_lift (sv_substr buffer used npos)) (\<lambda>buffer.
       act_modify (\<lambda>p. p\<lparr>pb_buffer := buffer\<rparr>)))) (p\<lparr>pb_socket := s, pb_buffer := pb_buffer p @ new\<rparr>)"
  using assms by (auto simp: poll_requests_def act_simps act_then_def pb_read_def)

context frame_parser begin

lemma poll_requests_drain:
  assumes "so_connected S (pb_socket p)" "so_read S (pb_socket p) = (Inr new, s)"
    and a: "addressable (pb_buffer p @ new)"
    and d: "drain parse (pb_buffer p @ new) out = Inr (rs, rest)"
    and k: "\<And>r. keeps_buffer (authorize r)"
  shows "poll_requests S (\<lambda>v r. act_lift (parse v r)) authorize out p =
    act_then (act_each authorize rs) (\<lambda>_. act_modify (\<lambda>p. p\<lparr>pb_buffer := rest\<rparr>))
      (p\<lparr>pb_socket := s, pb_buffer := pb_buffer p @ new\<rparr>)"
proof -
  let ?b = "pb_buffer p @ new" and ?p = "p\<lparr>pb_socket := s, pb_buffer := pb_buffer p @ new\<rparr>"
  obtain u where u: "?b = u @ rest" using drain_suffix [OF a d] by auto
  then have len: "length ?b - length rest = length u" by (metis add_diff_cancel_right' length_append)
  from a u have "length u < 2 ^ 64" unfolding addressable_def by simp
  then have un: "unat (of_nat (length u) :: u64) = length u" by (rule unat_of_nat_u64)
  have sub: "sv_substr ?b (of_nat (length u)) npos = Inr rest"
    using a unfolding u by (rule sv_substr_append(1)) (rule un)
  show ?thesis
  proof (cases "?b = []")
    case True
    then have "u = []" "rest = []" using u by auto
    moreover have "rs = []"
      by (rule drain_cases [OF a d]) (use True in simp_all)
    ultimately show ?thesis using assms(1,2) True
      by (simp add: poll_requests_def act_simps act_then_def pb_read_def)
  next
    case False
    note poll_requests_read [OF assms(1,2) False, of "\<lambda>v r. act_lift (parse v r)" authorize out]
    then show ?thesis
      using sub len keeps_bufferD [OF keeps_buffer_each [where f = authorize and xs = rs, OF k], of ?p]
      by (simp add: act_then_def poll_loop_drain [OF a d] act_simps split: prod.split sum.split)
  qed
qed

text \<open>The same for one run, when the handler has left the buffer alone in it.\<close>

lemma poll_requests_run:
  assumes c: "so_connected S (pb_socket p)" "so_read S (pb_socket p) = (Inr new, s)"
    and a: "addressable (pb_buffer p @ new)"
    and d: "drain parse (pb_buffer p @ new) out = Inr (rs, rest)"
    and r: "act_each authorize rs (p\<lparr>pb_socket := s, pb_buffer := pb_buffer p @ new\<rparr>) = (Inr (), q)"
    and b: "pb_buffer q = pb_buffer p @ new"
  shows "poll_requests S (\<lambda>v r. act_lift (parse v r)) authorize out p = (Inr (), q\<lparr>pb_buffer := rest\<rparr>)"
proof (cases "pb_buffer p @ new = []")
  case True
  then have "rs = []" "rest = []" by (rule_tac drain_cases [OF a d]; simp)+
  with True c r b show ?thesis
    by (cases p) (auto simp: poll_requests_def act_simps act_then_def pb_read_def)
next
  case False
  obtain u where u: "pb_buffer p @ new = u @ rest" using drain_suffix [OF a d] by auto
  have "length u < 2 ^ 64" using a u unfolding addressable_def by simp
  then have "unat (of_nat (length u) :: u64) = length u" by (rule unat_of_nat_u64)
  with a have "sv_substr (u @ rest) (of_nat (length u)) npos = Inr rest" unfolding u by (rule sv_substr_append(1))
  moreover have l: "length (pb_buffer p @ new) - length rest = length u" by (simp add: u)
  moreover note poll_requests_read [OF c False, of "\<lambda>v r. act_lift (parse v r)" authorize out]
  ultimately show ?thesis
    using r b by (simp add: act_then_def poll_loop_drain [OF a d] act_simps l) (simp add: u act_simps)
qed

end

section \<open>A socket for the examples\<close>

text \<open>A tape of reads to come and a log of what was written.\<close>

record tape =
  tp_in :: "bytes list"
  tp_out :: "bytes list"
  tp_open :: bool

definition tape_ops :: "tape socket_ops" where
  "tape_ops = \<lparr>so_connected = tp_open,
     so_read = (\<lambda>t. case tp_in t of [] \<Rightarrow> (Inr [], t) | b # bs \<Rightarrow> (Inr b, t\<lparr>tp_in := bs\<rparr>)),
     so_write = (\<lambda>m t. if tp_open t then (Inr (), t\<lparr>tp_out := tp_out t @ [m]\<rparr>)
       else (Inl (Runtime_error ''closed''), t)),
     so_close = (\<lambda>t. t\<lparr>tp_open := False\<rparr>),
     so_peer_cert = (\<lambda>t. Some \<lparr>pc_verify = True, pc_subject_entry = (\<lambda>n. [1]), pc_pubkey_pem = Some [2]\<rparr>)\<rparr>"

definition tape_peer :: "bytes \<Rightarrow> bytes list \<Rightarrow> tape peer_base" where
  "tape_peer buffer reads = \<lparr>pb_socket = \<lparr>tp_in = reads, tp_out = [], tp_open = True\<rparr>, pb_device_uuid = [1],
     pb_device_name = [1], pb_public_key = [2], pb_buffer = buffer\<rparr>"

lemma keeps_buffer_write [simp]: "keeps_buffer (pb_write S m)"
  by (simp add: keeps_buffer_def pb_write_def split: prod.split)

section \<open>Invariants and parsers that depend on the state\<close>

lemma act_keeps_write: "(\<And>p s. I p \<Longrightarrow> I (p\<lparr>pb_socket := s\<rparr>)) \<Longrightarrow> act_keeps I (pb_write S m)"
  by (simp add: act_keeps_def pb_write_def split: prod.split)

lemma act_keeps_read: "(\<And>p s. I p \<Longrightarrow> I (p\<lparr>pb_socket := s\<rparr>)) \<Longrightarrow> act_keeps I (pb_read S)"
  by (simp add: act_keeps_def pb_read_def split: prod.split)

lemma act_keepsD: "act_keeps I m \<Longrightarrow> m p = (r, q) \<Longrightarrow> I p \<Longrightarrow> I q"
  unfolding act_keeps_def by (metis snd_conv)

lemma poll_loop_step:
  "poll_loop parse_bytes authorize view request used =
     act_then (parse_bytes view request) (\<lambda>(ret, request).
       if ret = 0 then act_return used
       else act_then (authorize request) (\<lambda>_.
         if sv_size view < ret then act_lift (Inl Out_of_range)
         else poll_loop parse_bytes authorize (drop (unat ret) view) request (used + ret)))"
  by (rule ext, subst poll_loop.simps) (auto simp: act_then_def act_simps split: prod.split sum.split)

lemma poll_loop_keeps:
  assumes "\<And>v r. act_keeps I (parse_bytes v r)"
    and "\<And>v r p n r' q. parse_bytes v r p = (Inr (n, r'), q) \<Longrightarrow> n \<noteq> 0 \<Longrightarrow> act_keeps I (authorize r')"
  shows "act_keeps I (poll_loop parse_bytes authorize view out used)"
proof (induction "length view" arbitrary: view out used rule: less_induct)
  case less
  note IH = less [OF shorter_view]
  show ?case
    by (subst poll_loop_step)
      (rule act_keeps_then_value, rule assms, auto intro!: act_keeps_intros IH intro: assms(2))
qed

lemma poll_requests_keeps:
  assumes "\<And>v r. act_keeps I (parse_bytes v r)"
    and "\<And>v r p n r' q. parse_bytes v r p = (Inr (n, r'), q) \<Longrightarrow> n \<noteq> 0 \<Longrightarrow> act_keeps I (authorize r')"
    and s: "\<And>p s. I p \<Longrightarrow> I (p\<lparr>pb_socket := s\<rparr>)" "\<And>p b. I p \<Longrightarrow> I (p\<lparr>pb_buffer := b\<rparr>)"
  shows "act_keeps I (poll_requests S parse_bytes authorize out)"
  unfolding poll_requests_def
  by (auto intro!: act_keeps_intros act_keeps_read poll_loop_keeps assms(1,3,4)) (rule assms(2))

lemma act_then_cong:
  assumes "m p = m' p" "act_keeps I m'" "I p" "\<And>a q. I q \<Longrightarrow> f a q = f' a q"
  shows "act_then m f p = act_then m' f' p"
  using assms act_keepsD [OF assms(2), of p] by (auto simp: act_then_def split: prod.split sum.split)

lemma poll_loop_cong:
  assumes "\<And>v r p. I p \<Longrightarrow> parse_bytes v r p = parse_bytes' v r p"
    "\<And>r p. I p \<Longrightarrow> authorize r p = authorize' r p"
    and "\<And>v r. act_keeps I (parse_bytes' v r)" "\<And>r. act_keeps I (authorize' r)"
  shows "I p \<Longrightarrow> poll_loop parse_bytes authorize view out used p = poll_loop parse_bytes' authorize' view out used p"
proof (induction "length view" arbitrary: view out used p rule: less_induct)
  case less
  note IH = less.hyps [OF shorter_view]
  show ?case
    by (subst poll_loop_step [of parse_bytes authorize view out used],
        subst poll_loop_step [of parse_bytes' authorize' view out used], rule act_then_cong [where I = I])
      (auto simp: assms less.prems IH intro!: act_then_cong [where I = I])
qed

lemma poll_requests_cong:
  assumes "\<And>v r p. I p \<Longrightarrow> parse_bytes v r p = parse_bytes' v r p"
    "\<And>r p. I p \<Longrightarrow> authorize r p = authorize' r p"
    and "\<And>v r. act_keeps I (parse_bytes' v r)" "\<And>r. act_keeps I (authorize' r)"
    and s: "\<And>p s. I p \<Longrightarrow> I (p\<lparr>pb_socket := s\<rparr>)" "\<And>p b. I p \<Longrightarrow> I (p\<lparr>pb_buffer := b\<rparr>)"
    and "I p"
  shows "poll_requests S parse_bytes authorize out p = poll_requests S parse_bytes' authorize' out p"
proof -
  note c = poll_loop_cong [where I = I and parse_bytes = parse_bytes and authorize = authorize, OF assms(1-4)]
  show ?thesis using assms(7)
    by (auto simp: poll_requests_def act_then_def act_simps pb_read_def s c split: prod.split sum.split)
qed

end
