(* ===== verification/Pre_Auth_Peer.thy ===== *)
theory Pre_Auth_Peer
  imports Peer_Base
begin

text \<open>
  \<open>source/Peer/PreAuthPeer.cpp\<close>: a peer until it is trusted. It negotiates the protocol
  version, and until it is promoted its requests are refused.
\<close>

section \<open>State and operations\<close>

datatype pre_auth_type = CLIENT | SERVER

record 's pre_auth_peer = "'s peer_base" +
  pa_type :: pre_auth_type
  pa_protocol :: "protocol option"
  pa_first_extra_request :: bool

definition pre_auth_peer_new :: "('s, 'w) socket_ops_scheme \<Rightarrow> 's \<Rightarrow> pre_auth_type \<Rightarrow> 's pre_auth_peer result" where
  "pre_auth_peer_new S peer type =
     try_then (peer_base_new S peer) (\<lambda>b. Inr (peer_base.extend b (pre_auth_peer.fields type None True)))"

definition do_client_hello :: "('s, 'w) socket_ops_scheme \<Rightarrow> ('s pre_auth_peer, unit) action" where
  "do_client_hello S = pb_write S format_client_version_list"

definition pa_get_protocol :: "'s pre_auth_peer \<Rightarrow> protocol result" where
  "pa_get_protocol p =
     (case pa_protocol p of
        Some protocol \<Rightarrow> Inr protocol
      | None \<Rightarrow> Inl (Runtime_error ''PreAuthPeer hasn't negociated a Protocol yet''))"

definition has_protocol :: "'s pre_auth_peer \<Rightarrow> bool" where
  "has_protocol p \<longleftrightarrow> pa_protocol p \<noteq> None"

text \<open>\<open>handler().parse_request\<close> and \<open>handler().format_response\<close>, of the one handler there is.\<close>

definition handler_parse_request :: "protocol \<Rightarrow> bytes \<Rightarrow> request \<Rightarrow> (u64 \<times> request) result" where
  "handler_parse_request protocol raw_msg out =
     try_then (deref (p_handler protocol)) (\<lambda>h. case h of Handler_v0_0_0 \<Rightarrow> parse_request raw_msg out)"

definition handler_format_response :: "protocol \<Rightarrow> byte \<Rightarrow> status_code \<Rightarrow> bytes result" where
  "handler_format_response protocol message_id status =
     try_then (deref (p_handler protocol)) (\<lambda>h. case h of Handler_v0_0_0 \<Rightarrow> Inr (format_response message_id status))"

text \<open>
  When the parser throws, the handler of the exception closes the socket, and then the function
  returns \<open>ret\<close>, which nothing was assigned to.
\<close>

definition pa_parse_bytes :: "('s, 'w) socket_ops_scheme \<Rightarrow> bytes \<Rightarrow> request \<Rightarrow> ('s pre_auth_peer, u64 \<times> request) action" where
  "pa_parse_bytes S raw_msg out p =
     (case pa_protocol p of
        Some protocol \<Rightarrow>
          if pa_first_extra_request p then (Inr (0, out), p\<lparr>pa_first_extra_request := False\<rparr>)
          else (handler_parse_request protocol raw_msg out, p)
      | None \<Rightarrow>
          act_try
            (act_lift (if pa_type p = CLIENT then parse_server_version raw_msg out
                       else parse_client_version raw_msg out))
            (\<lambda>e. act_then (act_modify (pb_disconnect S)) (\<lambda>_. act_lift (Inl Undefined_behaviour))) p)"

text \<open>\<open>std::ranges::max\<close>: the first of the greatest.\<close>

fun max_version :: "version \<Rightarrow> version list \<Rightarrow> version" where
  "max_version v [] = v"
| "max_version v (w # vs) = max_version (if version_compare v w = Less then w else v) vs"

definition pa_authorize_request :: "('s, 'w) socket_ops_scheme \<Rightarrow> request \<Rightarrow> ('s pre_auth_peer, unit) action" where
  "pa_authorize_request S request p =
     (case pa_protocol p of
        Some protocol \<Rightarrow>
          act_then (act_lift (handler_format_response protocol (req_message_id request) UNAUTHORIZED)) (pb_write S) p
      | None \<Rightarrow>
          (case req_code request of
             SUPPORTED_VERSIONS \<Rightarrow>
               act_then (act_lift (deref (cast_supported_versions (req_data request)))) (\<lambda>versions.
               case filter version_known versions of
                 [] \<Rightarrow> act_modify (pb_disconnect S)
               | v # vs \<Rightarrow>
                   let version = max_version v vs in
                   act_then (act_lift (mk_protocol version)) (\<lambda>protocol.
                   act_then (act_modify (\<lambda>p. p\<lparr>pa_protocol := Some protocol\<rparr>)) (\<lambda>_.
                   pb_write S (format_server_selected_version version)))) p
           | SELECTED_VERSION \<Rightarrow>
               act_then (act_lift (deref (cast_selected_version (req_data request)))) (\<lambda>version.
               if \<not> version_known version then act_modify (pb_disconnect S)
               else
                 act_then (act_lift (mk_protocol version)) (\<lambda>protocol.
                 act_modify (\<lambda>p. p\<lparr>pa_protocol := Some protocol\<rparr>))) p
           | _ \<Rightarrow> act_modify (pb_disconnect S) p))"

definition pa_poll_requests :: "('s, 'w) socket_ops_scheme \<Rightarrow> request \<Rightarrow> ('s pre_auth_peer, unit) action" where
  "pa_poll_requests S = poll_requests S (pa_parse_bytes S) (pa_authorize_request S)"

section \<open>The protocol of a peer\<close>

lemma known_mk_protocol:
  "version_known v \<Longrightarrow> v = mk_version (v_number v) \<Longrightarrow> mk_protocol v = Inr \<lparr>p_version = v, p_handler = Some Handler_v0_0_0\<rparr>"
proof -
  assume "version_known v" "v = mk_version (v_number v)"
  then have "v = mk_version 0" by (simp add: version_known_def version_names_def)
  then show ?thesis
    by (simp add: mk_protocol_def set_version_def protocol_list_def version_compare_def parts_list_def mk_version_def)
qed

text \<open>The one protocol both sides can end up with.\<close>

definition protocol_v0 :: protocol where
  "protocol_v0 = \<lparr>p_version = mk_version 0, p_handler = Some Handler_v0_0_0\<rparr>"

lemma mk_protocol_v0: "mk_protocol (mk_version 0) = Inr protocol_v0"
  using known_mk_protocol [of "mk_version 0"]
  by (simp add: protocol_v0_def version_known_def version_names_def mk_version_def)

lemma mk_protocol_Inr:
  "mk_protocol v = Inr protocol \<Longrightarrow> p_version protocol = v \<and> p_handler protocol = Some Handler_v0_0_0"
  by (auto simp: mk_protocol_def set_version_def protocol_list_def split: if_splits)

lemma max_version_in: "max_version v vs \<in> set (v # vs)"
  by (induction v vs rule: max_version.induct) auto

lemma filter_known_max:
  assumes "filter version_known versions = v # vs"
  shows "version_known (max_version v vs)"
proof -
  have "max_version v vs \<in> set (filter version_known versions)"
    using max_version_in [of v vs] by (simp only: assms)
  then show ?thesis by simp
qed

text \<open>What no step of a peer changes, and how its protocol may change.\<close>

definition protocol_ok :: "protocol \<Rightarrow> bool" where
  "protocol_ok protocol \<longleftrightarrow> version_known (p_version protocol) \<and> p_handler protocol = Some Handler_v0_0_0"

definition pa_follows :: "'s pre_auth_peer \<Rightarrow> 's pre_auth_peer \<Rightarrow> bool" where
  "pa_follows p q \<longleftrightarrow>
     pb_device_uuid q = pb_device_uuid p \<and> pb_device_name q = pb_device_name p \<and>
     pb_public_key q = pb_public_key p \<and> pa_type q = pa_type p \<and>
     (case pa_protocol p of Some protocol \<Rightarrow> pa_protocol q = Some protocol
      | None \<Rightarrow> pred_option protocol_ok (pa_protocol q))"

lemma pa_follows_refl [simp]: "pa_follows p p"
  by (simp add: pa_follows_def split: option.split)

lemma pa_follows_updates [simp]:
  "pa_follows p (q\<lparr>pb_socket := s\<rparr>) = pa_follows p q"
  "pa_follows p (q\<lparr>pb_buffer := b\<rparr>) = pa_follows p q"
  "pa_follows p (q\<lparr>pa_first_extra_request := f\<rparr>) = pa_follows p q"
  by (simp_all add: pa_follows_def split: option.split)

lemma pa_follows_protocol:
  "pa_follows p q \<Longrightarrow> pa_protocol q = None \<Longrightarrow> protocol_ok pr \<Longrightarrow> pa_follows p (q\<lparr>pa_protocol := Some pr\<rparr>)"
  by (auto simp: pa_follows_def split: option.splits)

lemma pa_parse_keeps: "act_keeps (pa_follows p) (pa_parse_bytes S raw out)"
  by (auto simp: act_keeps_def pa_parse_bytes_def act_try_def act_catch_def act_then_def act_simps pb_disconnect_def
      split: option.split sum.split prod.split if_split)

lemma pa_follows_write: "pb_write S m q = (r, q') \<Longrightarrow> pa_follows p q' = pa_follows p (q :: 's pre_auth_peer)"
  by (auto simp: pb_write_def split: prod.splits)

lemma pa_select_keeps:
  assumes "pa_follows p q" "pa_protocol q = None" "version_known v"
  shows "pa_follows p (snd (act_then (act_lift (mk_protocol v)) (\<lambda>protocol.
    act_modify (\<lambda>p. p\<lparr>pa_protocol := Some protocol\<rparr>)) q))"
  using assms by (cases "mk_protocol v")
    (auto simp: act_then_def act_simps protocol_ok_def dest!: mk_protocol_Inr intro!: pa_follows_protocol)

lemma pa_authorize_keeps: "act_keeps (pa_follows p) (pa_authorize_request S request)"
  unfolding act_keeps_def
proof (intro allI impI)
  fix q :: "'a pre_auth_peer" assume f: "pa_follows p q"
  show "pa_follows p (snd (pa_authorize_request S request q))"
  proof (cases "pa_protocol q")
    case (Some pr)
    with f show ?thesis
      by (auto simp: pa_authorize_request_def act_then_def act_simps pa_follows_write split: sum.split prod.split)
        (metis pa_follows_write prod.collapse)
  next
    case None
    note sel = pa_select_keeps [OF f None]
    have close: "pa_follows p (snd (act_modify (pb_disconnect S) q))"
      using f by (simp add: act_simps pb_disconnect_def)
    have sup: "pa_follows p (snd (act_then (act_lift (mk_protocol v)) (\<lambda>protocol.
        act_then (act_modify (\<lambda>p. p\<lparr>pa_protocol := Some protocol\<rparr>)) (\<lambda>_. pb_write S m)) q))"
      if "version_known v" for v m
      using sel [OF that] f
      by (cases "mk_protocol v") (auto simp: act_then_def act_simps pb_write_def split: prod.split)
    show ?thesis
    proof (cases "req_code request = SUPPORTED_VERSIONS \<or> req_code request = SELECTED_VERSION")
      case True
      then show ?thesis
        using None f close sel sup
        by (cases "cast_supported_versions (req_data request)"; cases "cast_selected_version (req_data request)")
          (auto simp: pa_authorize_request_def act_then_eval act_lift_def [abs_def] Let_def filter_known_max split: list.split)
    next
      case False
      then show ?thesis
        using None close by (simp add: pa_authorize_request_def split: command_code.split)
    qed
  qed
qed

section \<open>Polling\<close>

lemma pa_poll_keeps: "act_keeps (pa_follows p) (pa_poll_requests S out)"
  unfolding pa_poll_requests_def
  by (rule poll_requests_keeps) (auto intro: pa_parse_keeps pa_authorize_keeps)

text \<open>C23: Whatever bytes a peer sends before it is trusted, and however a poll ends, the identity
  read from its certificate and its role stay, a protocol that was agreed on stays, and one that
  is agreed on is a version the library knows, with its handler.\<close>

theorem pre_auth_protocol_fixed:
  assumes "pa_poll_requests S out p = (r, q)"
  shows "pb_public_key q = pb_public_key p \<and> pb_device_uuid q = pb_device_uuid p \<and> pa_type q = pa_type p \<and>
    (\<forall>pr. pa_protocol p = Some pr \<longrightarrow> pa_protocol q = Some pr) \<and>
    (\<forall>pr. pa_protocol p = None \<and> pa_protocol q = Some pr \<longrightarrow>
      version_known (p_version pr) \<and> p_handler pr = Some Handler_v0_0_0)"
proof -
  have "pa_follows p q"
    using act_keepsD [OF pa_poll_keeps assms pa_follows_refl] .
  then show ?thesis
    by (auto simp: pa_follows_def protocol_ok_def split: option.splits)
qed

text \<open>A waiting peer: the protocol is chosen and its one chance to be promoted is used.\<close>

definition waiting :: "'s pre_auth_peer \<Rightarrow> bool" where
  "waiting p \<longleftrightarrow> (\<exists>pr. pa_protocol p = Some pr \<and> p_handler pr = Some Handler_v0_0_0) \<and> \<not> pa_first_extra_request p"

definition refuse :: "('s, 'w) socket_ops_scheme \<Rightarrow> request \<Rightarrow> ('s pre_auth_peer, unit) action" where
  "refuse S request = pb_write S (format_response (req_message_id request) UNAUTHORIZED)"

lemma waiting_updates [simp]: "waiting (p\<lparr>pb_socket := s\<rparr>) = waiting p" "waiting (p\<lparr>pb_buffer := b\<rparr>) = waiting p"
  by (simp_all add: waiting_def)

lemma waiting_poll:
  assumes "waiting p"
  shows "pa_poll_requests S out p = poll_requests S (\<lambda>v r. act_lift (parse_request v r)) (refuse S) out p"
  unfolding pa_poll_requests_def
proof (rule poll_requests_cong [where I = waiting])
  show "pa_parse_bytes S v r p = act_lift (parse_request v r) p" if "waiting p" for v r p
    using that by (auto simp: waiting_def pa_parse_bytes_def handler_parse_request_def act_simps)
  show "pa_authorize_request S r p = refuse S r p" if "waiting p" for r p
    using that by (auto simp: waiting_def pa_authorize_request_def handler_format_response_def refuse_def act_then_def act_simps)
  show "act_keeps waiting (refuse S r)" for r
    unfolding refuse_def by (rule act_keeps_write) simp
qed (use assms in \<open>simp_all add: act_keeps_basic\<close>)

text \<open>C15: A peer that waits for authorization is refused everything: a poll answers each complete
  request of what has arrived with \<open>UNAUTHORIZED\<close>, in order, keeps the incomplete rest, and does
  nothing else.\<close>

theorem pre_auth_refuses:
  assumes "pa_protocol p = Some pr" "p_handler pr = Some Handler_v0_0_0" "\<not> pa_first_extra_request p"
    and "so_connected S (pb_socket p)" "so_read S (pb_socket p) = (Inr new, s)"
    and "addressable (pb_buffer p @ new)"
    and "drain parse_request (pb_buffer p @ new) out = Inr (rs, rest)"
  shows "pa_poll_requests S out p =
    act_then (act_each (\<lambda>r. pb_write S (format_response (req_message_id r) UNAUTHORIZED)) rs)
      (\<lambda>_. act_modify (\<lambda>p. p\<lparr>pb_buffer := rest\<rparr>)) (p\<lparr>pb_socket := s, pb_buffer := pb_buffer p @ new\<rparr>)"
proof -
  have "waiting p" using assms(1-3) by (simp add: waiting_def)
  moreover have "keeps_buffer (refuse S r)" for r by (simp add: refuse_def)
  ultimately show ?thesis
    using waiting_poll [of p S out] request_frames.poll_requests_drain [where authorize = "refuse S", OF assms(4-7)]
    by (simp add: refuse_def [abs_def])
qed

section \<open>The handshake\<close>

lemma poll_one_message:
  assumes "so_connected S (pb_socket p)" "so_read S (pb_socket p) = (Inr new, s)"
    and view: "pb_buffer p @ new = m @ extra" "addressable (m @ extra)" "m \<noteq> []"
    and first: "parse_bytes (m @ extra) out (p\<lparr>pb_socket := s, pb_buffer := m @ extra\<rparr>) = (Inr (n, r), p1)"
      "unat n = length m"
    and a: "authorize r p1 = (Inr (), p2)" "parse_bytes extra r p2 = (Inr (0, r'), p3)"
    and b: "pb_buffer p3 = m @ extra"
  shows "poll_requests S parse_bytes authorize out p = (Inr (), p3\<lparr>pb_buffer := extra\<rparr>)"
proof -
  have n: "n \<noteq> 0" "\<not> sv_size (m @ extra) < n" "drop (unat n) (m @ extra) = extra"
    using view first(2) by (auto simp: sv_size_less_iff)
  have "poll_loop parse_bytes authorize extra r n p2 = (Inr n, p3)"
    by (subst poll_loop_step) (simp add: act_then_def a act_simps)
  then have "poll_loop parse_bytes authorize (m @ extra) out 0 (p\<lparr>pb_socket := s, pb_buffer := m @ extra\<rparr>) = (Inr n, p3)"
    by (subst poll_loop_step) (simp add: act_then_def first a(1) n(1,2))
  moreover have "pb_buffer p \<noteq> [] \<or> new \<noteq> []" using view(1,3) by auto
  ultimately show ?thesis
    using assms(1,2) view(3) sv_substr_append(1) [OF view(2) first(2)] b
    by (auto simp: poll_requests_def act_then_def act_simps pb_read_def view(1))
qed

lemma version_zero_known: "version_known (mk_version 0)"
  by (simp add: version_known_def version_names_def mk_version_def)

lemma wire_version_zero: "wire_version 0 = 0"
  by (simp add: wire_version_def)

lemma client_takes_version:
  assumes "pa_type c = CLIENT" "pa_protocol c = None" "pa_first_extra_request c"
    and "so_connected S (pb_socket c)" "so_read S (pb_socket c) = (Inr new', t)"
    and "pb_buffer c @ new' = format_server_selected_version (mk_version 0) @ extra'"
    and "addressable (format_server_selected_version (mk_version 0) @ extra')"
  shows "pa_poll_requests S out c = (Inr (), c\<lparr>pb_socket := t, pb_buffer := extra',
      pa_protocol := Some protocol_v0, pa_first_extra_request := False\<rparr>)"
proof -
  let ?m = "format_server_selected_version (mk_version 0)" and ?v = "mk_version 0"
  let ?r = "\<lparr>req_code = SELECTED_VERSION, req_data = Some (SelectedVersionData ?v), req_message_id = 0\<rparr>"
  let ?q = "c\<lparr>pb_socket := t, pb_buffer := ?m @ extra'\<rparr>"
  let ?p2 = "?q\<lparr>pa_protocol := Some protocol_v0\<rparr>"
  have len: "length ?m = 8" by (simp add: format_server_selected_version_def)
  have "pa_parse_bytes S (?m @ extra') out ?q = (Inr (8, ?r), ?q)"
    using assms(1,2) server_version_parse_format [OF assms(7)]
    by (simp add: pa_parse_bytes_def act_try_def act_catch_def act_simps wire_version_zero)
  moreover have "pa_authorize_request S ?r ?q = (Inr (), ?p2)"
    using assms(2) by (simp add: pa_authorize_request_def act_then_def act_simps version_zero_known mk_protocol_v0)
  moreover have "pa_parse_bytes S extra' ?r ?p2 = (Inr (0, ?r), ?p2\<lparr>pa_first_extra_request := False\<rparr>)"
    using assms(3) by (simp add: pa_parse_bytes_def)
  ultimately show "pa_poll_requests S out c = (Inr (), c\<lparr>pb_socket := t, pb_buffer := extra',
      pa_protocol := Some protocol_v0, pa_first_extra_request := False\<rparr>)"
    unfolding pa_poll_requests_def using assms(4-7) len
    by (subst poll_one_message [of S c new' t ?m extra']) auto
qed

lemma server_takes_version:
  assumes "pa_type p = SERVER" "pa_protocol p = None" "pa_first_extra_request p"
    and "so_connected S (pb_socket p)" "so_read S (pb_socket p) = (Inr new, s)"
    and "pb_buffer p @ new = format_client_version_list @ extra" "addressable (format_client_version_list @ extra)"
    and "so_write S (format_server_selected_version (mk_version 0)) s = (Inr (), s')"
  shows "pa_poll_requests S out p = (Inr (), p\<lparr>pb_socket := s', pb_buffer := extra,
      pa_protocol := Some protocol_v0, pa_first_extra_request := False\<rparr>)"
proof -
  let ?m = format_client_version_list and ?v = "mk_version 0"
  let ?r = "\<lparr>req_code = SUPPORTED_VERSIONS, req_data = Some (SupportedVersionsData [?v]), req_message_id = 0\<rparr>"
  let ?q = "p\<lparr>pb_socket := s, pb_buffer := ?m @ extra\<rparr>"
  let ?p2 = "?q\<lparr>pb_socket := s', pa_protocol := Some protocol_v0\<rparr>"
  have len: "length ?m = 9" by (simp add: format_client_version_list_def client_version_payload_eval)
  have "pa_parse_bytes S (?m @ extra) out ?q = (Inr (9, ?r), ?q)"
    using assms(1,2) client_version_parse_format [OF assms(7)]
    by (simp add: pa_parse_bytes_def act_try_def act_catch_def act_simps)
  moreover have "pa_authorize_request S ?r ?q = (Inr (), ?p2)"
    using assms(2,8) by (simp add: pa_authorize_request_def act_then_def act_simps version_zero_known mk_protocol_v0 pb_write_def)
  moreover have "pa_parse_bytes S extra ?r ?p2 = (Inr (0, ?r), ?p2\<lparr>pa_first_extra_request := False\<rparr>)"
    using assms(3) by (simp add: pa_parse_bytes_def)
  ultimately show "pa_poll_requests S out p = (Inr (), p\<lparr>pb_socket := s', pb_buffer := extra,
      pa_protocol := Some protocol_v0, pa_first_extra_request := False\<rparr>)"
    unfolding pa_poll_requests_def using assms(4-7) len
    by (subst poll_one_message [of S p new s ?m extra]) auto
qed

text \<open>The handshake: a server that has received the client's hello answers it with version 0
  and has chosen its protocol; the client that has received the answer has chosen the same. Bytes
  that came in the same read stay in the buffer, for the peer this one is promoted to.\<close>

theorem handshake_agrees:
  assumes "pa_type p = SERVER" "pa_protocol p = None" "pa_first_extra_request p"
    and "so_connected S (pb_socket p)" "so_read S (pb_socket p) = (Inr new, s)"
    and "pb_buffer p @ new = format_client_version_list @ extra" "addressable (format_client_version_list @ extra)"
    and "so_write S (format_server_selected_version (mk_version 0)) s = (Inr (), s')"
    and "pa_type c = CLIENT" "pa_protocol c = None" "pa_first_extra_request c"
    and "so_connected S (pb_socket c)" "so_read S (pb_socket c) = (Inr new', t)"
    and "pb_buffer c @ new' = format_server_selected_version (mk_version 0) @ extra'"
    and "addressable (format_server_selected_version (mk_version 0) @ extra')"
  shows "pa_poll_requests S out p = (Inr (), p\<lparr>pb_socket := s', pb_buffer := extra,
      pa_protocol := Some protocol_v0, pa_first_extra_request := False\<rparr>) \<and>
    pa_poll_requests S out c = (Inr (), c\<lparr>pb_socket := t, pb_buffer := extra',
      pa_protocol := Some protocol_v0, pa_first_extra_request := False\<rparr>)"
  using server_takes_version [OF assms(1-8)] client_takes_version [OF assms(9-15)] by simp

text \<open>A first message that the parser of the version messages refuses, whatever side it comes
  from, takes the program out of defined behaviour: the exception is caught and the socket closed,
  but then a length that was never assigned is returned.\<close>

theorem pre_auth_bad_message:
  assumes "pa_protocol p = None" "so_connected S (pb_socket p)" "so_read S (pb_socket p) = (Inr new, s)"
    and "pb_buffer p @ new \<noteq> []"
    and "(if pa_type p = CLIENT then parse_server_version (pb_buffer p @ new) out
      else parse_client_version (pb_buffer p @ new) out) = Inl (Runtime_error e)"
  shows "pa_poll_requests S out p =
    (Inl Undefined_behaviour, p\<lparr>pb_socket := so_close S s, pb_buffer := pb_buffer p @ new\<rparr>)"
proof -
  let ?q = "p\<lparr>pb_socket := s, pb_buffer := pb_buffer p @ new\<rparr>"
  have "pa_parse_bytes S (pb_buffer p @ new) out ?q = (Inl Undefined_behaviour, pb_disconnect S ?q)"
    using assms(1,5) by (simp add: pa_parse_bytes_def act_try_def act_catch_def act_then_def act_simps is_exception_def split: if_splits)
  then show ?thesis using assms(2-4)
    by (auto simp: pa_poll_requests_def poll_requests_def poll_loop_step [of _ _ "pb_buffer p @ new"]
        act_then_def act_simps pb_read_def pb_disconnect_def)
qed

section \<open>Examples\<close>

definition tape_pre_auth :: "pre_auth_type \<Rightarrow> protocol option \<Rightarrow> bool \<Rightarrow> bytes list \<Rightarrow> tape pre_auth_peer" where
  "tape_pre_auth type protocol first reads = \<lparr>pb_socket = \<lparr>tp_in = reads, tp_out = [], tp_open = True\<rparr>,
     pb_device_uuid = [1], pb_device_name = [1], pb_public_key = [2], pb_buffer = [],
     pa_type = type, pa_protocol = protocol, pa_first_extra_request = first\<rparr>"

theorem handshake_agrees_witness:
  "pa_protocol (snd (pa_poll_requests tape_ops blank_request
     (tape_pre_auth SERVER None True [format_client_version_list @ sample_message]))) = Some protocol_v0"
proof -
  have "addressable (format_client_version_list @ sample_message)" "addressable (format_server_selected_version (mk_version 0) @ [])"
    by (simp_all add: addressable_def format_client_version_list_def client_version_payload_eval sample_message_def
        format_server_selected_version_def)
  then show ?thesis
    using handshake_agrees [of "tape_pre_auth SERVER None True [format_client_version_list @ sample_message]" tape_ops
        "format_client_version_list @ sample_message" "\<lparr>tp_in = [], tp_out = [], tp_open = True\<rparr>" sample_message
        "\<lparr>tp_in = [], tp_out = [format_server_selected_version (mk_version 0)], tp_open = True\<rparr>"
        "tape_pre_auth CLIENT None True [format_server_selected_version (mk_version 0)]"
        "format_server_selected_version (mk_version 0)" "\<lparr>tp_in = [], tp_out = [], tp_open = True\<rparr>" "[]" blank_request]
    by (simp add: tape_pre_auth_def tape_ops_def)
qed

theorem pre_auth_bad_message_witness:
  "fst (pa_poll_requests tape_ops blank_request (tape_pre_auth SERVER None True [[0, 0, 0, 0, 0, 0]])) = Inl Undefined_behaviour"
  using pre_auth_bad_message [of "tape_pre_auth SERVER None True [[0, 0, 0, 0, 0, 0]]" tape_ops "[0, 0, 0, 0, 0, 0]"
      "\<lparr>tp_in = [], tp_out = [], tp_open = True\<rparr>" blank_request "''Invalid Client Version message''"]
  by (simp add: tape_pre_auth_def tape_ops_def client_version_total addressable_def starts_with_def client_version_payload_eval)

theorem pre_auth_refuses_witness:
  "tp_out (pb_socket (snd (pa_poll_requests tape_ops blank_request
     (tape_pre_auth CLIENT (Some protocol_v0) False [sample_message])))) = [format_response 9 UNAUTHORIZED]"
proof -
  have "drain parse_request sample_message blank_request = Inr ([sample_packet], [])"
    using drain_formatted [of "[sample_packet]" "[sample_message]" blank_request] sample_formatted
    by (simp add: named_codes_def) (simp add: sample_packet_def sample_message_def addressable_def received_request_def)
  then show ?thesis
    using pre_auth_refuses [of "tape_pre_auth CLIENT (Some protocol_v0) False [sample_message]" protocol_v0 tape_ops
        sample_message "\<lparr>tp_in = [], tp_out = [], tp_open = True\<rparr>" blank_request "[sample_packet]" "[]"]
    by (simp add: tape_pre_auth_def tape_ops_def protocol_v0_def)
      (simp add: act_then_def act_simps pb_write_def sample_packet_def sample_message_def addressable_def)
qed

theorem pre_auth_protocol_fixed_witness:
  "pb_public_key (snd (pa_poll_requests tape_ops blank_request (tape_pre_auth SERVER None True [[0, 0, 0, 0, 0, 0]]))) = [2]"
  using pre_auth_protocol_fixed [of tape_ops blank_request "tape_pre_auth SERVER None True [[0, 0, 0, 0, 0, 0]]", OF prod.collapse [symmetric]]
  by (simp add: tape_pre_auth_def)

end
