(* ===== verification/Message_Queue.thy ===== *)
theory Message_Queue
  imports Protocol_Defs
begin

text \<open>
  \<open>source/MessageQueue.cpp\<close>: the requests in flight in both directions. A message id is
  a byte, so at most 256 requests can be outstanding; the queue counts the free slots in
  another byte that starts at 255. The \<open>unordered_map\<close>s are maps from ids; the field
  \<open>raw_message\<close> of a message is never set to anything but the empty string and is left
  out.
\<close>

section \<open>State and operations\<close>

record message =
  msg_request :: request
  msg_status :: "status_code option"

record message_queue =
  mq_message_id :: byte
  mq_outgoing :: "byte \<Rightarrow> message option"
  mq_incoming :: "byte \<Rightarrow> message option"
  mq_slots :: byte

definition max_id :: byte where
  "max_id = 0xFF"

definition queue_new :: message_queue where
  "queue_new = \<lparr>mq_message_id = 0, mq_outgoing = Map.empty, mq_incoming = Map.empty, mq_slots = max_id\<rparr>"

text \<open>
  The loop of \<open>send_request\<close>: from \<open>message_id\<close> on, the first id that is not in use or
  whose request has a final status. It ends only if there is one; \<open>None\<close> is the loop that
  runs forever.
\<close>

partial_function (option) next_id :: "(byte \<Rightarrow> message option) \<Rightarrow> byte \<Rightarrow> byte option" where
  "next_id outgoing message_id =
     (case outgoing message_id of
        None \<Rightarrow> Some message_id
      | Some m \<Rightarrow>
          if msg_status m \<noteq> None \<and> msg_status m \<noteq> Some APPROVAL_PENDING then Some message_id
          else if message_id = max_id then next_id outgoing 0
          else next_id outgoing (message_id + 1))"

definition mq_send_request :: "request \<Rightarrow> message_queue \<Rightarrow> (byte \<times> message_queue) result" where
  "mq_send_request request q =
     (if mq_slots q = 0 then Inl (Runtime_error ''No more available slots'')
      else case next_id (mq_outgoing q) (mq_message_id q) of
          None \<Rightarrow> Inl Does_not_return
        | Some message_id \<Rightarrow>
            Inr (message_id,
              q\<lparr>mq_slots := mq_slots q - 1,
                mq_outgoing := (mq_outgoing q)(message_id \<mapsto>
                  \<lparr>msg_request = request\<lparr>req_message_id := message_id\<rparr>, msg_status = None\<rparr>),
                mq_message_id := message_id + 1\<rparr>))"

definition mq_receive_request :: "request \<Rightarrow> message_queue \<Rightarrow> byte \<times> message_queue" where
  "mq_receive_request request q =
     (let message_id = req_message_id request in
      (message_id,
       q\<lparr>mq_incoming := (mq_incoming q)(message_id \<mapsto> \<lparr>msg_request = request, msg_status = None\<rparr>)\<rparr>))"

definition mq_send_reply :: "byte \<Rightarrow> status_code \<Rightarrow> message_queue \<Rightarrow> message_queue result" where
  "mq_send_reply request_id status_code q =
     (case mq_incoming q request_id of
        None \<Rightarrow> Inl Out_of_range
      | Some m \<Rightarrow>
          Inr (q\<lparr>mq_incoming := (mq_incoming q)(request_id \<mapsto> m\<lparr>msg_status := Some status_code\<rparr>)\<rparr>))"

definition mq_receive_reply :: "byte \<Rightarrow> status_code \<Rightarrow> message_queue \<Rightarrow> message_queue result" where
  "mq_receive_reply request_id status_code q =
     (case mq_outgoing q request_id of
        None \<Rightarrow> Inl Out_of_range
      | Some m \<Rightarrow>
          if msg_status m = Some status_code then Inr q
          else
            let is_approval_pending = (msg_status m = Some APPROVAL_PENDING);
                count = ((msg_status m = None \<or> is_approval_pending) \<and> status_code \<noteq> APPROVAL_PENDING)
            in Inr (q\<lparr>mq_slots := (if count then mq_slots q + 1 else mq_slots q),
                      mq_outgoing := (mq_outgoing q)(request_id \<mapsto> m\<lparr>msg_status := Some status_code\<rparr>)\<rparr>))"

section \<open>Ids in use\<close>

definition pending :: "message option \<Rightarrow> bool" where
  "pending m = (case m of None \<Rightarrow> False | Some m \<Rightarrow> msg_status m = None \<or> msg_status m = Some APPROVAL_PENDING)"

definition busy :: "message_queue \<Rightarrow> byte set" where
  "busy q = {i. pending (mq_outgoing q i)}"

lemma pending_simps [simp]:
  "\<not> pending None"
  "pending (Some m) \<longleftrightarrow> msg_status m = None \<or> msg_status m = Some APPROVAL_PENDING"
  by (simp_all add: pending_def)

lemma next_id_step:
  "next_id outgoing i = (if pending (outgoing i) then next_id outgoing (i + 1) else Some i)"
proof -
  have "max_id + 1 = 0" by (simp add: max_id_def)
  then show ?thesis by (subst next_id.simps) (auto split: option.split)
qed

lemma next_id_free:
  assumes "next_id outgoing i = Some j"
  shows "\<not> pending (outgoing j)"
  using _ assms
proof (rule next_id.raw_induct [where P = "\<lambda>og i j. \<not> pending (og j)"])
  fix nx :: "(byte \<Rightarrow> message option) \<Rightarrow> byte \<Rightarrow> byte option" and og i j
  assume IH: "\<And>og i j. nx og i = Some j \<Longrightarrow> \<not> pending (og j)"
    and "(case og i of None \<Rightarrow> Some i
      | Some m \<Rightarrow>
          if msg_status m \<noteq> None \<and> msg_status m \<noteq> Some APPROVAL_PENDING then Some i
          else if i = max_id then nx og 0 else nx og (i + 1)) = Some j"
  then show "\<not> pending (og j)" by (auto split: option.splits if_splits dest: IH)
qed

lemma next_id_distance:
  "\<not> pending (outgoing (i + of_nat k)) \<Longrightarrow> next_id outgoing i \<noteq> None"
proof (induction k arbitrary: i)
  case 0
  then show ?case by (subst next_id_step) simp
next
  case (Suc k)
  then have "\<not> pending (outgoing (i + 1 + of_nat k))" by (simp add: add.assoc)
  from Suc.IH [OF this] show ?case by (subst next_id_step) simp
qed

lemma next_id_None: "next_id outgoing i = None \<longleftrightarrow> (\<forall>j. pending (outgoing j))"
proof
  show "\<forall>j. pending (outgoing j)" if "next_id outgoing i = None"
  proof
    fix j :: byte
    have "i + of_nat (unat (j - i)) = j" by simp
    with next_id_distance [of outgoing i "unat (j - i)"] that show "pending (outgoing j)" by auto
  qed
  show "next_id outgoing i = None" if "\<forall>j. pending (outgoing j)"
    using that next_id_free [of outgoing i] by (cases "next_id outgoing i") auto
qed

section \<open>Runs\<close>

text \<open>
  The operations as labelled steps, and the states they reach. \<open>allowed\<close> restricts what the
  peer may do; \<open>keeps_final\<close> is the restriction the code relies on: a request that got
  a final status is not answered \<open>APPROVAL_PENDING\<close> afterwards.
\<close>

datatype queue_op =
    Send_request request
  | Receive_request request
  | Send_reply byte status_code
  | Receive_reply byte status_code

inductive queue_step :: "message_queue \<Rightarrow> queue_op \<Rightarrow> message_queue \<Rightarrow> bool" where
  "mq_send_request r q = Inr (i, q') \<Longrightarrow> queue_step q (Send_request r) q'"
| "mq_receive_request r q = (i, q') \<Longrightarrow> queue_step q (Receive_request r) q'"
| "mq_send_reply i s q = Inr q' \<Longrightarrow> queue_step q (Send_reply i s) q'"
| "mq_receive_reply i s q = Inr q' \<Longrightarrow> queue_step q (Receive_reply i s) q'"

inductive_cases queue_stepE: "queue_step q op q'"

inductive_simps queue_step_simps:
  "queue_step q (Send_request r) q'"
  "queue_step q (Receive_reply i s) q'"

inductive queue_run :: "(message_queue \<Rightarrow> queue_op \<Rightarrow> bool) \<Rightarrow> message_queue \<Rightarrow> bool"
  for allowed where
  run_start: "queue_run allowed queue_new"
| run_step: "queue_run allowed q \<Longrightarrow> allowed q op \<Longrightarrow> queue_step q op q' \<Longrightarrow> queue_run allowed q'"

fun keeps_final :: "message_queue \<Rightarrow> queue_op \<Rightarrow> bool" where
  "keeps_final q (Receive_reply i s) = (pending (mq_outgoing q i) \<or> s \<noteq> APPROVAL_PENDING)"
| "keeps_final q _ = True"

section \<open>The slots count the free ids\<close>

definition queue_inv :: "message_queue \<Rightarrow> bool" where
  "queue_inv q \<longleftrightarrow> card (busy q) + unat (mq_slots q) = 255"

lemma busy_update:
  "busy (q\<lparr>mq_outgoing := (mq_outgoing q)(i \<mapsto> m)\<rparr>) = (if pending (Some m) then insert i (busy q) else busy q - {i})"
  by (auto simp: busy_def)

lemma busy_cong: "mq_outgoing q = mq_outgoing q' \<Longrightarrow> busy q = busy q'"
  by (simp add: busy_def)

lemma mem_busy: "i \<in> busy q \<longleftrightarrow> pending (mq_outgoing q i)"
  by (simp add: busy_def)

lemma send_request_Inr:
  assumes "mq_send_request r q = Inr (i, q')"
  shows "mq_slots q \<noteq> 0" "i \<notin> busy q" "mq_slots q' = mq_slots q - 1" "busy q' = insert i (busy q)"
    "mq_outgoing q' = (mq_outgoing q)(i \<mapsto> \<lparr>msg_request = r\<lparr>req_message_id := i\<rparr>, msg_status = None\<rparr>)"
    "mq_incoming q' = mq_incoming q" "mq_message_id q' = i + 1"
  using assms next_id_free [of "mq_outgoing q" "mq_message_id q"]
  by (auto simp: mq_send_request_def mem_busy busy_def split: if_splits option.splits)

lemma receive_reply_Inr:
  assumes "mq_receive_reply i s q = Inr q'"
  shows "\<exists>m. mq_outgoing q i = Some m \<and>
    mq_slots q' = (if i \<in> busy q \<and> s \<noteq> APPROVAL_PENDING then mq_slots q + 1 else mq_slots q) \<and>
    busy q' = (if s = APPROVAL_PENDING then insert i (busy q) else busy q - {i}) \<and>
    mq_message_id q' = mq_message_id q"
  using assms
  by (auto simp: mq_receive_reply_def busy_def Let_def split: option.splits if_splits)

lemma unat_slots_dec: "mq_slots q \<noteq> 0 \<Longrightarrow> unat (mq_slots q - 1) = unat (mq_slots q) - 1"
  by (simp add: unat_minus_one)

lemma inv_send:
  assumes "queue_inv q" "mq_send_request r q = Inr (i, q')"
  shows "queue_inv q'"
proof -
  note f = send_request_Inr [OF assms(2)]
  have "0 < unat (mq_slots q)" using f(1) by (simp add: unat_gt_0)
  moreover have "card (busy q') = Suc (card (busy q))" using f(2,4) by simp
  ultimately show ?thesis
    using assms(1) f(1,3) by (simp add: queue_inv_def unat_slots_dec)
qed

lemma inv_receive_reply:
  assumes inv: "queue_inv q" and r: "mq_receive_reply i s q = Inr q'" and k: "keeps_final q (Receive_reply i s)"
  shows "queue_inv q'"
proof -
  from receive_reply_Inr [OF r] have
    slots: "mq_slots q' = (if i \<in> busy q \<and> s \<noteq> APPROVAL_PENDING then mq_slots q + 1 else mq_slots q)"
    and busy: "busy q' = (if s = APPROVAL_PENDING then insert i (busy q) else busy q - {i})" by auto
  show ?thesis
  proof (cases "i \<in> busy q \<and> s \<noteq> APPROVAL_PENDING")
    case True
    then have c: "0 < card (busy q)" by (auto simp: card_gt_0_iff)
    then have "unat (mq_slots q) < 255" using inv by (simp add: queue_inv_def)
    then have "unat (mq_slots q + 1) = unat (mq_slots q) + 1" by (simp add: unat_word_ariths)
    moreover have "card (busy q - {i}) = card (busy q) - 1" using True by simp
    ultimately show ?thesis using inv c True slots busy by (simp add: queue_inv_def)
  next
    case False
    then have "busy q' = busy q" using busy k by (auto simp: mem_busy)
    with False slots inv show ?thesis by (auto simp: queue_inv_def)
  qed
qed

lemma inv_step:
  assumes "queue_inv q" "queue_step q op q'" "keeps_final q op"
  shows "queue_inv q'"
  using assms(2,1,3)
proof cases
  case (2 r i)
  then have "mq_slots q' = mq_slots q" "busy q' = busy q"
    by (auto simp: mq_receive_request_def Let_def busy_def)
  with assms(1) show ?thesis by (simp add: queue_inv_def)
next
  case (3 i s)
  then have "mq_slots q' = mq_slots q" "busy q' = busy q"
    by (auto simp: mq_send_reply_def busy_def split: option.splits)
  with assms(1) show ?thesis by (simp add: queue_inv_def)
qed (use assms in \<open>auto intro: inv_send inv_receive_reply\<close>)

lemma queue_new_inv: "queue_inv queue_new" "busy queue_new = {}"
  by (auto simp: queue_inv_def busy_def queue_new_def max_id_def)

lemma run_inv: "queue_run keeps_final q \<Longrightarrow> queue_inv q"
  by (induction rule: queue_run.induct) (auto intro: inv_step queue_new_inv)

lemma inv_returns:
  assumes "queue_inv q" "mq_slots q \<noteq> 0"
  shows "\<exists>i q'. mq_send_request r q = Inr (i, q')"
proof -
  have "busy q \<noteq> UNIV"
    using assms(1) card_word [where 'a = 8] by (auto simp: queue_inv_def)
  then have "next_id (mq_outgoing q) (mq_message_id q) \<noteq> None"
    by (auto simp: next_id_None mem_busy)
  with assms(2) show ?thesis by (auto simp: mq_send_request_def)
qed

section \<open>A peer that takes its answer back\<close>

definition some_request :: request where
  "some_request = \<lparr>req_code = PING, req_data = Some PingData, req_message_id = 0\<rparr>"

lemma queue_run_send:
  "queue_run allowed q \<Longrightarrow> allowed q (Send_request r) \<Longrightarrow> mq_send_request r q = Inr (i, q') \<Longrightarrow> queue_run allowed q'"
  by (rule run_step) (auto intro: queue_step.intros)

lemma queue_run_reply:
  "queue_run allowed q \<Longrightarrow> allowed q (Receive_reply i s) \<Longrightarrow> mq_receive_reply i s q = Inr q' \<Longrightarrow> queue_run allowed q'"
  by (rule run_step) (auto intro: queue_step.intros)

text \<open>One round: a request, its answer, and the answer taken back.\<close>

lemma take_back_round:
  assumes run: "queue_run (\<lambda>_ _. True) q" and slots: "mq_slots q = 255" and fresh: "mq_message_id q \<notin> busy q"
  shows "\<exists>q'. queue_run (\<lambda>_ _. True) q' \<and> mq_slots q' = 255 \<and>
    busy q' = insert (mq_message_id q) (busy q) \<and> mq_message_id q' = mq_message_id q + 1"
proof -
  let ?i = "mq_message_id q"
  have "next_id (mq_outgoing q) ?i = Some ?i"
    using fresh by (subst next_id_step) (simp add: mem_busy)
  then obtain q1 where s: "mq_send_request some_request q = Inr (?i, q1)"
    using slots by (auto simp: mq_send_request_def)
  note f = send_request_Inr [OF s]
  obtain q2 where r2: "mq_receive_reply ?i STATUS_OK q1 = Inr q2"
    using f(5) by (auto simp: mq_receive_reply_def Let_def)
  from receive_reply_Inr [OF r2] f slots fresh have
    q2: "mq_slots q2 = 255" "busy q2 = busy q" "mq_message_id q2 = ?i + 1" by auto
  have "mq_outgoing q2 ?i \<noteq> None"
    using r2 f(5) by (auto simp: mq_receive_reply_def Let_def)
  then obtain q3 where r3: "mq_receive_reply ?i APPROVAL_PENDING q2 = Inr q3"
    by (cases "mq_receive_reply ?i APPROVAL_PENDING q2") (auto simp: mq_receive_reply_def Let_def split: option.splits if_splits)
  from receive_reply_Inr [OF r3] q2 fresh have
    "mq_slots q3 = 255" "busy q3 = insert ?i (busy q)" "mq_message_id q3 = ?i + 1" by auto
  moreover have "queue_run (\<lambda>_ _. True) q3"
    using queue_run_reply [OF queue_run_reply [OF queue_run_send [OF run _ s] _ r2] _ r3] by simp
  ultimately show ?thesis by blast
qed

lemma take_back_rounds:
  "k \<le> 256 \<Longrightarrow> \<exists>q. queue_run (\<lambda>_ _. True) q \<and> mq_slots q = 255 \<and>
    busy q = of_nat ` {..<k} \<and> mq_message_id q = of_nat k"
proof (induction k)
  case 0
  show ?case
    using run_start [of "\<lambda>_ _. True"] queue_new_inv(2)
    by (intro exI [of _ queue_new]) (simp add: queue_new_def max_id_def)
next
  case (Suc k)
  then obtain q where q: "queue_run (\<lambda>_ _. True) q" "mq_slots q = 255"
    "busy q = of_nat ` {..<k}" "mq_message_id q = of_nat k" by auto
  have "of_nat k \<notin> (of_nat ` {..<k} :: byte set)"
  proof
    assume "of_nat k \<in> (of_nat ` {..<k} :: byte set)"
    then obtain j where j: "j < k" "(of_nat k :: byte) = of_nat j" by auto
    then have "unat (of_nat k :: byte) = unat (of_nat j :: byte)" by simp
    with j(1) Suc.prems show False by (simp add: unat_of_nat take_bit_nat_eq_self)
  qed
  with take_back_round [OF q(1,2)] q(3,4) obtain q' where
    "queue_run (\<lambda>_ _. True) q'" "mq_slots q' = 255" "busy q' = insert (of_nat k) (busy q)" "mq_message_id q' = of_nat k + 1"
    by auto
  then show ?case using q(3) by (intro exI [of _ q']) (auto simp: lessThan_Suc)
qed


section \<open>Properties\<close>

text \<open>C19: As long as the peer never answers \<open>APPROVAL_PENDING\<close> to a request that already got
  a final status, the free slots and the outstanding requests always add up to 255, whatever
  else both sides do in whatever order.\<close>

theorem slots_count_outstanding:
  assumes "queue_run keeps_final q"
  shows "unat (mq_slots q) + card {i. pending (mq_outgoing q i)} = 255"
  using run_inv [OF assms] by (simp add: queue_inv_def busy_def)

theorem slots_count_outstanding_witness:
  "\<exists>i q. mq_send_request some_request queue_new = Inr (i, q) \<and>
     unat (mq_slots q) + card {i. pending (mq_outgoing q i)} = 255"
proof -
  have slots: "mq_slots queue_new \<noteq> 0" by (simp add: queue_new_def max_id_def)
  obtain i q where s: "mq_send_request some_request queue_new = Inr (i, q)"
    using inv_returns [OF queue_new_inv(1) slots] by blast
  have "queue_run keeps_final q" by (rule queue_run_send [OF run_start _ s]) simp
  from slots_count_outstanding [OF this] s show ?thesis by blast
qed

text \<open>C12: Under the same assumption \<open>send_request\<close> never loops: it throws exactly when 255
  requests are outstanding, and otherwise it returns an id with no outstanding request, under
  which the request is then stored, every other request kept.\<close>

theorem send_request_returns:
  assumes "queue_run keeps_final q"
  shows "if card (busy q) = 255
    then mq_send_request r q = Inl (Runtime_error ''No more available slots'')
    else \<exists>i q'. mq_send_request r q = Inr (i, q') \<and> \<not> pending (mq_outgoing q i) \<and>
      mq_outgoing q' = (mq_outgoing q)(i \<mapsto> \<lparr>msg_request = r\<lparr>req_message_id := i\<rparr>, msg_status = None\<rparr>) \<and>
      mq_incoming q' = mq_incoming q"
proof -
  have inv: "queue_inv q" using assms by (rule run_inv)
  show ?thesis
  proof (cases "card (busy q) = 255")
    case True
    then have "mq_slots q = 0" using inv by (simp add: queue_inv_def unat_eq_zero)
    with True show ?thesis by (simp add: mq_send_request_def)
  next
    case False
    then have "mq_slots q \<noteq> 0" using inv by (auto simp: queue_inv_def)
    with inv_returns [OF inv, of r] obtain i q' where s: "mq_send_request r q = Inr (i, q')" by blast
    with send_request_Inr [OF s] False show ?thesis by (auto simp: mem_busy)
  qed
qed

theorem send_request_returns_witness:
  "\<exists>i q'. mq_send_request some_request queue_new = Inr (i, q')"
  using send_request_returns [OF run_start [of keeps_final], of some_request] queue_new_inv(2) by auto

text \<open>Nothing enforces the assumption: a peer that answers each request and then takes the
  answer back with \<open>APPROVAL_PENDING\<close> reaches a state with all 255 slots free in which
  \<open>send_request\<close> never returns.\<close>

theorem send_request_can_loop:
  "\<exists>q. queue_run (\<lambda>_ _. True) q \<and> mq_slots q = 255 \<and> (\<forall>r. mq_send_request r q = Inl Does_not_return)"
proof -
  obtain q where q: "queue_run (\<lambda>_ _. True) q" "mq_slots q = 255" "busy q = of_nat ` {..<256}"
    using take_back_rounds [of 256] by auto
  have "pending (mq_outgoing q j)" for j
  proof -
    have "j = of_nat (unat j)" "unat j < 256" using unat_byte_less by simp_all
    then have "j \<in> busy q" unfolding q(3) by blast
    then show ?thesis by (simp add: mem_busy)
  qed
  then have "next_id (mq_outgoing q) (mq_message_id q) = None" by (simp add: next_id_None)
  with q(1,2) show ?thesis by (intro exI [of _ q]) (simp add: mq_send_request_def)
qed

text \<open>One request answered \<open>STATUS_OK\<close>, \<open>APPROVAL_PENDING\<close>, \<open>STATUS_OK\<close> counts its
  slot twice: from the initial state the counter wraps to 0, nothing is outstanding, and every
  further request is refused.\<close>

theorem slots_wrap:
  "\<exists>i q1 q2 q3 q4. mq_send_request r queue_new = Inr (i, q1) \<and>
     mq_receive_reply i STATUS_OK q1 = Inr q2 \<and> mq_receive_reply i APPROVAL_PENDING q2 = Inr q3 \<and>
     mq_receive_reply i STATUS_OK q3 = Inr q4 \<and> mq_slots q4 = 0 \<and> busy q4 = {} \<and>
     mq_send_request r' q4 = Inl (Runtime_error ''No more available slots'')"
proof -
  have "next_id (mq_outgoing queue_new) 0 = Some 0"
    by (subst next_id_step) (simp add: queue_new_def)
  then show ?thesis
    by (auto simp: mq_send_request_def mq_receive_reply_def queue_new_def max_id_def busy_def Let_def)
qed

end
