(* ===== verification/Virtual_Paths.thy ===== *)
theory Virtual_Paths
  imports File_Mapping
begin

text \<open>
  The two directions of the mapping: the search of \<open>host_to_virtual\<close> against a recursive
  specification, and the round trip from a host path to its virtual path and back.
\<close>

section \<open>The search of host_to_virtual\<close>

text \<open>
  The specification: the first node, in the order of the children, that is reached through
  visible nodes and maps the path or, a folder, contains it. \<open>up\<close> is the names above.
\<close>

fun search :: "path \<Rightarrow> string list \<Rightarrow> path_node \<Rightarrow> path option"
  and search_list :: "path \<Rightarrow> string list \<Rightarrow> node_map \<Rightarrow> path option" where
  "search path up (Path_node name child_nodes host_path type visibility) =
     (if visibility = HIDDEN then None
      else if type = VIRTUAL then search_list path (up @ [name]) child_nodes
      else if path_eq host_path path then Some (stack_to_path (up @ [name]))
      else if type = HOST_FOLDER \<and> find_folder_in_path path host_path \<noteq> []
      then Some (foldl path_append (stack_to_path (up @ [name])) (find_folder_in_path path host_path))
      else None)"
| "search_list path up [] = None"
| "search_list path up ((k, node) # nodes) =
     (case search path up node of Some r \<Rightarrow> Some r | None \<Rightarrow> search_list path up nodes)"

text \<open>Sibling keys differ, at every level.\<close>

fun keys_distinct :: "path_node \<Rightarrow> bool" where
  "keys_distinct (Path_node _ child_nodes _ _ _) \<longleftrightarrow>
     distinct (map fst child_nodes) \<and> (\<forall>c \<in> set (map snd child_nodes). keys_distinct c)"

lemma keys_distinct_sel:
  "keys_distinct n \<longleftrightarrow>
     distinct (map fst (n_child_nodes n)) \<and> (\<forall>c \<in> set (map snd (n_child_nodes n)). keys_distinct c)"
  by (cases n) simp

definition below :: "string list \<Rightarrow> string list set" where
  "below a = {b. \<exists>k ks. b = a @ k # ks}"

definition explored :: "string list \<Rightarrow> string list list \<Rightarrow> string list list \<Rightarrow> bool" where
  "explored a visited v \<longleftrightarrow> set visited \<subseteq> set v \<and> set v \<subseteq> set visited \<union> below a"

definition stack_names :: "(string list \<times> path_node) list \<Rightarrow> string list" where
  "stack_names stack = rev (map (n_name \<circ> snd) stack)"

definition loop_result :: "path \<Rightarrow> path option \<Rightarrow> path option \<Rightarrow> string list \<Rightarrow>
    (string list \<times> path_node) list \<Rightarrow> string list list \<Rightarrow> bool" where
  "loop_result path found looped a rest visited =
     (case found of
        Some r \<Rightarrow> looped = Some r
      | None \<Rightarrow> \<exists>v. explored a visited v \<and> looped = h2v_loop path rest v)"

lemma stack_names_simps [simp]:
  "stack_names [] = []" "stack_names ((a, n) # rest) = stack_names rest @ [n_name n]"
  by (simp_all add: stack_names_def)

lemma loop_result_Some [simp]: "loop_result path (Some r) looped a rest visited \<longleftrightarrow> looped = Some r"
  by (simp add: loop_result_def)

lemma loop_result_pop: "loop_result path None (h2v_loop path rest visited) a rest visited"
  by (auto simp: loop_result_def explored_def)

lemma explored_child: "explored (a @ [k]) ((a @ [k]) # visited) v \<Longrightarrow> explored a visited v"
  by (auto simp: explored_def below_def)

lemma explored_trans: "explored a visited v \<Longrightarrow> explored a v w \<Longrightarrow> explored a visited w"
  by (auto simp: explored_def)

lemma loop_result_later:
  "loop_result path found looped a rest v \<Longrightarrow> explored a visited v \<Longrightarrow> loop_result path found looped a rest visited"
  unfolding loop_result_def by (cases found) (auto intro: explored_trans)

lemma h2v_loop_Cons:
  "h2v_loop path ((addr, node) # rest) visited =
     (let stack_path = stack_to_path (stack_names rest @ [n_name node]) in
          if n_visibility node = HIDDEN then h2v_loop path rest visited
          else if n_type node = VIRTUAL then
            (case new_child visited addr (n_child_nodes node) of
               Some (k, child) \<Rightarrow> h2v_loop path ((addr @ [k], child) # (addr, node) # rest) ((addr @ [k]) # visited)
             | None \<Rightarrow> h2v_loop path rest visited)
          else if path_eq (n_host_path node) path then Some stack_path
          else if n_type node = HOST_FOLDER \<and> find_folder_in_path path (n_host_path node) \<noteq> []
          then Some (foldl path_append stack_path (find_folder_in_path path (n_host_path node)))
          else h2v_loop path rest visited)"
  by (subst h2v_loop.simps) (simp add: stack_names_def Let_def)

definition handled :: "string list list \<Rightarrow> string list \<Rightarrow> node_map \<Rightarrow> bool" where
  "handled visited a nodes \<longleftrightarrow> (\<forall>(k, c) \<in> set nodes. n_visibility c = HIDDEN \<or> a @ [k] \<in> set visited)"

definition untouched :: "string list list \<Rightarrow> string list \<Rightarrow> node_map \<Rightarrow> bool" where
  "untouched visited a nodes \<longleftrightarrow> (\<forall>k \<in> fst ` set nodes. \<forall>ks. a @ k # ks \<notin> set visited)"

lemma untouched_explored:
  assumes "untouched visited a nodes" "explored (a @ [k]) ((a @ [k]) # visited) v" "k \<notin> fst ` set nodes"
  shows "untouched v a nodes"
  unfolding untouched_def
proof (intro ballI allI notI)
  fix k' ks
  assume k': "k' \<in> fst ` set nodes" and b: "a @ k' # ks \<in> set v"
  then have "a @ k' # ks \<notin> set visited" using assms(1) unfolding untouched_def by blast
  with b assms(2) have "k' = k" by (auto simp: explored_def below_def)
  with k' assms(3) show False by simp
qed

lemma new_child_handled:
  "handled visited a handled_nodes \<Longrightarrow> new_child visited a (handled_nodes @ nodes) = new_child visited a nodes"
  by (induction handled_nodes) (auto simp: handled_def new_child_def)

lemma h2v_loop_search:
  "keys_distinct n \<Longrightarrow> up = stack_names rest \<Longrightarrow> below a \<inter> set visited = {} \<Longrightarrow>
     loop_result path (search path up n) (h2v_loop path ((a, n) # rest) visited) a rest visited"
  "n_child_nodes n = hs @ nodes \<Longrightarrow> keys_distinct n \<Longrightarrow> n_visibility n \<noteq> HIDDEN \<Longrightarrow> n_type n = VIRTUAL \<Longrightarrow>
     up = stack_names ((a, n) # rest) \<Longrightarrow> handled visited a hs \<Longrightarrow> untouched visited a nodes \<Longrightarrow>
     loop_result path (search_list path up nodes) (h2v_loop path ((a, n) # rest) visited) a rest visited"
proof (induction path up n and path up nodes arbitrary: a rest visited and n hs a rest visited rule: search_search_list.induct)
  case (1 path up name child_nodes host_path type visibility)
  let ?n = "Path_node name child_nodes host_path type visibility"
  show ?case
  proof (cases "visibility \<noteq> HIDDEN \<and> type = VIRTUAL")
    case True
    have "untouched visited a child_nodes"
      using 1(4) by (auto simp: untouched_def below_def)
    then show ?thesis
      using 1(1) [of ?n "[]" a rest visited] True 1(2,3) by (simp add: handled_def)
  next
    case False
    then show ?thesis
      using 1(3) by (subst h2v_loop_Cons) (auto simp: loop_result_pop Let_def)
  qed
next
  case (2 path up)
  have "new_child visited a (hs @ []) = None"
    using new_child_handled [OF 2(6), of "[]"] by (simp add: new_child_def)
  then have "new_child visited a (n_child_nodes n) = None" by (simp only: 2(1))
  then have "h2v_loop path ((a, n) # rest) visited = h2v_loop path rest visited"
    using 2(3,4) by (subst h2v_loop_Cons) simp
  then show ?case by (simp add: loop_result_pop)
next
  case (3 path up k node nodes)
  have kd: "keys_distinct node" "k \<notin> fst ` set nodes"
    using 3(4) unfolding keys_distinct_sel [of n] 3(3) by auto
  have up: "up = stack_names ((a, n) # rest)" using 3(7) .
  show ?case
  proof (cases "n_visibility node = HIDDEN")
    case True
    then have "search path up node = None" by (cases node) simp
    moreover have "handled visited a (hs @ [(k, node)])" using 3(8) True by (auto simp: handled_def)
    moreover have "untouched visited a nodes" using 3(9) by (simp add: untouched_def)
    ultimately show ?thesis
      using 3(2) [of n "hs @ [(k, node)]" a rest visited] 3(3-7) by simp
  next
    case False
    let ?v = "(a @ [k]) # visited"
    have u: "a @ [k] \<notin> set visited" "below (a @ [k]) \<inter> set visited = {}"
      using 3(9) by (auto simp: untouched_def below_def)
    have "new_child visited a (n_child_nodes n) = Some (k, node)"
      using new_child_handled [OF 3(8), of "(k, node) # nodes"] False u(1) 3(3) by (simp add: new_child_def)
    then have step: "h2v_loop path ((a, n) # rest) visited = h2v_loop path ((a @ [k], node) # (a, n) # rest) ?v"
      using 3(5,6) by (simp add: h2v_loop_Cons [of path a n])
    have "below (a @ [k]) \<inter> set ?v = {}" using u by (auto simp: below_def)
    from 3(1) [OF kd(1) up this] have
      r: "loop_result path (search path up node) (h2v_loop path ((a, n) # rest) visited) (a @ [k]) ((a, n) # rest) ?v"
      by (simp add: step)
    show ?thesis
    proof (cases "search path up node")
      case (Some x)
      with r show ?thesis by simp
    next
      case None
      with r obtain v where v: "explored (a @ [k]) ?v v" "h2v_loop path ((a, n) # rest) visited = h2v_loop path ((a, n) # rest) v"
        by (auto simp: loop_result_def)
      have "handled v a (hs @ [(k, node)])" using 3(8) v(1) by (auto simp: handled_def explored_def)
      moreover have "untouched v a nodes"
        using untouched_explored [OF _ v(1) kd(2)] 3(9) by (simp add: untouched_def)
      ultimately have l: "loop_result path (search_list path up nodes) (h2v_loop path ((a, n) # rest) v) a rest v"
        using 3(2) [OF None, of n "hs @ [(k, node)]" a rest v] 3(3-7) by simp
      have "loop_result path (search_list path up nodes) (h2v_loop path ((a, n) # rest) visited) a rest visited"
        unfolding v(2) by (rule loop_result_later [OF l explored_child [OF v(1)]])
      then show ?thesis using None by simp
    qed
  qed
qed

lemma host_to_virtual_search:
  assumes "keys_distinct (fm_root_node m)"
  shows "host_to_virtual m path =
    Some (case search path [] (fm_root_node m) of Some r \<Rightarrow> r | None \<Rightarrow> [])"
proof -
  have "below [] \<inter> set [[]] = {}" by (auto simp: below_def)
  from h2v_loop_search(1) [OF assms, of "[]" "[]" "[]" "[[]]" path] this
  have "loop_result path (search path [] (fm_root_node m)) (host_to_virtual m path) [] [] [[]]"
    by (simp add: host_to_virtual_def)
  then show ?thesis
    by (auto simp: loop_result_def h2v_loop.simps [of path "[]"] split: option.splits)
qed

section \<open>Paths made of names\<close>

lemma names_stack: "list_all is_name ns \<Longrightarrow> names (stack_to_path ns) = ns"
proof (induction ns rule: stack_to_path.induct)
  case (3 n m ns)
  then show ?case
    using names_append_slash [of n "stack_to_path (m # ns)"] by (simp add: names_name is_name_def)
qed (simp_all add: names_name is_name_def)

lemma stack_to_path_append:
  "xs \<noteq> [] \<Longrightarrow> stack_to_path (xs @ [y]) = stack_to_path xs @ [slash] @ y"
  by (induction xs rule: stack_to_path.induct) auto

lemma stack_to_path_last:
  "xs \<noteq> [] \<Longrightarrow> last xs \<noteq> [] \<Longrightarrow> stack_to_path xs \<noteq> [] \<and> last (stack_to_path xs) = last (last xs)"
  by (induction xs rule: stack_to_path.induct) (auto split: if_splits)

lemma is_name_last: "is_name n \<Longrightarrow> n \<noteq> [] \<and> last n \<noteq> slash"
  by (auto simp: is_name_def dest: last_in_set)

lemma fold_append_stack:
  "list_all is_name es \<Longrightarrow> xs \<noteq> [] \<Longrightarrow> last xs \<noteq> [] \<Longrightarrow> last (last xs) \<noteq> slash \<Longrightarrow>
     foldl path_append (stack_to_path xs) es = stack_to_path (xs @ es)"
proof (induction es arbitrary: xs)
  case (Cons e es)
  then have "\<not> absolute e" by (auto simp: absolute_def is_name_def dest: hd_in_set)
  then have "path_append (stack_to_path xs) e = stack_to_path (xs @ [e])"
    using Cons.prems stack_to_path_last [of xs] by (simp add: path_append_def stack_to_path_append)
  with Cons.IH [of "xs @ [e]"] Cons.prems is_name_last [of e] show ?case by simp
qed simp

lemma elems_append_name:
  assumes w: "is_name w" and h: "[] \<notin> set (elems h)"
  shows "elems (path_append h w) = elems h @ [w]"
proof -
  have na: "\<not> absolute w" using w by (auto simp: absolute_def is_name_def dest: hd_in_set)
  have wl: "last w \<noteq> slash" "w \<noteq> []" "names w = [w]" using is_name_last [OF w] w by (auto simp: names_name is_name_def)
  show ?thesis
  proof (cases "h \<noteq> [] \<and> last h \<noteq> slash")
    case True
    then show ?thesis using na wl names_append_slash [of h w]
      by (auto simp: path_append_def elems_def absolute_def)
  next
    case False
    show ?thesis
    proof (cases h rule: rev_cases)
      case Nil
      then show ?thesis using na wl by (simp add: path_append_def elems_def absolute_def)
    next
      case (snoc g c)
      with False have g: "h = g @ [slash]" by simp
      with h have "names h = []" by (auto simp: elems_def)
      moreover from this have "names g = []" using names_append_slash [of g "[]"] g by simp
      moreover have "names (g @ slash # w) = names g @ names w" by (rule names_append_slash)
      ultimately show ?thesis using na wl g by (cases g) (auto simp: path_append_def elems_def absolute_def)
    qed
  qed
qed

lemma elems_fold_names:
  "list_all is_name ws \<Longrightarrow> [] \<notin> set (elems h) \<Longrightarrow> elems (foldl path_append h ws) = elems h @ ws"
proof (induction ws arbitrary: h)
  case (Cons w ws)
  then have "elems (path_append h w) = elems h @ [w]" by (intro elems_append_name) auto
  moreover from this have "[] \<notin> set (elems (path_append h w))" using Cons.prems by (auto simp: is_name_def)
  ultimately show ?case using Cons.IH [of "path_append h w"] Cons.prems by simp
qed simp

lemma elems_suffix_names:
  assumes p: "p \<noteq> [] \<Longrightarrow> last p \<noteq> slash" and s: "elems p = hs @ es" "hs \<noteq> []"
  shows "list_all is_name es" "es \<noteq> [] \<Longrightarrow> [] \<notin> set hs"
proof -
  have e: "elems p = (if absolute p then [[slash]] else []) @ names p"
    using p by (cases "p = []") (auto simp: elems_def)
  have "list_all is_name (drop (length hs) (elems p))"
    unfolding e using s(2) names_are_names [of _ p]
    by (cases hs) (auto simp: list_all_iff dest!: in_set_dropD)
  then show "list_all is_name es" by (simp add: s(1))
  have "[] \<notin> set (elems p)" unfolding e using names_are_names [of _ p] by (auto simp: is_name_def)
  then show "es \<noteq> [] \<Longrightarrow> [] \<notin> set hs" by (simp add: s(1))
qed

lemma elems_not_Nil: "p \<noteq> [] \<Longrightarrow> elems p \<noteq> []"
proof -
  assume p: "p \<noteq> []"
  show ?thesis
  proof (cases "hd p = slash")
    case False
    with p obtain c cs where c: "p = c # cs" "c \<noteq> slash" by (cases p) auto
    then obtain w ws where "split_slash p = (c # w) # ws"
      by (cases "split_slash cs") auto
    then show ?thesis by (simp add: elems_def names_def)
  qed (use p in \<open>simp add: elems_def absolute_def\<close>)
qed

section \<open>From the search to the walk\<close>

text \<open>Keys are the names of their nodes, and host nodes have a host path.\<close>

fun tree_ok :: "path_node \<Rightarrow> bool" where
  "tree_ok (Path_node name child_nodes host_path type visibility) \<longleftrightarrow>
     distinct (map fst child_nodes) \<and> (type \<noteq> VIRTUAL \<longrightarrow> host_path \<noteq> []) \<and>
     (\<forall>(k, c) \<in> set child_nodes. k = n_name c \<and> is_name k \<and> tree_ok c)"

definition mapped :: "path \<Rightarrow> path_node \<Rightarrow> string list \<Rightarrow> bool" where
  "mapped p leaf iter \<longleftrightarrow> n_type leaf \<noteq> VIRTUAL \<and> n_host_path leaf \<noteq> [] \<and>
     (iter = [] \<and> path_eq (n_host_path leaf) p \<or>
      iter \<noteq> [] \<and> n_type leaf = HOST_FOLDER \<and> elems p = elems (n_host_path leaf) @ iter)"

lemma find_folder_elems:
  "find_folder_in_path p h \<noteq> [] \<Longrightarrow> elems p = elems h @ find_folder_in_path p h"
  using find_folder_loop_iff [of "elems p" "elems h" "find_folder_in_path p h"]
  by (simp add: find_folder_in_path_def)

lemma walk_child:
  "tree_ok n \<Longrightarrow> (k, c) \<in> set (n_child_nodes n) \<Longrightarrow> n_visibility c = VISIBLE \<Longrightarrow>
     walk True n (n_name c # es) = (if n_type c = HOST_FOLDER then Some (c, es) else walk True c es)"
  by (cases n) (auto simp: is_name_def slash_def)

lemma search_found:
  "search p up n = Some r \<Longrightarrow> tree_ok n \<Longrightarrow> n_visibility n = VISIBLE \<and>
     (\<exists>ws leaf iter. mapped p leaf iter \<and> list_all is_name ws \<and>
        r = foldl path_append (stack_to_path (up @ n_name n # ws)) iter \<and>
        (if n_type n = VIRTUAL then ws \<noteq> [] \<and> (\<forall>es. walk True n (ws @ es) = (if n_type leaf = HOST_FOLDER then Some (leaf, es) else walk True leaf es))
         else ws = [] \<and> leaf = n))"
  "search_list p up nodes = Some r \<Longrightarrow> n_child_nodes m = ns @ nodes \<Longrightarrow> tree_ok m \<Longrightarrow>
     (\<exists>ws leaf iter. mapped p leaf iter \<and> list_all is_name ws \<and>
        r = foldl path_append (stack_to_path (up @ ws)) iter \<and>
        ws \<noteq> [] \<and> (\<forall>es. walk True m (ws @ es) = (if n_type leaf = HOST_FOLDER then Some (leaf, es) else walk True leaf es)))"
proof (induction p up n and p up nodes arbitrary: r and r m ns rule: search_search_list.induct)
  case (1 path up name child_nodes host_path type visibility)
  let ?n = "Path_node name child_nodes host_path type visibility"
  have v: "visibility = VISIBLE" using 1(2) by (cases visibility) (auto split: if_splits)
  show ?case
  proof (cases "type = VIRTUAL")
    case True
    with 1(2) v have "search_list path (up @ [name]) child_nodes = Some r" by simp
    from 1(1) [OF _ True this, of ?n "[]"] v 1(3) True show ?thesis by auto
  next
    case False
    with 1(2,3) v show ?thesis
      by (intro conjI exI [of _ "[]"] exI [of _ ?n] exI [of _ "if path_eq host_path path then [] else find_folder_in_path path host_path"])
        (auto simp: mapped_def find_folder_elems split: if_splits)
  qed
next
  case (3 path up k node nodes)
  have c: "(k, node) \<in> set (n_child_nodes m)" using 3(4) by simp
  then have ok: "tree_ok node" "is_name (n_name node)" using 3(5) by (cases m, fastforce)+
  show ?case
  proof (cases "search path up node")
    case None
    with 3(2) [OF None, of r m "ns @ [(k, node)]"] 3(3-5) show ?thesis by simp
  next
    case (Some r')
    with 3(3) have "search path up node = Some r" by simp
    from 3(1) [OF this ok(1)] obtain ws leaf iter where v: "n_visibility node = VISIBLE"
      and ws: "mapped path leaf iter" "list_all is_name ws"
        "r = foldl path_append (stack_to_path (up @ n_name node # ws)) iter"
      and w: "if n_type node = VIRTUAL then ws \<noteq> [] \<and> (\<forall>es. walk True node (ws @ es) = (if n_type leaf = HOST_FOLDER then Some (leaf, es) else walk True leaf es))
         else ws = [] \<and> leaf = node" by blast
    have "walk True m (n_name node # ws @ es) = (if n_type leaf = HOST_FOLDER then Some (leaf, es) else walk True leaf es)" for es
      using walk_child [OF 3(5) c v, of "ws @ es"] w by (auto split: if_splits)
    with ws ok(2) show ?thesis
      by (intro exI [of _ "n_name node # ws"] exI [of _ leaf] exI [of _ iter]) simp
  qed
qed simp


section \<open>The round trip\<close>

lemma stack_to_path_Cons: "ns \<noteq> [] \<Longrightarrow> stack_to_path (n # ns) = n @ slash # stack_to_path ns"
  by (cases ns) auto

lemma trim_stack:
  assumes n: "is_name n" and ns: "list_all is_name ns" "ns \<noteq> []"
  shows "trim_node_name (replicate j slash @ n @ slash # stack_to_path ns) True = n @ slash # stack_to_path ns"
proof -
  have r: "dropWhile (\<lambda>c. c = slash) (replicate i slash @ s) = dropWhile (\<lambda>c. c = slash) s" for i s
    by (induction i) auto
  have d: "dropWhile (\<lambda>c. c = slash) (n @ s) = n @ s" for s
    using n by (cases n) (auto simp: is_name_def)
  have "is_name (last ns)" using ns by (simp add: list_all_iff)
  then have "stack_to_path ns \<noteq> []" "last (stack_to_path ns) \<noteq> slash"
    using stack_to_path_last [OF ns(2)] is_name_last [of "last ns"] by auto
  then obtain s c where s: "stack_to_path ns = s @ [c]" "c \<noteq> slash"
    by (cases "stack_to_path ns" rule: rev_cases) auto
  show ?thesis by (simp add: trim_node_name_def r d s)
qed

lemma find_stack:
  assumes root: "root_name_ok (n_name (fm_root_node m))" and ns: "list_all is_name ns" "ns \<noteq> []"
  shows "find_virtual_node m (stack_to_path (n_name (fm_root_node m) # ns)) True = walk True (fm_root_node m) ns"
proof -
  from root obtain n where n: "is_name n"
    "n_name (fm_root_node m) = [slash] @ n \<or> n_name (fm_root_node m) = [slash, slash] @ n"
    by (auto simp: root_name_ok_def)
  then obtain j where j: "n_name (fm_root_node m) = replicate j slash @ n"
    by (metis append_Cons append_Nil replicate_0 replicate_Suc)
  let ?s = "stack_to_path ns"
  have t: "trim_node_name (n_name (fm_root_node m)) True = n"
    using trim_name [OF n(1), of j 0] by (simp add: j)
  have e: "elems (slash # ?s) = [slash] # ns"
  proof -
    have "is_name (last ns)" using ns by (simp add: list_all_iff)
    then have "?s \<noteq> [] \<and> last ?s \<noteq> slash"
      using stack_to_path_last [OF ns(2)] is_name_last [of "last ns"] by auto
    then show ?thesis using names_stack [OF ns(1)] by (simp add: elems_def absolute_def)
  qed
  show ?thesis
    using trim_stack [OF n(1) ns, of j] t e
    by (simp add: find_virtual_node_def stack_to_path_Cons [OF ns(2)] j Let_def)
qed

lemma host_virtual_host_nodes:
  assumes root: "root_wf (fm_root_node m)" and tree: "tree_ok (fm_root_node m)"
    and s: "search p [] (fm_root_node m) = Some v" and p: "p \<noteq> [] \<Longrightarrow> last p \<noteq> slash"
  shows "\<exists>n rest host. find_virtual_node m v True = Some (n, rest) \<and>
    virtual_to_host_from (Some n) (Into_path rest) = Inr host \<and> path_eq host p"
proof -
  let ?r = "fm_root_node m"
  have virt: "n_type ?r = VIRTUAL" and name: "root_name_ok (n_name ?r)" using root by (auto simp: root_wf_def)
  from search_found(1) [OF s tree] virt obtain ws leaf iter where
    mapped: "mapped p leaf iter" and ws: "list_all is_name ws" "ws \<noteq> []"
    and v: "v = foldl path_append (stack_to_path (n_name ?r # ws)) iter"
    and w: "\<And>es. walk True ?r (ws @ es) = (if n_type leaf = HOST_FOLDER then Some (leaf, es) else walk True leaf es)"
    by auto
  have h: "elems (n_host_path leaf) \<noteq> []" using mapped elems_not_Nil by (simp add: mapped_def)
  have iter: "list_all is_name iter" "iter \<noteq> [] \<Longrightarrow> [] \<notin> set (elems (n_host_path leaf))"
    using mapped elems_suffix_names [OF p _ h] by (auto simp: mapped_def)
  have "is_name (last ws)" using ws by (simp add: list_all_iff)
  then have "v = stack_to_path (n_name ?r # ws @ iter)"
    using fold_append_stack [OF iter(1), of "n_name ?r # ws"] ws is_name_last [of "last ws"] by (simp add: v)
  moreover have "list_all is_name (ws @ iter)" "ws @ iter \<noteq> []" using ws iter(1) by auto
  ultimately have f: "find_virtual_node m v True = walk True ?r (ws @ iter)"
    using find_stack [OF name] by simp
  have f': "find_virtual_node m v True = Some (leaf, iter)"
    unfolding f w using mapped by (auto simp: mapped_def)
  moreover have "\<exists>host. virtual_to_host_from (Some leaf) (Into_path iter) = Inr host \<and> path_eq host p"
    using mapped iter elems_fold_names [OF iter(1), of "n_host_path leaf"]
    by (cases "iter = []") (auto simp: mapped_def path_eq_def)
  ultimately show ?thesis by blast
qed

section \<open>Properties\<close>

text \<open>C14: On every tree whose sibling keys differ, \<open>host_to_virtual\<close> terminates and returns what
  the recursive depth-first search finds: the first visible node that maps the path or
  contains it, or the empty path.\<close>

theorem host_to_virtual_correct:
  assumes "keys_distinct (fm_root_node m)"
  shows "host_to_virtual m path =
    Some (case search path [] (fm_root_node m) of Some r \<Rightarrow> r | None \<Rightarrow> [])"
  using assms by (rule host_to_virtual_search)

theorem host_to_virtual_correct_witness:
  "host_to_virtual sample_mapping ''/tmp/a'' = Some ''//fsp/tmp/a''"
  using host_to_virtual_correct [of sample_mapping "''/tmp/a''"]
  by (simp add: sample_mapping_def tmp_node_def path_eq_def elems_def names_def absolute_def slash_def
      find_folder_in_path_def path_append_def)



end
