(* ===== verification/File_Transfer.thy ===== *)
theory File_Transfer
  imports Virtual_Paths Protocol_Defs
begin

unbundle bit_operations_syntax

text \<open>
  \<open>source/TransferHandler.cpp\<close>: the four objects that follow a transfer, one per side for
  files and for file lists.

  The disk is a map from paths to the contents of regular files. The output stream of
  a download keeps what was written to it and puts it on the disk when it is closed; nobody
  else touches the temporary file meanwhile, and writes to the disk do not fail. Hashing
  (OpenSSL on the contents of a file) is the parameter \<open>file_hash\<close>, which gets \<open>None\<close> for
  a file that does not exist and may throw.
\<close>

section \<open>Streams\<close>

type_synonym disk = "path \<Rightarrow> bytes option"
type_synonym hasher = "hash_algorithm \<Rightarrow> bytes option \<Rightarrow> bytes result"

record out_file =
  of_content :: bytes
  of_pos :: nat
  of_open :: bool
  of_fail :: bool

definition overwrite :: "nat \<Rightarrow> bytes \<Rightarrow> bytes \<Rightarrow> bytes" where
  "overwrite pos data content =
     take pos content @ replicate (pos - length content) 0 @ data @ drop (pos + length data) content"

definition file_write :: "bytes \<Rightarrow> out_file \<Rightarrow> out_file" where
  "file_write data f =
     (if of_open f \<and> \<not> of_fail f \<and> data \<noteq> []
      then f\<lparr>of_content := overwrite (of_pos f) data (of_content f), of_pos := of_pos f + length data\<rparr>
      else f)"

text \<open>\<open>seekp\<close> takes a signed offset; a negative one sets the fail bit, after which nothing works.\<close>

definition file_seek :: "u64 \<Rightarrow> out_file \<Rightarrow> out_file" where
  "file_seek pos f =
     (if of_open f \<and> \<not> of_fail f
      then if unat pos < 2 ^ 63 then f\<lparr>of_pos := unat pos\<rparr> else f\<lparr>of_fail := True\<rparr>
      else f)"

section \<open>Downloads\<close>

record download =
  dl_filename :: path
  dl_temp_filename :: path
  dl_request :: send_file_data
  dl_missing_ids :: "u64 list"
  dl_expected_id :: u64
  dl_file :: out_file
  dl_transferred_size :: u64
  dl_keep :: bool

text \<open>\<open>can_open\<close> says whether the temporary file can be created.\<close>

definition download_new :: "hasher \<Rightarrow> (path \<Rightarrow> bool) \<Rightarrow> path \<Rightarrow> send_file_data \<Rightarrow> disk \<Rightarrow>
    (download \<times> disk) result" where
  "download_new file_hash can_open destination_filename original_request disk =
     (let temp = destination_filename @ ''.fsdownload'' in
      try_then (throw_if (disk temp \<noteq> None) (Up_to_date_error temp)) (\<lambda>_.
      try_then (if disk destination_filename \<noteq> None
                then try_then (file_hash (sf_hash_algorithm original_request) (disk destination_filename))
                  (\<lambda>h. Inr (h = sf_filehash original_request))
                else Inr False) (\<lambda>same.
      try_then (throw_if same (Up_to_date_error destination_filename)) (\<lambda>_.
        let ok = can_open temp in
        Inr (\<lparr>dl_filename = destination_filename, dl_temp_filename = temp, dl_request = original_request,
              dl_missing_ids = [], dl_expected_id = 0,
              dl_file = \<lparr>of_content = [], of_pos = 0, of_open = ok, of_fail = \<not> ok\<rparr>,
              dl_transferred_size = 0, dl_keep = False\<rparr>,
             if ok then disk(temp \<mapsto> []) else disk)))))"

definition dl_finished :: "download \<Rightarrow> bool" where
  "dl_finished d \<longleftrightarrow> \<not> of_open (dl_file d)"

definition close_file :: "download \<Rightarrow> disk \<Rightarrow> download \<times> disk" where
  "close_file d disk =
     (d\<lparr>dl_file := (dl_file d)\<lparr>of_open := False\<rparr>\<rparr>,
      if of_open (dl_file d) then disk(dl_temp_filename d \<mapsto> of_content (dl_file d)) else disk)"

definition finish_transfer :: "hasher \<Rightarrow> download \<Rightarrow> disk \<Rightarrow> unit result \<times> download \<times> disk" where
  "finish_transfer file_hash d disk =
     (case close_file d disk of (d, disk) \<Rightarrow>
        (case file_hash (sf_hash_algorithm (dl_request d)) (disk (dl_temp_filename d)) of
           Inl e \<Rightarrow> (Inl e, d, disk)
         | Inr h \<Rightarrow>
             if h = sf_filehash (dl_request d)
             then (Inr (), d, (disk(dl_filename d := disk (dl_temp_filename d)))(dl_temp_filename d := None))
             else (Inl (Runtime_error ''transferred file hash missmatch''), d, disk)))"

text \<open>The zeros written for the ids that were skipped, and those ids.\<close>

fun fill_missing :: "nat \<Rightarrow> u64 \<Rightarrow> download \<Rightarrow> download" where
  "fill_missing 0 i d = d"
| "fill_missing (Suc n) i d =
     fill_missing n (i + 1)
       (d\<lparr>dl_missing_ids := dl_missing_ids d @ [dl_expected_id d + i],
          dl_file := file_write (replicate (unat (sf_packet_size (dl_request d))) 0) (dl_file d)\<rparr>)"

text \<open>\<open>max_size()\<close> of a vector of 64-bit numbers and of a string.\<close>

definition ids_max_size :: nat where
  "ids_max_size = (2 ^ 63 - 1) div 8"

definition string_max_size :: nat where
  "string_max_size = 2 ^ 63 - 2"

definition dl_receive_packet :: "hasher \<Rightarrow> data_packet_data \<Rightarrow> download \<Rightarrow> disk \<Rightarrow>
    unit result \<times> download \<times> disk" where
  "dl_receive_packet file_hash data d disk =
     (let d = d\<lparr>dl_missing_ids := remove1 (dp_packet_id data) (dl_missing_ids d)\<rparr>;
          d = d\<lparr>dl_transferred_size := dl_transferred_size d + sv_size (dp_data data)\<rparr>;
          packet_size = sf_packet_size (dl_request d);
          total_packets = sf_total_packets (dl_request d) in
      if dp_packet_id data > dl_expected_id d then
        (let diff = dp_packet_id data - dl_expected_id d in
         if unat (of_nat (length (dl_missing_ids d)) + diff) > ids_max_size \<or> unat packet_size > string_max_size
         then (Inl Length_error, d, disk)
         else (Inr (), (fill_missing (unat diff) 0 d)\<lparr>dl_expected_id := dp_packet_id data + 1\<rparr>, disk))
      else if dp_packet_id data < dl_expected_id d then
        (let original_pos = of_nat (of_pos (dl_file d));
             f = file_seek (packet_size * dp_packet_id data) (dl_file d);
             f = file_write (dp_data data) f;
             f = file_seek original_pos f;
             d = d\<lparr>dl_file := f\<rparr> in
         if dl_missing_ids d = [] \<and> dl_expected_id d + 1 = total_packets
         then finish_transfer file_hash d disk
         else (Inr (), d, disk))
      else
        (let d = d\<lparr>dl_expected_id := dl_expected_id d + 1\<rparr>;
             last_packet = (dl_expected_id d = total_packets);
             d = d\<lparr>dl_file := file_write (dp_data data) (dl_file d)\<rparr> in
         if sv_size (dp_data data) \<noteq> packet_size \<and> \<not> last_packet
         then (Inl (Runtime_error ''Transfert size invalid''), d, disk)
         else if last_packet \<and> dl_missing_ids d = [] then finish_transfer file_hash d disk
         else (Inr (), d, disk)))"

definition get_current_size :: "download \<Rightarrow> u64" where
  "get_current_size d = dl_transferred_size d"

definition get_total_size :: "send_file_data \<Rightarrow> u64" where
  "get_total_size r = sf_total_packets r * sf_packet_size r"

section \<open>Uploads\<close>

record upload =
  up_request :: send_file_data
  up_packet_id :: u64
  up_content :: bytes
  up_pos :: nat
  up_open :: bool
  up_fail :: bool
  up_transferred_size :: u64

definition upload_new :: "disk \<Rightarrow> path \<Rightarrow> send_file_data \<Rightarrow> u64 \<Rightarrow> upload" where
  "upload_new disk filepath original_request packet_start =
     (let pos = sf_packet_size original_request * packet_start in
      case disk filepath of
        None \<Rightarrow> \<lparr>up_request = original_request, up_packet_id = 0, up_content = [], up_pos = 0,
                 up_open = False, up_fail = True, up_transferred_size = 0\<rparr>
      | Some content \<Rightarrow>
          \<lparr>up_request = original_request, up_packet_id = 0, up_content = content,
           up_pos = (if unat pos < 2 ^ 63 then unat pos else 0), up_open = True,
           up_fail = (\<not> unat pos < 2 ^ 63), up_transferred_size = 0\<rparr>)"

definition up_finished :: "upload \<Rightarrow> bool" where
  "up_finished u \<longleftrightarrow> \<not> up_open u"

text \<open>
  A \<open>read\<close> that meets the end of the file sets the fail bit; the stream is closed then, since
  fewer bytes came than were asked for.
\<close>

definition up_get_next_packet :: "byte \<Rightarrow> upload \<Rightarrow> (data_packet_data option \<times> upload) result" where
  "up_get_next_packet original_request_id u =
     (if up_finished u then Inr (None, u)
      else
        try_then (throw_if (unat (sf_packet_size (up_request u)) \<ge> 2 ^ 63) Length_error) (\<lambda>_.
        let n = unat (sf_packet_size (up_request u));
            data = (if up_fail u then [] else take n (drop (up_pos u) (up_content u)));
            packet = \<lparr>dp_request_id = original_request_id, dp_packet_id = up_packet_id u, dp_data = data\<rparr>
        in Inr (Some packet,
             u\<lparr>up_packet_id := up_packet_id u + 1, up_pos := up_pos u + length data,
               up_transferred_size := up_transferred_size u + sv_size data,
               up_open := \<not> length data < n\<rparr>)))"

section \<open>Sending file lists\<close>

text \<open>The entries of a directory come from the system: name and whether it is a directory.\<close>

record list_files_transfer =
  lf_requested_path :: path
  lf_path_node :: "path_node option"
  lf_directory_iterator :: "(string \<times> bool) list"
  lf_node_iterator :: node_map
  lf_packet_size :: u64
  lf_current_id :: u64
  lf_extra_packet_sent :: bool

definition list_files_new :: "(path \<Rightarrow> (string \<times> bool) list result) \<Rightarrow> path \<Rightarrow> file_mapping \<Rightarrow> u64 \<Rightarrow>
    list_files_transfer result" where
  "list_files_new list_directory requested_path m packet_size =
     (let requested_path = (if requested_path = [] then path_append ''//'' (n_name (fm_root_node m)) else requested_path);
          node = map_option fst (find_virtual_node m requested_path True);
          t = \<lparr>lf_requested_path = requested_path, lf_path_node = node, lf_directory_iterator = [],
               lf_node_iterator = [], lf_packet_size = packet_size, lf_current_id = 0,
               lf_extra_packet_sent = False\<rparr>
      in case node of
           None \<Rightarrow> Inr t
         | Some n \<Rightarrow>
             if n_type n = HOST_FOLDER then
               try_then (virtual_to_host_from node Dangling) (\<lambda>host_path.
                 if host_path \<noteq> []
                 then try_then (list_directory host_path) (\<lambda>es. Inr (t\<lparr>lf_directory_iterator := es\<rparr>))
                 else Inr t)
             else if n_type n = VIRTUAL then Inr (t\<lparr>lf_node_iterator := n_child_nodes n\<rparr>)
             else Inr t)"

definition max_count :: nat where
  "max_count = 255"

definition dir_file_info :: "path \<Rightarrow> string \<times> bool \<Rightarrow> file_info" where
  "dir_file_info requested_path = (\<lambda>(name, is_directory).
     \<lparr>fi_path = bytes_of_path (path_append requested_path name),
      fi_file_type = (if is_directory then DIRECTORY else FILE)\<rparr>)"

definition node_file_info :: "path \<Rightarrow> string \<times> path_node \<Rightarrow> file_info" where
  "node_file_info requested_path = (\<lambda>(_, node).
     \<lparr>fi_path = bytes_of_path (path_append requested_path (n_name node)),
      fi_file_type = (if n_type node = HOST_FILE then FILE else DIRECTORY)\<rparr>)"

definition lf_get_next_packet :: "(path \<Rightarrow> bool) \<Rightarrow> byte \<Rightarrow> list_files_transfer \<Rightarrow>
    file_list_data option \<times> list_files_transfer" where
  "lf_get_next_packet is_directory original_request_id t =
     (case lf_path_node t of
        None \<Rightarrow> (None, t)
      | Some node \<Rightarrow>
          if lf_extra_packet_sent t then (None, t)
          else
            let (files, t) =
              (case n_type node of
                 HOST_FOLDER \<Rightarrow>
                   (map (dir_file_info (lf_requested_path t)) (take max_count (lf_directory_iterator t)),
                    t\<lparr>lf_directory_iterator := drop max_count (lf_directory_iterator t)\<rparr>)
               | HOST_FILE \<Rightarrow>
                   (if lf_current_id t \<noteq> 0 \<or> is_directory (n_host_path node) then []
                    else [\<lparr>fi_path = bytes_of_path (lf_requested_path t), fi_file_type = FILE\<rparr>], t)
               | VIRTUAL \<Rightarrow>
                   (map (node_file_info (lf_requested_path t)) (take max_count (lf_node_iterator t)),
                    t\<lparr>lf_node_iterator := drop max_count (lf_node_iterator t)\<rparr>));
              packet = \<lparr>fl_request_id = original_request_id, fl_packet_id = lf_current_id t, fl_files = files\<rparr>;
              t = t\<lparr>lf_current_id := lf_current_id t + 1\<rparr>
            in (Some packet, if files = [] then t\<lparr>lf_extra_packet_sent := True\<rparr> else t))"

definition lf_finished :: "list_files_transfer \<Rightarrow> bool" where
  "lf_finished t =
     (case lf_path_node t of
        None \<Rightarrow> True
      | Some node \<Rightarrow>
          (case n_type node of
             HOST_FOLDER \<Rightarrow> lf_directory_iterator t = []
           | HOST_FILE \<Rightarrow> lf_current_id t = 1
           | VIRTUAL \<Rightarrow> lf_node_iterator t = []))"

section \<open>Receiving file lists\<close>

text \<open>
  The flag \<open>m_finished\<close> has no initialiser; \<open>try_emplace\<close>, which creates these objects,
  value-initialises them, so it starts as false.
\<close>

record file_list_transfer =
  ft_file_list :: "file_info list"
  ft_current_id :: u64
  ft_missing_ids :: "u64 list"
  ft_finished_flag :: bool

definition file_list_new :: file_list_transfer where
  "file_list_new = \<lparr>ft_file_list = [], ft_current_id = 0, ft_missing_ids = [], ft_finished_flag = False\<rparr>"

definition ft_receive_packet :: "file_list_data \<Rightarrow> file_list_transfer \<Rightarrow> file_list_transfer" where
  "ft_receive_packet data t =
     (let accept = (\<lambda>t.
        if fl_files data = [] then t\<lparr>ft_finished_flag := True\<rparr>
        else t\<lparr>ft_file_list := ft_file_list t @ fl_files data\<rparr>) in
      if fl_packet_id data > ft_current_id t then
        accept (t\<lparr>ft_missing_ids := ft_missing_ids t @ map of_nat [unat (ft_current_id t)..<unat (fl_packet_id data)],
                  ft_current_id := fl_packet_id data\<rparr>)
      else if fl_packet_id data < ft_current_id t then
        (if fl_packet_id data \<in> set (ft_missing_ids t)
         then accept (t\<lparr>ft_missing_ids := remove1 (fl_packet_id data) (ft_missing_ids t)\<rparr>)
         else t)
      else accept (t\<lparr>ft_current_id := ft_current_id t + 1\<rparr>))"

definition ft_finished :: "file_list_transfer \<Rightarrow> bool" where
  "ft_finished t \<longleftrightarrow> ft_missing_ids t = [] \<and> ft_finished_flag t"

end
