(* ===== verification/Transfer_Laws.thy ===== *)
theory Transfer_Laws
  imports File_Transfer
begin

text \<open>
  What the transfers achieve: a file sent and received in order arrives, and so does a file
  list; what happens to packets out of order.
\<close>

section \<open>Receiving in order\<close>

text \<open>Packets handed to a download until one makes it throw.\<close>

fun dl_receive_all :: "hasher \<Rightarrow> data_packet_data list \<Rightarrow> download \<Rightarrow> disk \<Rightarrow> unit result \<times> download \<times> disk" where
  "dl_receive_all file_hash [] d disk = (Inr (), d, disk)"
| "dl_receive_all file_hash (p # ps) d disk =
     (case dl_receive_packet file_hash p d disk of
        (Inl e, d, disk) \<Rightarrow> (Inl e, d, disk)
      | (Inr _, d, disk) \<Rightarrow> dl_receive_all file_hash ps d disk)"

text \<open>A download that has received the first bytes \<open>c\<close> in \<open>k\<close> packets, none missing.\<close>

definition received_so_far :: "download \<Rightarrow> nat \<Rightarrow> bytes \<Rightarrow> bool" where
  "received_so_far d k c \<longleftrightarrow> dl_missing_ids d = [] \<and> dl_expected_id d = of_nat k \<and>
     dl_file d = \<lparr>of_content = c, of_pos = length c, of_open = True, of_fail = False\<rparr>"

definition data_packet :: "byte \<Rightarrow> nat \<Rightarrow> bytes \<Rightarrow> data_packet_data" where
  "data_packet i k data = \<lparr>dp_request_id = i, dp_packet_id = of_nat k, dp_data = data\<rparr>"

lemma overwrite_end: "overwrite (length c) data c = c @ data"
  by (simp add: overwrite_def)

lemma file_write_end:
  "file_write data \<lparr>of_content = c, of_pos = length c, of_open = True, of_fail = False\<rparr> =
     \<lparr>of_content = c @ data, of_pos = length (c @ data), of_open = True, of_fail = False\<rparr>"
  by (simp add: file_write_def overwrite_end)

lemma receive_in_order_more:
  assumes d: "received_so_far d k c" and total: "sf_total_packets (dl_request d) = of_nat n"
    and k: "Suc k < n" "n < 2 ^ 64" and size: "length data = unat (sf_packet_size (dl_request d))"
  shows "\<exists>d'. dl_receive_packet file_hash (data_packet i k data) d disk = (Inr (), d', disk) \<and>
    received_so_far d' (Suc k) (c @ data) \<and> dl_request d' = dl_request d \<and>
    dl_filename d' = dl_filename d \<and> dl_temp_filename d' = dl_temp_filename d"
proof -
  have ne: "(of_nat k + 1 :: u64) \<noteq> of_nat n"
  proof
    assume e: "(of_nat k + 1 :: u64) = of_nat n"
    then have "unat (of_nat (Suc k) :: u64) = unat (of_nat n :: u64)" by (simp add: add.commute)
    moreover have "unat (of_nat (Suc k) :: u64) = Suc k" by (rule unat_of_nat_u64) (use k in simp)
    moreover have "unat (of_nat n :: u64) = n" by (rule unat_of_nat_u64) (use k in simp)
    ultimately show False using k by simp
  qed
  have s: "sv_size data = sf_packet_size (dl_request d)" by (simp add: sv_size_def size)
  show ?thesis
    using d ne s total
    by (simp add: dl_receive_packet_def received_so_far_def data_packet_def Let_def file_write_end add.commute)
qed

lemma receive_in_order_last:
  assumes d: "received_so_far d k c" and total: "sf_total_packets (dl_request d) = of_nat (Suc k)"
    and hash: "file_hash (sf_hash_algorithm (dl_request d)) (Some (c @ data)) = Inr (sf_filehash (dl_request d))"
  shows "\<exists>d'. dl_receive_packet file_hash (data_packet i k data) d disk =
      (Inr (), d', (disk(dl_filename d \<mapsto> c @ data))(dl_temp_filename d := None)) \<and> dl_finished d'"
  using d total hash
  by (simp add: dl_receive_packet_def received_so_far_def data_packet_def Let_def file_write_end
      finish_transfer_def close_file_def dl_finished_def fun_upd_twist)

definition packets :: "byte \<Rightarrow> nat \<Rightarrow> bytes list \<Rightarrow> data_packet_data list" where
  "packets i k cs = map (\<lambda>(j, c). data_packet i j c) (zip [k..<k + length cs] cs)"

lemma packets_Cons: "packets i k (c # cs) = data_packet i k c # packets i (Suc k) cs"
proof -
  have "[k..<k + Suc (length cs)] = k # [Suc k..<Suc k + length cs]" by (simp add: upt_rec)
  then show ?thesis by (simp add: packets_def)
qed

lemma receive_in_order:
  assumes "received_so_far d k c" "cs \<noteq> []" "sf_total_packets (dl_request d) = of_nat (k + length cs)"
    and "k + length cs < 2 ^ 64" "\<forall>x \<in> set (butlast cs). length x = unat (sf_packet_size (dl_request d))"
    and "file_hash (sf_hash_algorithm (dl_request d)) (Some (c @ concat cs)) = Inr (sf_filehash (dl_request d))"
  shows "\<exists>d'. dl_receive_all file_hash (packets i k cs) d disk =
      (Inr (), d', (disk(dl_filename d \<mapsto> c @ concat cs))(dl_temp_filename d := None)) \<and> dl_finished d'"
  using assms
proof (induction cs arbitrary: d k c)
  case (Cons x cs)
  show ?case
  proof (cases "cs = []")
    case True
    with receive_in_order_last [of d k c file_hash x i disk] Cons.prems show ?thesis
      by (auto simp: packets_Cons) (auto simp: packets_def)
  next
    case False
    then have "length x = unat (sf_packet_size (dl_request d))" using Cons.prems(5) by simp
    from receive_in_order_more [OF Cons.prems(1,3) _ Cons.prems(4) this, of file_hash i disk] False
    obtain d' where d': "dl_receive_packet file_hash (data_packet i k x) d disk = (Inr (), d', disk)"
      "received_so_far d' (Suc k) (c @ x)" "dl_request d' = dl_request d"
      "dl_filename d' = dl_filename d" "dl_temp_filename d' = dl_temp_filename d"
      by (auto simp: Suc_lessI)
    have "dl_receive_all file_hash (packets i k (x # cs)) d disk = dl_receive_all file_hash (packets i (Suc k) cs) d' disk"
      by (simp add: packets_Cons d'(1))
    moreover have "\<exists>d''. dl_receive_all file_hash (packets i (Suc k) cs) d' disk =
      (Inr (), d'', (disk(dl_filename d' \<mapsto> (c @ x) @ concat cs))(dl_temp_filename d' := None)) \<and> dl_finished d''"
      by (rule Cons.IH [OF d'(2) False]) (use Cons.prems d'(3) False in auto)
    ultimately show ?thesis by (simp only: d'(4,5) concat.simps append_assoc)
  qed
qed simp

section \<open>Cutting a file into packets\<close>

function chunks :: "nat \<Rightarrow> 'a list \<Rightarrow> 'a list list" where
  "chunks n c = (if c = [] \<or> n = 0 then [] else take n c # chunks n (drop n c))"
  by pat_completeness auto
termination by (relation "measure (\<lambda>(n, c). length c)") auto

declare chunks.simps [simp del]

lemma concat_chunks: "0 < n \<Longrightarrow> concat (chunks n c) = c"
  by (induction n c rule: chunks.induct) (subst chunks.simps, auto)

lemma chunks_full: "0 < n \<Longrightarrow> \<forall>x \<in> set (butlast (chunks n c)). length x = n"
proof (induction n c rule: chunks.induct)
  case (1 n c)
  show ?case
  proof (cases "chunks n (drop n c) = []")
    case True
    then show ?thesis by (subst chunks.simps) simp
  next
    case False
    then have "n < length c" using chunks.simps [of n "drop n c"] by (auto split: if_splits)
    then show ?thesis using 1 by (subst chunks.simps) auto
  qed
qed

lemma length_chunks: "0 < n \<Longrightarrow> length (chunks n c) = length c div n + (if length c mod n = 0 then 0 else 1)"
proof (induction n c rule: chunks.induct)
  case (1 n c)
  show ?case
  proof (cases "n \<le> length c")
    case True
    then have "c \<noteq> []" using 1(2) by auto
    then have "length (chunks n c) = Suc (length (chunks n (drop n c)))" using 1(2) by (subst chunks.simps) simp
    also have "\<dots> = Suc ((length c - n) div n + (if (length c - n) mod n = 0 then 0 else 1))"
      using 1 \<open>c \<noteq> []\<close> by simp
    also have "\<dots> = length c div n + (if length c mod n = 0 then 0 else 1)"
      using True 1(2) by (simp add: le_div_geq le_mod_geq)
    finally show ?thesis .
  next
    case False
    then show ?thesis
      by (subst chunks.simps) (auto simp: chunks.simps [of n "[]"])
  qed
qed

text \<open>What an upload sends, packet by packet, until it has finished.\<close>

fun up_packets :: "nat \<Rightarrow> byte \<Rightarrow> upload \<Rightarrow> data_packet_data list result" where
  "up_packets 0 i u = Inr []"
| "up_packets (Suc n) i u =
     try_then (up_get_next_packet i u) (\<lambda>(p, u).
       case p of None \<Rightarrow> Inr [] | Some p \<Rightarrow> try_then (up_packets n i u) (\<lambda>ps. Inr (p # ps)))"

definition sends :: "nat \<Rightarrow> bytes \<Rightarrow> bytes list" where
  "sends n c = chunks n c @ (if length c mod n = 0 then [[]] else [])"

lemma sends_rec: "0 < n \<Longrightarrow> sends n c = (if length c < n then [c] else take n c # sends n (drop n c))"
proof -
  assume n: "0 < n"
  show ?thesis
  proof (cases "length c < n")
    case True
    then show ?thesis using n
      by (cases "c = []") (auto simp: sends_def chunks.simps [of n c] chunks.simps [of n "[]"])
  next
    case False
    then have "c \<noteq> []" using n by auto
    then show ?thesis using n False
      by (simp add: sends_def chunks.simps [of n c] le_mod_geq)
  qed
qed

definition uploading :: "upload \<Rightarrow> nat \<Rightarrow> bytes \<Rightarrow> bool" where
  "uploading u k c \<longleftrightarrow> up_open u \<and> \<not> up_fail u \<and> up_packet_id u = of_nat k \<and> drop (up_pos u) (up_content u) = c"

lemma up_step:
  assumes "unat (sf_packet_size (up_request u)) = n" "n < 2 ^ 63" "uploading u k c"
  shows "\<exists>u'. up_get_next_packet i u = Inr (Some (data_packet i k (take n c)), u') \<and>
    (up_open u' \<longleftrightarrow> \<not> length (take n c) < n) \<and> up_request u' = up_request u \<and> \<not> up_fail u' \<and>
    up_packet_id u' = of_nat (Suc k) \<and> drop (up_pos u') (up_content u') = drop n c"
proof -
  have c: "drop (up_pos u) (up_content u) = c" using assms(3) by (simp add: uploading_def)
  have "drop (length (take n c)) c = drop n c" by (cases "n \<le> length c") auto
  then have "drop (length (take n c) + up_pos u) (up_content u) = drop n c"
    by (simp only: c flip: drop_drop)
  then show ?thesis
    using assms by (simp add: up_get_next_packet_def uploading_def up_finished_def data_packet_def Let_def add.commute)
qed

lemma up_packets_sends:
  assumes "unat (sf_packet_size (up_request u)) = n" "0 < n" "n < 2 ^ 63" "uploading u k c" "length (sends n c) < m"
  shows "up_packets m i u = Inr (packets i k (sends n c))"
  using assms
proof (induction m arbitrary: u k c)
  case (Suc m)
  obtain u' where u': "up_get_next_packet i u = Inr (Some (data_packet i k (take n c)), u')"
    "up_open u' \<longleftrightarrow> \<not> length (take n c) < n" "up_request u' = up_request u" "\<not> up_fail u'"
    "up_packet_id u' = of_nat (Suc k)" "drop (up_pos u') (up_content u') = drop n c"
    using up_step [OF Suc.prems(1,3,4), of i] by blast
  show ?case
  proof (cases "length c < n")
    case True
    then have "\<not> up_open u'" using u'(2) by simp
    then have "up_packets m i u' = Inr []"
      by (cases m) (simp_all add: up_get_next_packet_def up_finished_def)
    then show ?thesis
      using u'(1) True sends_rec [OF Suc.prems(2), of c] by (simp add: packets_Cons) (simp add: packets_def)
  next
    case False
    then have "uploading u' (Suc k) (drop n c)" using u' by (simp add: uploading_def)
    then have "up_packets m i u' = Inr (packets i (Suc k) (sends n (drop n c)))"
      using Suc.IH [of u' "Suc k" "drop n c"] Suc.prems u'(3) False sends_rec [OF Suc.prems(2), of c] by simp
    then show ?thesis
      using u'(1) False sends_rec [OF Suc.prems(2), of c] by (simp add: packets_Cons)
  qed
qed simp

section \<open>File lists\<close>

fun lf_packets :: "(path \<Rightarrow> bool) \<Rightarrow> nat \<Rightarrow> byte \<Rightarrow> list_files_transfer \<Rightarrow> file_list_data list" where
  "lf_packets is_directory 0 i t = []"
| "lf_packets is_directory (Suc n) i t =
     (case lf_get_next_packet is_directory i t of
        (None, t) \<Rightarrow> []
      | (Some p, t) \<Rightarrow> p # lf_packets is_directory n i t)"

definition list_packets :: "byte \<Rightarrow> nat \<Rightarrow> file_info list list \<Rightarrow> file_list_data list" where
  "list_packets i k fs =
     map (\<lambda>(j, f). \<lparr>fl_request_id = i, fl_packet_id = of_nat j, fl_files = f\<rparr>) (zip [k..<k + length fs] fs)"

lemma list_packets_Cons:
  "list_packets i k (f # fs) = \<lparr>fl_request_id = i, fl_packet_id = of_nat k, fl_files = f\<rparr> # list_packets i (Suc k) fs"
proof -
  have "[k..<k + Suc (length fs)] = k # [Suc k..<Suc k + length fs]" by (simp add: upt_rec)
  then show ?thesis by (simp add: list_packets_def)
qed

lemma list_packets_Nil [simp]: "list_packets i k [] = []"
  by (simp add: list_packets_def)

lemma chunks_Nil [simp]: "chunks n [] = []"
  by (simp add: chunks.simps)

lemma lf_packets_virtual:
  assumes "lf_path_node t = Some node" "n_type node = VIRTUAL" "\<not> lf_extra_packet_sent t"
    and "lf_current_id t = of_nat k" "Suc (length (lf_node_iterator t)) < m"
  shows "lf_packets is_directory m i t =
    list_packets i k (map (map (node_file_info (lf_requested_path t))) (chunks max_count (lf_node_iterator t)) @ [[]])"
  using assms
proof (induction m arbitrary: t k)
  case (Suc m)
  let ?ns = "lf_node_iterator t"
  show ?case
  proof (cases "?ns = []")
    case True
    then obtain m' where "m = Suc m'" using Suc.prems(5) by (cases m) auto
    with True Suc.prems show ?thesis
      by (simp add: lf_get_next_packet_def list_packets_Cons Let_def)
  next
    case False
    let ?t = "t\<lparr>lf_node_iterator := drop max_count ?ns, lf_current_id := of_nat (Suc k)\<rparr>"
    have "0 < length ?ns" using False by simp
    then have left: "Suc (length (drop max_count ?ns)) < m"
      using Suc.prems(5) by (simp add: max_count_def del: length_greater_0_conv)
    have next_packet: "lf_get_next_packet is_directory i t =
        (Some \<lparr>fl_request_id = i, fl_packet_id = of_nat k,
               fl_files = map (node_file_info (lf_requested_path t)) (take max_count ?ns)\<rparr>, ?t)"
      using Suc.prems False by (simp add: lf_get_next_packet_def Let_def max_count_def add.commute)
    have "lf_packets is_directory m i ?t =
      list_packets i (Suc k) (map (map (node_file_info (lf_requested_path t))) (chunks max_count (drop max_count ?ns)) @ [[]])"
      using Suc.IH [of ?t "Suc k"] Suc.prems(1-4) left by simp
    moreover have "chunks max_count ?ns = take max_count ?ns # chunks max_count (drop max_count ?ns)"
      using False by (subst chunks.simps) (simp add: max_count_def)
    ultimately show ?thesis by (simp add: next_packet list_packets_Cons)
  qed
qed simp

lemma ft_receive_in_order:
  assumes "ft_current_id t = of_nat k" "ft_missing_ids t = []"
  shows "foldl (\<lambda>t p. ft_receive_packet p t) t (list_packets i k fs) =
    t\<lparr>ft_file_list := ft_file_list t @ concat fs, ft_current_id := of_nat (k + length fs),
      ft_finished_flag := ft_finished_flag t \<or> [] \<in> set fs\<rparr>"
  using assms
proof (induction fs arbitrary: t k)
  case (Cons f fs)
  have step: "ft_receive_packet \<lparr>fl_request_id = i, fl_packet_id = of_nat k, fl_files = f\<rparr> t =
      t\<lparr>ft_file_list := ft_file_list t @ f, ft_current_id := of_nat (Suc k),
        ft_finished_flag := ft_finished_flag t \<or> [] = f\<rparr>"
    using Cons.prems by (cases t) (auto simp: ft_receive_packet_def Let_def add.commute)
  show ?case
    unfolding list_packets_Cons foldl_Cons step
    by (subst Cons.IH [where k = "Suc k"]) (use Cons.prems in \<open>auto simp: add_ac\<close>)
qed simp

lemma fill_missing_cong:
  assumes "dl_missing_ids d = dl_missing_ids e" "dl_file d = dl_file e" "dl_expected_id d = dl_expected_id e"
    "dl_request d = dl_request e"
  shows "dl_missing_ids (fill_missing n i d) = dl_missing_ids (fill_missing n i e)"
    and "dl_file (fill_missing n i d) = dl_file (fill_missing n i e)"
  using assms by (induction n arbitrary: i d e) simp_all

section \<open>Properties\<close>


definition sample_request :: send_file_data where
  "sample_request = \<lparr>sf_filepath = [], sf_hash_algorithm = MD5, sf_filehash = [1], sf_last_updated = 0,
     sf_packet_size = 2, sf_total_packets = 2\<rparr>"


text \<open>A data packet ahead of its turn loses its data: what is written and what is noted as
  missing do not depend on the data, and the next expected id is behind the packet.\<close>

theorem early_packet_lost:
  assumes "dp_packet_id p > dl_expected_id d" "dl_receive_packet file_hash p d disk = (Inr (), d', disk')"
  shows "\<exists>d''. dl_receive_packet file_hash (p\<lparr>dp_data := x\<rparr>) d disk = (Inr (), d'', disk') \<and>
    dl_file d'' = dl_file d' \<and> dl_missing_ids d'' = dl_missing_ids d' \<and>
    dl_expected_id d' = dp_packet_id p + 1 \<and> dl_expected_id d'' = dp_packet_id p + 1"
  using assms
  by (auto simp: dl_receive_packet_def Let_def split: if_splits intro!: fill_missing_cong)

definition sample_download :: download where
  "sample_download = \<lparr>dl_filename = ''f'', dl_temp_filename = ''f.fsdownload'', dl_request = sample_request,
     dl_missing_ids = [], dl_expected_id = 0,
     dl_file = \<lparr>of_content = [], of_pos = 0, of_open = True, of_fail = False\<rparr>,
     dl_transferred_size = 0, dl_keep = False\<rparr>"

theorem early_packet_lost_witness:
  "\<exists>d'. dl_receive_packet (\<lambda>_ _. Inr []) (data_packet 0 1 [9, 9]) sample_download Map.empty = (Inr (), d', Map.empty) \<and>
     dl_expected_id d' = 2"
proof -
  obtain d' where d': "dl_receive_packet (\<lambda>_ _. Inr []) (data_packet 0 1 [8]) sample_download Map.empty = (Inr (), d', Map.empty)"
    by (simp add: dl_receive_packet_def data_packet_def sample_download_def sample_request_def ids_max_size_def
        string_max_size_def Let_def)
  from early_packet_lost [OF _ d', of "[9, 9]"] show ?thesis
    by (simp add: data_packet_def sample_download_def) blast
qed

text \<open>Two packets that arrive in the wrong order leave a download stuck: nothing is missing, it
  has not finished, and it holds the first packet's bytes only.\<close>

theorem swapped_packets_stuck:
  assumes "received_so_far d 0 []" "sf_total_packets (dl_request d) = 2"
    and "length x = n" "unat (sf_packet_size (dl_request d)) = n" "0 < n" "n < 2 ^ 62"
  shows "\<exists>d'. dl_receive_all file_hash [data_packet i 1 y, data_packet i 0 x] d disk = (Inr (), d', disk) \<and>
    dl_missing_ids d' = [] \<and> \<not> dl_finished d' \<and> of_content (dl_file d') = x"
proof -
  let ?f = "\<lparr>of_content = replicate n 0, of_pos = n, of_open = True, of_fail = False\<rparr>"
  have "file_write (replicate n 0) \<lparr>of_content = [], of_pos = 0, of_open = True, of_fail = False\<rparr> = ?f"
    using file_write_end [of "replicate n 0" "[]"] by simp
  then obtain d1 where d1: "dl_receive_packet file_hash (data_packet i 1 y) d disk = (Inr (), d1, disk)"
    "dl_missing_ids d1 = [0]" "dl_expected_id d1 = 2" "dl_file d1 = ?f" "dl_request d1 = dl_request d"
    using assms
    by (simp add: dl_receive_packet_def received_so_far_def data_packet_def Let_def ids_max_size_def string_max_size_def)
  have n: "unat (of_nat n :: u64) = n" by (rule unat_of_nat_u64) (use assms(6) in simp)
  have "file_write x (file_seek 0 ?f) = \<lparr>of_content = x, of_pos = n, of_open = True, of_fail = False\<rparr>"
    using assms(3,5) by (auto simp: file_seek_def file_write_def overwrite_def)
  with d1 n assms show ?thesis
    by (simp add: dl_receive_packet_def data_packet_def Let_def dl_finished_def file_seek_def)
qed

theorem swapped_packets_stuck_witness:
  "\<exists>d'. dl_receive_all (\<lambda>_ _. Inr []) [data_packet 0 1 [9], data_packet 0 0 [7, 7]] sample_download Map.empty =
       (Inr (), d', Map.empty) \<and> \<not> dl_finished d'"
  using swapped_packets_stuck [of sample_download "[7, 7]" 2 "\<lambda>_ _. Inr []" 0 "[9]" Map.empty]
  by (auto simp: received_so_far_def sample_download_def sample_request_def)

text \<open>C35: A virtual folder is listed completely: the packets the sender produces, received in
  order, give the entry of every child, in the order of the node map, and finish the
  transfer.\<close>

theorem file_list_arrives:
  assumes "find_virtual_node m q True = Some (node, rest)" "n_type node = VIRTUAL" "q \<noteq> []"
    and "Suc (length (n_child_nodes node)) < k"
  shows "\<exists>t. list_files_new list_directory q m packet_size = Inr t \<and>
    (let received = foldl (\<lambda>t p. ft_receive_packet p t) file_list_new (lf_packets is_directory k i t)
     in ft_file_list received = map (node_file_info q) (n_child_nodes node) \<and> ft_finished received)"
proof -
  let ?ns = "n_child_nodes node"
  let ?fs = "map (map (node_file_info q)) (chunks max_count ?ns) @ [[]]"
  obtain t where t: "list_files_new list_directory q m packet_size = Inr t"
    "lf_requested_path t = q" "lf_path_node t = Some node" "\<not> lf_extra_packet_sent t" "lf_current_id t = of_nat 0"
    "lf_node_iterator t = ?ns"
    using assms(1-3) by (simp add: list_files_new_def Let_def)
  have "lf_packets is_directory k i t = list_packets i 0 ?fs"
    using lf_packets_virtual [OF t(3) assms(2) t(4,5), of k is_directory i] assms(4) t(2,6) by simp
  moreover have "concat ?fs = map (node_file_info q) ?ns"
    using concat_chunks [of max_count ?ns] by (simp add: max_count_def flip: map_concat)
  moreover have "ft_current_id file_list_new = of_nat 0" "ft_missing_ids file_list_new = []"
    by (simp_all add: file_list_new_def)
  note ft_receive_in_order [OF this, of i ?fs]
  ultimately show ?thesis
    using t(1) by (intro exI [of _ t]) (simp add: ft_finished_def file_list_new_def Let_def)
qed

theorem file_list_arrives_witness:
  "\<exists>t. list_files_new (\<lambda>_. Inr []) ''//fsp'' sample_mapping 0 = Inr t \<and>
     ft_file_list (foldl (\<lambda>t p. ft_receive_packet p t) file_list_new (lf_packets (\<lambda>_. False) 3 0 t)) =
       [\<lparr>fi_path = bytes_of_path ''//fsp/tmp'', fi_file_type = DIRECTORY\<rparr>]"
proof -
  have f: "find_virtual_node sample_mapping ''//fsp'' True = Some (fm_root_node sample_mapping, [])"
    by (simp add: find_virtual_node_def sample_mapping_def trim_node_name_def slash_def starts_with_def
      elems_def names_def absolute_def Let_def)
  show ?thesis
    using file_list_arrives [OF f, of 3 "\<lambda>_. Inr []" 0 "\<lambda>_. False" 0]
    by (auto simp: sample_mapping_def tmp_node_def node_file_info_def path_append_def absolute_def slash_def Let_def)
qed

text \<open>File list packets out of order break the bookkeeping: after the packets 1, 0 and the
  final 2, each received once, the transfer takes packet 1 for missing and has not finished.\<close>

theorem file_list_out_of_order:
  assumes "f0 \<noteq> []" "f1 \<noteq> []"
  shows "let t = foldl (\<lambda>t p. ft_receive_packet p t) file_list_new
      [\<lparr>fl_request_id = i, fl_packet_id = 1, fl_files = f1\<rparr>,
       \<lparr>fl_request_id = i, fl_packet_id = 0, fl_files = f0\<rparr>,
       \<lparr>fl_request_id = i, fl_packet_id = 2, fl_files = []\<rparr>]
    in ft_file_list t = f1 @ f0 \<and> ft_missing_ids t = [1] \<and> \<not> ft_finished t"
  using assms by (simp add: ft_receive_packet_def file_list_new_def ft_finished_def Let_def upt_conv_Cons)

theorem file_list_out_of_order_witness:
  "\<not> ft_finished (foldl (\<lambda>t p. ft_receive_packet p t) file_list_new
      [\<lparr>fl_request_id = 0, fl_packet_id = 1, fl_files = [\<lparr>fi_path = [98], fi_file_type = FILE\<rparr>]\<rparr>,
       \<lparr>fl_request_id = 0, fl_packet_id = 0, fl_files = [\<lparr>fi_path = [97], fi_file_type = FILE\<rparr>]\<rparr>,
       \<lparr>fl_request_id = 0, fl_packet_id = 2, fl_files = []\<rparr>])"
  using file_list_out_of_order [of "[\<lparr>fi_path = [97], fi_file_type = FILE\<rparr>]"
      "[\<lparr>fi_path = [98], fi_file_type = FILE\<rparr>]" 0]
  by (simp only: Let_def list.distinct not_False_eq_True simp_thms)

end
