(* ===== verification/Peer.thy ===== *)
theory Peer
  imports Pre_Auth_Peer Message_Queue Transfer_Laws
begin

text \<open>
  \<open>source/Peer/Peer.cpp\<close> and \<open>source/Peer/Peer_private.cpp\<close>: a trusted peer. It answers
  the requests that arrive, follows the transfers in both directions and sends requests of its
  own; every operation is an action on the state below.

  What the code gets from the system is in the record \<open>peer_world\<close>: the socket, the hash of
  file contents, whether a file can be created, the lookup in a hash set of paths, directories,
  dates, and the order in which a copy of a hash map is iterated.
\<close>

section \<open>State\<close>

record 's peer = "'s peer_base" +
  pr_file_mapping :: file_mapping
  pr_downloads_folder :: path
  pr_protocol :: protocol
  pr_request_buffer :: "request list"
  pr_queue :: message_queue
  pr_downloads :: "byte \<Rightarrow> download option"
  pr_uploads :: "byte \<Rightarrow> upload option"
  pr_list_files :: "byte \<Rightarrow> list_files_transfer option"
  pr_file_lists :: "byte \<Rightarrow> file_list_transfer option"
  pr_disk :: disk

record 's peer_world = "'s socket_ops" +
  w_file_hash :: hasher
  w_can_open :: "path \<Rightarrow> bool"
  w_set_contains :: "path list \<Rightarrow> path \<Rightarrow> bool"
  w_list_directory :: "path \<Rightarrow> (string \<times> bool) list result"
  w_is_directory :: "path \<Rightarrow> bool"
  w_last_write_time :: "path \<Rightarrow> file_time result"
  w_order :: "(byte \<Rightarrow> message option) \<Rightarrow> byte list"
  w_poll :: "'s \<Rightarrow> int"

text \<open>\<open>Peer(PreAuthPeer &&, Config)\<close>: the base is moved, the transfers start empty.\<close>

definition peer_new :: "'s pre_auth_peer \<Rightarrow> file_mapping \<Rightarrow> path \<Rightarrow> disk \<Rightarrow> 's peer result" where
  "peer_new p file_mapping downloads_folder disk =
     try_then (pa_get_protocol p) (\<lambda>protocol.
       Inr \<lparr>pb_socket = pb_socket p, pb_device_uuid = pb_device_uuid p, pb_device_name = pb_device_name p,
            pb_public_key = pb_public_key p, pb_buffer = pb_buffer p,
            pr_file_mapping = file_mapping, pr_downloads_folder = downloads_folder, pr_protocol = protocol,
            pr_request_buffer = [], pr_queue = queue_new, pr_downloads = Map.empty, pr_uploads = Map.empty,
            pr_list_files = Map.empty, pr_file_lists = Map.empty, pr_disk = disk\<rparr>)"

text \<open>\<open>unordered_map::emplace\<close> keeps an element that is there.\<close>

definition map_emplace :: "'k \<Rightarrow> 'v \<Rightarrow> ('k \<Rightarrow> 'v option) \<Rightarrow> 'k \<Rightarrow> 'v option" where
  "map_emplace k v m = (if m k = None then m(k \<mapsto> v) else m)"

text \<open>Calls on the queue, which changes nothing when it throws.\<close>

definition on_queue :: "(message_queue \<Rightarrow> ('a \<times> message_queue) result) \<Rightarrow> ('s peer, 'a) action" where
  "on_queue f p =
     (case f (pr_queue p) of Inl e \<Rightarrow> (Inl e, p) | Inr (a, q) \<Rightarrow> (Inr a, p\<lparr>pr_queue := q\<rparr>))"

definition queue_receive_request :: "request \<Rightarrow> ('s peer, byte) action" where
  "queue_receive_request request = on_queue (\<lambda>q. Inr (mq_receive_request request q))"

definition queue_send_reply :: "byte \<Rightarrow> status_code \<Rightarrow> ('s peer, unit) action" where
  "queue_send_reply message_id status = on_queue (\<lambda>q. try_then (mq_send_reply message_id status q) (\<lambda>q. Inr ((), q)))"

definition queue_receive_reply :: "byte \<Rightarrow> status_code \<Rightarrow> ('s peer, unit) action" where
  "queue_receive_reply message_id status = on_queue (\<lambda>q. try_then (mq_receive_reply message_id status q) (\<lambda>q. Inr ((), q)))"

section \<open>Sending\<close>

definition handler_format_request :: "protocol \<Rightarrow> request \<Rightarrow> bytes result" where
  "handler_format_request protocol request =
     try_then (deref (p_handler protocol)) (\<lambda>h. case h of Handler_v0_0_0 \<Rightarrow> format_request request)"

definition pr_parse_bytes :: "bytes \<Rightarrow> request \<Rightarrow> ('s peer, u64 \<times> request) action" where
  "pr_parse_bytes raw_msg out =
     act_then (act_get pr_protocol) (\<lambda>protocol. act_lift (handler_parse_request protocol raw_msg out))"

definition pr_send_reply :: "'s peer_world \<Rightarrow> byte \<Rightarrow> status_code \<Rightarrow> ('s peer, unit) action" where
  "pr_send_reply W message_id status =
     act_then (act_get pr_protocol) (\<lambda>protocol.
     act_then (act_lift (handler_format_response protocol message_id status)) (\<lambda>message.
     act_then (queue_send_reply message_id status) (\<lambda>_.
     pb_write W message)))"

definition pr_send_request :: "'s peer_world \<Rightarrow> command_code \<Rightarrow> request_data option \<Rightarrow> ('s peer, byte) action" where
  "pr_send_request W command request_data =
     (let request = \<lparr>req_code = command, req_data = request_data, req_message_id = 0\<rparr> in
      act_then (on_queue (mq_send_request request)) (\<lambda>message_id.
      act_then (act_get pr_protocol) (\<lambda>protocol.
      act_then (act_lift (handler_format_request protocol (request\<lparr>req_message_id := message_id\<rparr>))) (\<lambda>message.
      act_then (pb_write W message) (\<lambda>_.
      act_return message_id)))))"

section \<open>Starting transfers\<close>

text \<open>
  \<open>directory_entry(p, ec)\<close> sets \<open>ec\<close> for a path that does not exist; \<open>file_size\<close> throws
  for a directory. The quotient by \<open>packet_size\<close>, which a peer chooses, is undefined for 0.
\<close>

definition prepare_upload :: "'s peer_world \<Rightarrow> path \<Rightarrow> bytes \<Rightarrow> u64 \<Rightarrow> u64 \<Rightarrow> 's peer \<Rightarrow>
    (upload option \<times> status_code) result" where
  "prepare_upload W host_filepath virtual_filepath packet_size packet_start p =
     (if (pr_disk p host_filepath = None \<and> \<not> w_is_directory W host_filepath) \<or> host_filepath = [] \<or>
         is_forbidden (w_set_contains W) (pr_file_mapping p) host_filepath
      then Inr (None, FILE_NOT_FOUND)
      else
        try_then (w_last_write_time W host_filepath) (\<lambda>file_updated_at.
        try_then (w_file_hash W SHA512 (pr_disk p host_filepath)) (\<lambda>file_hash.
        case pr_disk p host_filepath of
          None \<Rightarrow> Inl (Runtime_error ''cannot get file size'')
        | Some content \<Rightarrow>
            let file_size = sv_size content in
            if packet_size = 0 then Inl Undefined_behaviour
            else
              let total_packets = file_size div packet_size + (if file_size mod packet_size = 0 then 0 else 1) in
              if packet_start > total_packets then Inr (None, BAD_REQUEST)
              else
                let send_file_data = \<lparr>sf_filepath = virtual_filepath, sf_hash_algorithm = SHA512,
                      sf_filehash = file_hash, sf_last_updated = file_updated_at,
                      sf_packet_size = packet_size, sf_total_packets = total_packets - packet_start\<rparr>
                in Inr (Some (upload_new (pr_disk p) host_filepath send_file_data packet_start), STATUS_OK))))"

definition create_upload :: "'s peer_world \<Rightarrow> upload \<Rightarrow> ('s peer, byte) action" where
  "create_upload W handler =
     act_then (pr_send_request W SEND_FILE (Some (SendFileData (up_request handler)))) (\<lambda>message_id.
     act_then (act_modify (\<lambda>p. p\<lparr>pr_uploads := map_emplace message_id handler (pr_uploads p)\<rparr>)) (\<lambda>_.
     act_return message_id))"

definition transfer_packet_size :: u64 where
  "transfer_packet_size = 4096"

definition create_host_upload :: "'s peer_world \<Rightarrow> path \<Rightarrow> ('s peer, byte) action" where
  "create_host_upload W host_filepath =
     act_then (act_get (\<lambda>p. host_to_virtual (pr_file_mapping p) host_filepath)) (\<lambda>virtual_path.
     let virtual_path = (case virtual_path of None \<Rightarrow> path_filename host_filepath | Some v \<Rightarrow> v) in
     act_then (act_get (prepare_upload W host_filepath (bytes_of_path virtual_path) transfer_packet_size 0)) (\<lambda>r.
     act_then (act_lift r) (\<lambda>(handler, status).
     if status = STATUS_OK then act_then (act_lift (deref handler)) (create_upload W)
     else act_lift (Inl (Runtime_error
       (''Failed to send file '' @ [CHR 0x27] @ host_filepath @ [CHR 0x27] @ '': '' @ status_to_str status))))))"

text \<open>
  The element is constructed, and with it the temporary file, before the map looks for the key.
\<close>

definition download_destination :: "'s peer \<Rightarrow> send_file_data \<Rightarrow> path" where
  "download_destination p data =
     path_append (path_append (pr_downloads_folder p) (path_of_bytes (pb_device_uuid p)))
       (relative_path (path_of_bytes (sf_filepath data)))"

definition create_download :: "'s peer_world \<Rightarrow> byte \<Rightarrow> send_file_data \<Rightarrow> ('s peer, unit) action" where
  "create_download W request_id data p =
     (case download_new (w_file_hash W) (w_can_open W) (download_destination p data) data (pr_disk p) of
        Inr (d, disk) \<Rightarrow>
          pr_send_reply W request_id STATUS_OK
            (p\<lparr>pr_downloads := map_emplace request_id d (pr_downloads p), pr_disk := disk\<rparr>)
      | Inl (Up_to_date_error f) \<Rightarrow> pr_send_reply W request_id UP_TO_DATE p
      | Inl e \<Rightarrow> (Inl e, p))"

section \<open>Answering requests\<close>

text \<open>
  The handler of a file list is copied into the map (its class has a destructor of its own and
  so no move constructor), and its iterator goes on pointing into the children of the node of the
  handler it was copied from: comparing it with the end of the copy's children is undefined.
\<close>

definition stored_get_next_packet :: "'s peer_world \<Rightarrow> byte \<Rightarrow> list_files_transfer \<Rightarrow>
    (file_list_data option \<times> list_files_transfer) result" where
  "stored_get_next_packet W original_request_id t =
     (case lf_path_node t of
        Some node \<Rightarrow>
          if \<not> lf_extra_packet_sent t \<and> n_type node = VIRTUAL then Inl Undefined_behaviour
          else Inr (lf_get_next_packet (w_is_directory W) original_request_id t)
      | None \<Rightarrow> Inr (lf_get_next_packet (w_is_directory W) original_request_id t))"

definition list_files_next :: "'s peer_world \<Rightarrow> byte \<Rightarrow> byte \<Rightarrow> ('s peer, file_list_data option) action" where
  "list_files_next W key original_request_id p =
     (case pr_list_files p key of
        None \<Rightarrow> (Inl Undefined_behaviour, p)
      | Some t \<Rightarrow>
          (case stored_get_next_packet W original_request_id t of
             Inl e \<Rightarrow> (Inl e, p)
           | Inr (packet, t) \<Rightarrow> (Inr packet, p\<lparr>pr_list_files := (pr_list_files p)(key \<mapsto> t)\<rparr>)))"

text \<open>What a data packet does to the download it belongs to, an exception of the download included.\<close>

definition download_packet :: "'s peer_world \<Rightarrow> download \<Rightarrow> data_packet_data \<Rightarrow> ('s peer, unit) action" where
  "download_packet W d data p =
     (case dl_receive_packet (w_file_hash W) data d (pr_disk p) of
        (Inl e, d, disk) \<Rightarrow>
          (Inl e, p\<lparr>pr_downloads := (pr_downloads p)(dp_request_id data \<mapsto> d), pr_disk := disk\<rparr>)
      | (Inr _, d, disk) \<Rightarrow>
          (Inr (), p\<lparr>pr_downloads := (if dl_finished d \<and> \<not> dl_keep d
                        then (pr_downloads p)(dp_request_id data := None)
                        else (pr_downloads p)(dp_request_id data \<mapsto> d)), pr_disk := disk\<rparr>))"

definition answer_data_packet :: "'s peer_world \<Rightarrow> request \<Rightarrow> ('s peer, unit) action" where
  "answer_data_packet W request =
     act_then (act_lift (deref (cast_data_packet (req_data request)))) (\<lambda>data.
     act_then (act_get (\<lambda>p. pr_downloads p (dp_request_id data))) (\<lambda>iter.
     case iter of
       Some d \<Rightarrow>
         act_then (download_packet W d data) (\<lambda>_. pr_send_reply W (req_message_id request) STATUS_OK)
     | None \<Rightarrow> pr_send_reply W (req_message_id request) INVALID_REQUEST_ID))"

definition answer_receive_file :: "'s peer_world \<Rightarrow> request \<Rightarrow> ('s peer, unit) action" where
  "answer_receive_file W request =
     act_then (act_lift (deref (cast_receive_file (req_data request)))) (\<lambda>data.
     act_then (act_get (\<lambda>p. virtual_to_host (pr_file_mapping p) (path_of_bytes (rf_filepath data)))) (\<lambda>r.
     act_then (act_lift r) (\<lambda>host_path.
     act_then (act_get (prepare_upload W host_path (rf_filepath data) (rf_packet_size data) (rf_packet_start data))) (\<lambda>r.
     act_then (act_lift r) (\<lambda>(handler, status).
     act_then (pr_send_reply W (req_message_id request) status) (\<lambda>_.
     if status = STATUS_OK
     then act_then (act_lift (deref handler)) (\<lambda>h. act_then (create_upload W h) (\<lambda>_. act_return ()))
     else act_return ()))))))"

definition answer_list_files :: "'s peer_world \<Rightarrow> request \<Rightarrow> ('s peer, unit) action" where
  "answer_list_files W request =
     act_then (act_lift (deref (cast_list_files (req_data request)))) (\<lambda>folderpath.
     act_then (act_get (\<lambda>p. list_files_new (w_list_directory W) (path_of_bytes folderpath)
       (pr_file_mapping p) transfer_packet_size)) (\<lambda>r.
     act_then (act_lift r) (\<lambda>handler.
     let message_id = req_message_id request in
     act_then (act_modify (\<lambda>p. p\<lparr>pr_list_files := map_emplace message_id handler (pr_list_files p)\<rparr>)) (\<lambda>_.
     act_then (pr_send_reply W message_id STATUS_OK) (\<lambda>_.
     act_then (list_files_next W message_id message_id) (\<lambda>packet.
     act_then (pr_send_request W FILE_LIST (map_option FileListData packet)) (\<lambda>_. act_return ())))))))"

definition answer_file_list :: "'s peer_world \<Rightarrow> request \<Rightarrow> ('s peer, unit) action" where
  "answer_file_list W request =
     act_then (act_lift (deref (cast_file_list (req_data request)))) (\<lambda>data.
     act_then (act_get (\<lambda>p. pr_file_lists p (fl_request_id data))) (\<lambda>handler.
     case handler of
       Some t \<Rightarrow>
         act_then (act_modify (\<lambda>p. p\<lparr>pr_file_lists := (pr_file_lists p)(fl_request_id data \<mapsto> ft_receive_packet data t)\<rparr>))
           (\<lambda>_. pr_send_reply W (req_message_id request) STATUS_OK)
     | None \<Rightarrow> pr_send_reply W (req_message_id request) INVALID_REQUEST_ID))"

definition respond_to_request :: "'s peer_world \<Rightarrow> request \<Rightarrow> status_code \<Rightarrow> ('s peer, unit) action" where
  "respond_to_request W request status =
     act_then (queue_receive_request request) (\<lambda>_.
     if status \<noteq> STATUS_OK then pr_send_reply W (req_message_id request) status
     else
       (case req_code request of
          DATA_PACKET \<Rightarrow> answer_data_packet W request
        | SEND_FILE \<Rightarrow>
            act_then (act_lift (deref (cast_send_file (req_data request)))) (create_download W (req_message_id request))
        | RECEIVE_FILE \<Rightarrow> answer_receive_file W request
        | LIST_FILES \<Rightarrow> answer_list_files W request
        | FILE_LIST \<Rightarrow> answer_file_list W request
        | _ \<Rightarrow> pr_send_reply W (req_message_id request) STATUS_OK))"

section \<open>Replies to own requests\<close>

text \<open>\<open>get_next_packet\<close> of a stored upload.\<close>

definition upload_next :: "byte \<Rightarrow> ('s peer, data_packet_data option) action" where
  "upload_next message_id p =
     (case pr_uploads p message_id of
        None \<Rightarrow> (Inl Undefined_behaviour, p)
      | Some u \<Rightarrow>
          (case up_get_next_packet message_id u of
             Inl e \<Rightarrow> (Inl e, p)
           | Inr (packet, u) \<Rightarrow> (Inr packet, p\<lparr>pr_uploads := (pr_uploads p)(message_id \<mapsto> u)\<rparr>)))"

definition available_send_slots :: "'s peer \<Rightarrow> byte" where
  "available_send_slots p = mq_slots (pr_queue p)"

text \<open>The first packets of a transfer that was accepted; \<open>n\<close> is what is left of the window.\<close>

primrec send_window :: "'s peer_world \<Rightarrow> byte \<Rightarrow> nat \<Rightarrow> ('s peer, unit) action" where
  "send_window W message_id 0 = act_return ()"
| "send_window W message_id (Suc n) =
     act_then (act_get (\<lambda>p. pr_uploads p message_id)) (\<lambda>handler.
     act_then (act_lift (deref handler)) (\<lambda>handler.
     act_then (act_get available_send_slots) (\<lambda>slots.
     if up_finished handler \<or> slots = 0 then act_return ()
     else
       act_then (upload_next message_id) (\<lambda>packet.
       act_then (pr_send_request W DATA_PACKET (map_option DataPacketData packet)) (\<lambda>_.
       send_window W message_id n)))))"

definition window_size :: nat where
  "window_size = 5"

definition reply_data_packet :: "'s peer_world \<Rightarrow> request \<Rightarrow> ('s peer, unit) action" where
  "reply_data_packet W source_request =
     act_then (act_lift (deref (cast_data_packet (req_data source_request)))) (\<lambda>packet_data.
     let request_id = dp_request_id packet_data in
     act_then (act_get (\<lambda>p. pr_uploads p request_id)) (\<lambda>handler.
     if handler = None then act_return ()
     else
       act_then (upload_next request_id) (\<lambda>new_packet.
       case new_packet of
         Some packet \<Rightarrow> act_then (pr_send_request W DATA_PACKET (Some (DataPacketData packet))) (\<lambda>_. act_return ())
       | None \<Rightarrow> act_modify (\<lambda>p. p\<lparr>pr_uploads := (pr_uploads p)(request_id := None)\<rparr>))))"

text \<open>When a list is done the wrong map is told: the element stays.\<close>

definition reply_file_list :: "'s peer_world \<Rightarrow> byte \<Rightarrow> request \<Rightarrow> ('s peer, unit) action" where
  "reply_file_list W message_id source_request =
     act_then (act_lift (deref (cast_file_list (req_data source_request)))) (\<lambda>data.
     let request_id = fl_request_id data in
     act_then (act_get (\<lambda>p. pr_list_files p request_id)) (\<lambda>handler.
     if handler = None then act_return ()
     else
       act_then (list_files_next W request_id request_id) (\<lambda>new_packet.
       case new_packet of
         Some packet \<Rightarrow> act_then (pr_send_request W FILE_LIST (Some (FileListData packet))) (\<lambda>_. act_return ())
       | None \<Rightarrow> act_modify (\<lambda>p. p\<lparr>pr_uploads := (pr_uploads p)(message_id := None)\<rparr>))))"

definition effective_status :: "request \<Rightarrow> status_code \<Rightarrow> status_code" where
  "effective_status source_request status =
     (if status = STATUS_OK \<and> req_code source_request = RECEIVE_FILE then APPROVAL_PENDING else status)"

definition receive_reply :: "'s peer_world \<Rightarrow> byte \<Rightarrow> status_code \<Rightarrow> ('s peer, unit) action" where
  "receive_reply W message_id status =
     act_then (act_get (\<lambda>p. mq_outgoing (pr_queue p) message_id)) (\<lambda>m.
     case m of
       None \<Rightarrow> act_lift (Inl Out_of_range)
     | Some m \<Rightarrow>
         let source_request = msg_request m; status = effective_status source_request status in
         act_then (queue_receive_reply message_id status) (\<lambda>_.
         if status \<noteq> STATUS_OK then act_return ()
         else
           (case req_code source_request of
              DATA_PACKET \<Rightarrow> reply_data_packet W source_request
            | SEND_FILE \<Rightarrow>
                act_then (act_get (\<lambda>p. pr_uploads p message_id)) (\<lambda>handler.
                if handler = None then act_lift (Inl Out_of_range) else send_window W message_id window_size)
            | LIST_FILES \<Rightarrow>
                act_modify (\<lambda>p. p\<lparr>pr_file_lists := map_emplace message_id file_list_new (pr_file_lists p)\<rparr>)
            | FILE_LIST \<Rightarrow> reply_file_list W message_id source_request
            | _ \<Rightarrow> act_return ())))"

section \<open>Incoming messages\<close>

text \<open>
  The search for the \<open>RECEIVE_FILE\<close> that a \<open>SEND_FILE\<close> answers, over the ids in the order of
  the copied map.
\<close>

fun find_original_request :: "byte list \<Rightarrow> (byte \<Rightarrow> message option) \<Rightarrow> send_file_data option \<Rightarrow> byte option result" where
  "find_original_request [] outgoing data = Inr None"
| "find_original_request (i # is) outgoing data =
     (case outgoing i of
        None \<Rightarrow> find_original_request is outgoing data
      | Some m \<Rightarrow>
          if req_code (msg_request m) \<noteq> RECEIVE_FILE then find_original_request is outgoing data
          else
            try_then (deref data) (\<lambda>d.
            try_then (deref (cast_receive_file (req_data (msg_request m)))) (\<lambda>original.
            if sf_filepath d = rf_filepath original then Inr (Some i)
            else find_original_request is outgoing data)))"

definition ask_user :: "'s peer_world \<Rightarrow> request \<Rightarrow> ('s peer, unit) action" where
  "ask_user W request =
     act_then (respond_to_request W request APPROVAL_PENDING) (\<lambda>_.
     act_modify (\<lambda>p. p\<lparr>pr_request_buffer := pr_request_buffer p @ [request]\<rparr>))"

definition authorize_list_files :: "'s peer_world \<Rightarrow> request \<Rightarrow> ('s peer, unit) action" where
  "authorize_list_files W request =
     act_then (act_lift (deref (cast_list_files (req_data request)))) (\<lambda>folderpath.
     act_then (act_get pr_file_mapping) (\<lambda>file_mapping.
     case find_virtual_node file_mapping (path_of_bytes folderpath) True of
       None \<Rightarrow> respond_to_request W request FILE_NOT_FOUND
     | Some (node, _) \<Rightarrow>
         if n_type node \<noteq> VIRTUAL \<and> is_forbidden (w_set_contains W) file_mapping (n_host_path node)
         then respond_to_request W request FILE_NOT_FOUND
         else respond_to_request W request STATUS_OK))"

definition authorize_send_file :: "'s peer_world \<Rightarrow> request \<Rightarrow> ('s peer, unit) action" where
  "authorize_send_file W request =
     act_then (act_get (\<lambda>p. mq_outgoing (pr_queue p))) (\<lambda>outgoing.
     act_then (act_lift (find_original_request (w_order W outgoing) outgoing (cast_send_file (req_data request)))) (\<lambda>original.
     case original of
       Some i \<Rightarrow> act_then (queue_receive_reply i STATUS_OK) (\<lambda>_. respond_to_request W request STATUS_OK)
     | None \<Rightarrow> ask_user W request))"

definition pr_authorize_request :: "'s peer_world \<Rightarrow> request \<Rightarrow> ('s peer, unit) action" where
  "pr_authorize_request W request =
     (case req_code request of
        RESPONSE \<Rightarrow>
          act_then (act_get (\<lambda>p. mq_outgoing (pr_queue p) (req_message_id request))) (\<lambda>m.
          if m = None then act_return ()
          else
            act_then (act_lift (deref (cast_response (req_data request)))) (\<lambda>status.
            receive_reply W (req_message_id request) status))
      | DATA_PACKET \<Rightarrow>
          act_then (act_lift (deref (cast_data_packet (req_data request)))) (\<lambda>data.
          act_then (act_get (\<lambda>p. pr_downloads p (dp_request_id data))) (\<lambda>d.
          respond_to_request W request (if d \<noteq> None then STATUS_OK else INVALID_REQUEST_ID)))
      | SEND_FILE \<Rightarrow> authorize_send_file W request
      | RECEIVE_FILE \<Rightarrow> respond_to_request W request STATUS_OK
      | LIST_FILES \<Rightarrow> authorize_list_files W request
      | FILE_LIST \<Rightarrow>
          act_then (act_lift (deref (cast_file_list (req_data request)))) (\<lambda>data.
          act_then (act_get (\<lambda>p. pr_file_lists p (fl_request_id data))) (\<lambda>t.
          respond_to_request W request (if t \<noteq> None then STATUS_OK else INVALID_REQUEST_ID)))
      | _ \<Rightarrow> ask_user W request)"

definition pr_poll_requests :: "'s peer_world \<Rightarrow> request \<Rightarrow> ('s peer, unit) action" where
  "pr_poll_requests W = poll_requests W pr_parse_bytes (pr_authorize_request W)"

definition pull_requests :: "'s peer_world \<Rightarrow> request \<Rightarrow> ('s peer, request list) action" where
  "pull_requests W out =
     act_then (pr_poll_requests W out) (\<lambda>_.
     act_then (act_get pr_request_buffer) (\<lambda>result.
     act_then (act_modify (\<lambda>p. p\<lparr>pr_request_buffer := []\<rparr>)) (\<lambda>_.
     act_return result)))"

end
