(* ===== verification/Request_Types.thy ===== *)
theory Request_Types
  imports Protocol_Handler
begin

text \<open>
  The payload class that belongs to a command. The code stores payloads behind pointers to their
  base class and casts them down by the command, without a check of the result.
\<close>

fun payload_fits :: "command_code \<Rightarrow> request_data \<Rightarrow> bool" where
  "payload_fits c (ResponseData _) = (c = RESPONSE)"
| "payload_fits c (SupportedVersionsData _) = (c = SUPPORTED_VERSIONS)"
| "payload_fits c (SelectedVersionData _) = (c = SELECTED_VERSION)"
| "payload_fits c (SendFileData _) = (c = SEND_FILE)"
| "payload_fits c (ReceiveFileData _) = (c = RECEIVE_FILE)"
| "payload_fits c (ListFilesData _) = (c = LIST_FILES)"
| "payload_fits c (FileListData _) = (c = FILE_LIST)"
| "payload_fits c (DataPacketData _) = (c = DATA_PACKET)"
| "payload_fits c PingData = (c = PING)"

definition well_typed :: "request \<Rightarrow> bool" where
  "well_typed r \<longleftrightarrow> pred_option (payload_fits (req_code r)) (req_data r) \<and> req_data r \<noteq> None"

text \<open>A packet that is sent may be null, when a transfer has nothing left.\<close>

definition sendable :: "request \<Rightarrow> bool" where
  "sendable r \<longleftrightarrow> pred_option (payload_fits (req_code r)) (req_data r) \<and>
     (req_data r = None \<longrightarrow> req_code r \<in> {DATA_PACKET, FILE_LIST})"

lemma sendable_simps [simp]:
  "sendable \<lparr>req_code = c, req_data = Some d, req_message_id = i\<rparr> = payload_fits c d"
  "sendable \<lparr>req_code = DATA_PACKET, req_data = map_option DataPacketData dp, req_message_id = i\<rparr>"
  "sendable \<lparr>req_code = FILE_LIST, req_data = map_option FileListData fl, req_message_id = i\<rparr>"
  "sendable (r\<lparr>req_message_id := i\<rparr>) = sendable r"
  by (cases dp; cases fl; auto simp: sendable_def)+

lemma well_typed_RECEIVE_FILE:
  "sendable r \<Longrightarrow> req_code r = RECEIVE_FILE \<Longrightarrow> \<exists>d. req_data r = Some (ReceiveFileData d)"
  by (cases "req_data r"; cases "the (req_data r)") (auto simp: sendable_def)

lemma get_request_data_fits: "get_request_data c payload = Inr d \<Longrightarrow> payload_fits c d"
  by (auto simp: get_request_data_def parse_response_def parse_send_file_def parse_receive_file_def
      parse_list_files_def parse_file_list_def parse_data_packet_def parse_ping_def try_then_eq_Inr Let_def
      split: command_code.splits prod.splits if_splits)

lemma parse_well_typed:
  assumes "parse_request raw out = Inr (n, r)" "n \<noteq> 0"
  shows "well_typed r"
  using assms
  by (auto simp: parse_request_def try_then_eq_Inr Let_def well_typed_def get_request_data_fits case_prod_unfold
      split: if_splits)

end
