(* ===== verification/Peer_Invariants.thy ===== *)
theory Peer_Invariants
  imports Peer Request_Types
begin

text \<open>
  What has to be shown of a predicate on peers for the operations of a peer to keep it, by the
  parts of the state it may depend on. A predicate is shown to be stable under the elementary
  changes once; that every operation built from them keeps it is proved here, inside the locales.
\<close>

lemma pr_parse_well_typed: "pr_parse_bytes v r p = (Inr (n, r'), q) \<Longrightarrow> n \<noteq> 0 \<Longrightarrow> well_typed r'"
  by (cases "p_handler (pr_protocol p)"; cases "the (p_handler (pr_protocol p))")
    (auto simp: pr_parse_bytes_def act_then_def act_simps handler_parse_request_def intro: parse_well_typed)

section \<open>Sending\<close>

locale sending_invariant =
  fixes I :: "'s peer \<Rightarrow> bool"
  assumes socket: "I p \<Longrightarrow> I (p\<lparr>pb_socket := s\<rparr>)"
    and send: "I p \<Longrightarrow> sendable r \<Longrightarrow> mq_send_request r (pr_queue p) = Inr (i, q) \<Longrightarrow> I (p\<lparr>pr_queue := q\<rparr>)"
begin

lemma on_queue:
  assumes "\<And>p a q. I p \<Longrightarrow> f (pr_queue p) = Inr (a, q) \<Longrightarrow> I (p\<lparr>pr_queue := q\<rparr>)"
  shows "act_keeps I (on_queue f)"
  using assms by (auto simp: act_keeps_def on_queue_def split: sum.split)

lemma keeps_write: "act_keeps I (pb_write W m)"
  by (rule act_keeps_write) (rule socket)

lemma keeps_send_request:
  "sendable \<lparr>req_code = c, req_data = d, req_message_id = 0\<rparr> \<Longrightarrow> act_keeps I (pr_send_request W c d)"
  unfolding pr_send_request_def Let_def
  by (intro act_keeps_intros keeps_write on_queue) (auto intro: send)

lemma keeps_create_upload:
  "(\<And>p k. I p \<Longrightarrow> I (p\<lparr>pr_uploads := map_emplace k h (pr_uploads p)\<rparr>)) \<Longrightarrow> act_keeps I (create_upload W h)"
  unfolding create_upload_def by (intro act_keeps_intros keeps_send_request) simp_all

end

section \<open>Everything but the beginning of a transfer of a file\<close>

text \<open>
  Of the requests that come in nothing is known but \<open>T\<close>, which holds of all that were parsed.
\<close>

locale quiet_invariant = sending_invariant +
  fixes T :: "request \<Rightarrow> bool"
  assumes parsed: "well_typed r \<Longrightarrow> T r"
    and reply: "I p \<Longrightarrow> mq_send_reply k st (pr_queue p) = Inr q \<Longrightarrow> I (p\<lparr>pr_queue := q\<rparr>)"
    and receive: "I p \<Longrightarrow> T r \<Longrightarrow> mq_receive_request r (pr_queue p) = (k, q) \<Longrightarrow> I (p\<lparr>pr_queue := q\<rparr>)"
    and received: "I p \<Longrightarrow> mq_receive_reply k st (pr_queue p) = Inr q \<Longrightarrow> I (p\<lparr>pr_queue := q\<rparr>)"
    and buffers: "I p \<Longrightarrow> I (p\<lparr>pb_buffer := b\<rparr>)" "I p \<Longrightarrow> I (p\<lparr>pr_request_buffer := []\<rparr>)"
      "I p \<Longrightarrow> T r \<Longrightarrow> I (p\<lparr>pr_request_buffer := pr_request_buffer p @ [r]\<rparr>)"
    and lists: "I p \<Longrightarrow> I (p\<lparr>pr_list_files := lf\<rparr>)" "I p \<Longrightarrow> I (p\<lparr>pr_file_lists := fl\<rparr>)"
    and uploads: "I p \<Longrightarrow> pr_uploads p k = Some u \<Longrightarrow> up_content u' = up_content u \<Longrightarrow>
      I (p\<lparr>pr_uploads := (pr_uploads p)(k \<mapsto> u')\<rparr>)"
      "I p \<Longrightarrow> I (p\<lparr>pr_uploads := (pr_uploads p)(k := None)\<rparr>)"
begin

lemma keeps_queue:
  "T r \<Longrightarrow> act_keeps I (queue_receive_request r)" "act_keeps I (queue_send_reply k st)" "act_keeps I (queue_receive_reply k st)"
  unfolding queue_receive_request_def queue_send_reply_def queue_receive_reply_def
  by (auto intro!: on_queue intro: receive reply received simp: try_then_eq_Inr)

lemma keeps_send_reply: "act_keeps I (pr_send_reply W k st)"
  unfolding pr_send_reply_def by (intro act_keeps_intros keeps_queue keeps_write)

lemma upload_content: "up_get_next_packet k u = Inr (packet, u') \<Longrightarrow> up_content u' = up_content u"
  by (auto simp: up_get_next_packet_def Let_def try_then_eq_Inr split: if_splits)

lemma keeps_upload_next: "act_keeps I (upload_next k)"
  by (auto simp: act_keeps_def upload_next_def intro: uploads upload_content split: option.split sum.split)

lemma keeps_list_files_next: "act_keeps I (list_files_next W k i)"
  by (auto simp: act_keeps_def list_files_next_def intro: lists split: option.split sum.split)

lemma keeps_send_window: "act_keeps I (send_window W k n)"
proof (induction n)
  case (Suc n)
  then show ?case
    by (auto intro!: act_keeps_intros keeps_upload_next keeps_send_request)
qed (simp add: act_keeps_basic)

lemmas keeps_parts = keeps_queue keeps_send_request keeps_send_reply keeps_upload_next keeps_list_files_next
  keeps_send_window

lemma keeps_answer_list_files: "act_keeps I (answer_list_files W r)"
  unfolding answer_list_files_def Let_def by (intro act_keeps_intros keeps_parts lists) simp_all

lemma keeps_answer_file_list: "act_keeps I (answer_file_list W r)"
  unfolding answer_file_list_def
  by (auto intro!: act_keeps_intros keeps_parts lists split: option.split)

lemma keeps_receive_reply: "act_keeps I (receive_reply W k st)"
  unfolding receive_reply_def Let_def reply_data_packet_def reply_file_list_def
  by (auto intro!: act_keeps_intros keeps_parts lists uploads split: option.split command_code.split if_split)

lemma keeps_respond_quiet:
  "T r \<Longrightarrow> st \<noteq> STATUS_OK \<or> req_code r \<notin> {DATA_PACKET, SEND_FILE, RECEIVE_FILE} \<Longrightarrow> act_keeps I (respond_to_request W r st)"
  unfolding respond_to_request_def
  by (auto intro!: act_keeps_intros keeps_parts keeps_answer_list_files keeps_answer_file_list split: command_code.split)

lemma keeps_ask_user: "T r \<Longrightarrow> act_keeps I (ask_user W r)"
  unfolding ask_user_def by (intro act_keeps_intros keeps_respond_quiet buffers) simp_all

lemma keeps_authorize_quiet:
  "T r \<Longrightarrow> req_code r \<notin> {DATA_PACKET, SEND_FILE, RECEIVE_FILE} \<Longrightarrow> act_keeps I (pr_authorize_request W r)"
  unfolding pr_authorize_request_def authorize_list_files_def
  by (auto intro!: act_keeps_intros keeps_receive_reply keeps_respond_quiet keeps_ask_user
      split: command_code.split option.split prod.split if_split)

end

section \<open>Downloads\<close>

locale downloading_invariant = quiet_invariant +
  assumes downloads: "I p \<Longrightarrow> I (p\<lparr>pr_downloads := d, pr_disk := k\<rparr>)"
begin

lemma keeps_create_download: "act_keeps I (create_download W k d)"
  unfolding act_keeps_def create_download_def
  by (auto intro!: keeps_send_reply [unfolded act_keeps_def, rule_format] downloads
      split: sum.split cpp_error.split prod.split)

lemma keeps_download_packet: "act_keeps I (download_packet W d data)"
  unfolding act_keeps_def download_packet_def by (auto intro: downloads split: prod.split sum.split)

lemma keeps_respond_download: "T r \<Longrightarrow> req_code r \<noteq> RECEIVE_FILE \<Longrightarrow> act_keeps I (respond_to_request W r st)"
  unfolding respond_to_request_def answer_data_packet_def
  by (auto intro!: act_keeps_intros keeps_parts keeps_answer_list_files keeps_answer_file_list
      keeps_create_download keeps_download_packet split: command_code.split option.split)

lemma keeps_authorize_download: "T r \<Longrightarrow> req_code r \<noteq> RECEIVE_FILE \<Longrightarrow> act_keeps I (pr_authorize_request W r)"
  unfolding pr_authorize_request_def authorize_list_files_def authorize_send_file_def
  by (auto intro!: act_keeps_intros keeps_receive_reply keeps_respond_download keeps_ask_user keeps_queue
      split: command_code.split option.split prod.split if_split)

end

section \<open>Uploads\<close>

locale uploading_invariant = quiet_invariant +
  assumes new_upload: "I p \<Longrightarrow> I (p\<lparr>pr_uploads := map_emplace k v (pr_uploads p)\<rparr>)"
begin

lemma keeps_answer_receive_file: "act_keeps I (answer_receive_file W r)"
  unfolding answer_receive_file_def
  by (auto intro!: act_keeps_intros keeps_parts keeps_create_upload new_upload split: prod.split)

lemma keeps_authorize_upload:
  "T r \<Longrightarrow> req_code r \<notin> {DATA_PACKET, SEND_FILE} \<Longrightarrow> act_keeps I (pr_authorize_request W r)"
  unfolding pr_authorize_request_def authorize_list_files_def respond_to_request_def ask_user_def
  by (auto intro!: act_keeps_intros keeps_receive_reply keeps_parts keeps_answer_list_files keeps_answer_file_list
      keeps_answer_receive_file buffers split: command_code.split option.split prod.split if_split)

end

section \<open>Everything\<close>

locale peer_invariant = downloading_invariant + uploading_invariant
begin

lemma keeps_respond: "T r \<Longrightarrow> act_keeps I (respond_to_request W r st)"
  unfolding respond_to_request_def answer_data_packet_def
  by (auto intro!: act_keeps_intros keeps_parts keeps_answer_list_files keeps_answer_file_list
      keeps_create_download keeps_download_packet keeps_answer_receive_file split: command_code.split option.split)

lemma keeps_authorize: "T r \<Longrightarrow> act_keeps I (pr_authorize_request W r)"
  unfolding pr_authorize_request_def authorize_list_files_def authorize_send_file_def
  by (auto intro!: act_keeps_intros keeps_receive_reply keeps_respond keeps_ask_user keeps_queue
      split: command_code.split option.split prod.split if_split)

lemma keeps_parse: "act_keeps I (pr_parse_bytes v r)"
  unfolding pr_parse_bytes_def by (intro act_keeps_intros)

lemma keeps_poll: "act_keeps I (pr_poll_requests W out)"
  unfolding pr_poll_requests_def
  by (rule poll_requests_keeps)
    (auto intro!: keeps_authorize parsed pr_parse_well_typed keeps_parse socket buffers)

lemma keeps_pull: "act_keeps I (pull_requests W out)"
  unfolding pull_requests_def by (intro act_keeps_intros keeps_poll buffers)

lemma keeps_create_host_upload: "act_keeps I (create_host_upload W host_filepath)"
  unfolding create_host_upload_def Let_def
  by (auto intro!: act_keeps_intros keeps_create_upload new_upload split: prod.split if_split)

end

section \<open>The invariants of the model\<close>

text \<open>What a peer is configured with and who it is.\<close>

definition same_peer :: "'s peer \<Rightarrow> 's peer \<Rightarrow> bool" where
  "same_peer p q \<longleftrightarrow> pr_protocol q = pr_protocol p \<and> pr_file_mapping q = pr_file_mapping p \<and>
     pr_downloads_folder q = pr_downloads_folder p \<and> pb_device_uuid q = pb_device_uuid p \<and>
     pb_public_key q = pb_public_key p"

interpretation config: peer_invariant "same_peer p" "\<lambda>_. True" for p
  by unfold_locales (simp_all add: same_peer_def)

text \<open>The queue only ever makes the steps of its own interface.\<close>

definition queue_reachable :: "'s peer \<Rightarrow> bool" where
  "queue_reachable p \<longleftrightarrow> queue_run (\<lambda>q op. True) (pr_queue p)"

interpretation queue: peer_invariant queue_reachable "\<lambda>_. True"
  by unfold_locales (auto simp: queue_reachable_def intro: run_step queue_step.intros)

text \<open>What was noted of an incoming request stays while other requests are sent.\<close>

interpretation noted: sending_invariant "\<lambda>p. mq_incoming (pr_queue p) k = m" for k m
  by unfold_locales (auto simp: mq_send_request_def split: if_splits option.splits)

text \<open>No upload begins: the transfers that run are those that ran, with the contents they had.\<close>

definition no_new_upload :: "'s peer \<Rightarrow> 's peer \<Rightarrow> bool" where
  "no_new_upload p q \<longleftrightarrow>
     (\<forall>k u. pr_uploads q k = Some u \<longrightarrow> (\<exists>u'. pr_uploads p k = Some u' \<and> up_content u = up_content u'))"

interpretation uploads: downloading_invariant "no_new_upload p" "\<lambda>_. True" for p
  by unfold_locales (auto simp: no_new_upload_def)

text \<open>The disk and the downloads stay.\<close>

definition no_download :: "'s peer \<Rightarrow> 's peer \<Rightarrow> bool" where
  "no_download p q \<longleftrightarrow> pr_disk q = pr_disk p \<and> pr_downloads q = pr_downloads p"

interpretation downloads: uploading_invariant "no_download p" "\<lambda>_. True" for p
  by unfold_locales (simp_all add: no_download_def)

text \<open>Every request in the queue and in the buffer for the user has the payload of its command.\<close>

definition typed_peer :: "'s peer \<Rightarrow> bool" where
  "typed_peer p \<longleftrightarrow> (\<forall>i m. mq_incoming (pr_queue p) i = Some m \<longrightarrow> well_typed (msg_request m)) \<and>
     (\<forall>i m. mq_outgoing (pr_queue p) i = Some m \<longrightarrow> sendable (msg_request m)) \<and>
     (\<forall>r \<in> set (pr_request_buffer p). well_typed r)"

interpretation types: peer_invariant typed_peer well_typed
  by unfold_locales
    (auto simp: typed_peer_def mq_send_request_def mq_receive_request_def mq_send_reply_def mq_receive_reply_def Let_def
      split: if_splits option.splits)

end
