(* ===== verification/Peer_Laws.thy ===== *)
theory Peer_Laws
  imports Peer_Invariants
begin

text \<open>
  What a trusted peer does with what it receives: every request gets an answer, which requests
  can open files for reading and for writing, and the inputs that leave defined behaviour or
  stop the peer for good.
\<close>

section \<open>Every request is answered\<close>

definition noted :: "request \<Rightarrow> 's peer \<Rightarrow> bool" where
  "noted r p \<longleftrightarrow> (\<exists>st. mq_incoming (pr_queue p) (req_message_id r) = Some \<lparr>msg_request = r, msg_status = st\<rparr>)"

definition answered :: "request \<Rightarrow> 's peer \<Rightarrow> bool" where
  "answered r p \<longleftrightarrow> (\<exists>st. mq_incoming (pr_queue p) (req_message_id r) = Some \<lparr>msg_request = r, msg_status = Some st\<rparr>)"

lemma send_request_incoming: "mq_send_request r q = Inr (i, q') \<Longrightarrow> mq_incoming q' = mq_incoming q"
  by (auto simp: mq_send_request_def split: if_splits option.splits)

interpretation noted: sending_invariant "noted r" for r
  by unfold_locales (auto simp: noted_def dest: send_request_incoming)

interpretation answered: sending_invariant "answered r" for r
  by unfold_locales (auto simp: answered_def dest: send_request_incoming)

lemma receive_noted: "act_ok P (queue_receive_request r) (noted r)"
  by (auto simp: act_ok_def queue_receive_request_def on_queue_def mq_receive_request_def noted_def Let_def)

definition answered_as :: "request \<Rightarrow> status_code \<Rightarrow> 's peer \<Rightarrow> bool" where
  "answered_as r st p \<longleftrightarrow> mq_incoming (pr_queue p) (req_message_id r) = Some \<lparr>msg_request = r, msg_status = Some st\<rparr>"

interpretation answered_as: sending_invariant "answered_as r st" for r st
  by unfold_locales (auto simp: answered_as_def dest: send_request_incoming)

lemma reply_answered_as: "act_ok (noted r) (pr_send_reply W (req_message_id r) st) (answered_as r st)"
proof -
  have "act_ok (noted r) (queue_send_reply (req_message_id r) st) (answered_as r st)"
    by (auto simp: act_ok_def queue_send_reply_def on_queue_def mq_send_reply_def noted_def answered_as_def)
  then show ?thesis
    unfolding pr_send_reply_def
    by (intro act_ok_after [OF act_keeps_basic(4)] act_ok_after [OF act_keeps_basic(2)] act_ok_before
        answered_as.keeps_write)
qed

lemma reply_answered: "act_ok (noted r) (pr_send_reply W (req_message_id r) st) (answered r)"
  by (rule act_ok_mono [OF reply_answered_as]) (auto simp: answered_as_def answered_def)

lemma noted_download: "act_keeps (noted r) (download_packet W d data)"
  by (auto simp: act_keeps_def download_packet_def noted_def split: prod.split sum.split)

lemma answered_uploads: "answered r (p\<lparr>pr_uploads := u\<rparr>) = answered r p"
  by (simp add: answered_def)

lemma create_download_answers: "act_ok (noted r) (create_download W (req_message_id r) d) (answered r)"
  unfolding act_ok_def create_download_def
  by (auto split: sum.splits cpp_error.splits prod.splits dest!: act_okD [OF reply_answered, rotated] simp: noted_def)

lemma list_files_next_answered: "act_keeps (answered r) (list_files_next W k i)"
  by (auto simp: act_keeps_def list_files_next_def answered_def split: option.split sum.split)

lemma respond_answers: "act_ok P (respond_to_request W r st) (answered r)"
proof -
  have data: "act_ok (noted r) (answer_data_packet W r) (answered r)"
    unfolding answer_data_packet_def
    by (auto intro!: act_ok_after act_keeps_basic noted_download reply_answered split: option.split)
  have receive: "act_ok (noted r) (answer_receive_file W r) (answered r)"
    unfolding answer_receive_file_def
    by (auto intro!: act_ok_after act_keeps_basic act_ok_before [OF reply_answered] act_keeps_intros
        answered.keeps_create_upload split: prod.split simp: answered_uploads)
  have list: "act_ok (noted r) (answer_list_files W r) (answered r)"
    unfolding answer_list_files_def Let_def
    by (auto intro!: act_ok_after [where m = "act_lift _"] act_ok_after [where m = "act_get _"]
        act_ok_after [where m = "act_modify _"] act_keeps_intros act_ok_before [OF reply_answered]
        list_files_next_answered answered.keeps_send_request simp: noted_def)
  have file_list: "act_ok (noted r) (answer_file_list W r) (answered r)"
    unfolding answer_file_list_def
    by (auto intro!: act_ok_after act_keeps_intros reply_answered split: option.split simp: noted_def)
  show ?thesis
    unfolding respond_to_request_def
    by (auto intro!: act_ok_then [OF receive_noted] data receive list file_list reply_answered
        act_ok_after act_keeps_basic create_download_answers split: command_code.split)
qed

lemma ask_user_answers: "act_ok P (ask_user W r) (answered r)"
  unfolding ask_user_def
  by (rule act_ok_before [OF respond_answers]) (auto intro!: act_keeps_modify simp: answered_def)


section \<open>Which files a request can open\<close>

definition readable :: "'s peer_world \<Rightarrow> 's peer \<Rightarrow> bytes \<Rightarrow> bool" where
  "readable W p content \<longleftrightarrow> (\<exists>path host. virtual_to_host (pr_file_mapping p) path = Inr host \<and>
     \<not> is_forbidden (w_set_contains W) (pr_file_mapping p) host \<and> pr_disk p host = Some content)"

definition reads_visible :: "'s peer_world \<Rightarrow> 's peer \<Rightarrow> 's peer \<Rightarrow> bool" where
  "reads_visible W p q \<longleftrightarrow> pr_disk q = pr_disk p \<and> pr_file_mapping q = pr_file_mapping p \<and>
     (\<forall>k u. pr_uploads q k = Some u \<longrightarrow>
        (\<exists>u'. pr_uploads p k = Some u' \<and> up_content u = up_content u') \<or> readable W p (up_content u))"

interpretation reading: quiet_invariant "reads_visible W p" "\<lambda>_. True" for W p
  by unfold_locales (auto simp: reads_visible_def)

lemma prepare_upload_Some:
  "prepare_upload W host v n k p = Inr (Some u, st) \<Longrightarrow>
     \<not> is_forbidden (w_set_contains W) (pr_file_mapping p) host \<and> pr_disk p host = Some (up_content u)"
  unfolding prepare_upload_def
  by (cases "pr_disk p host") (simp_all add: try_then_eq_Inr Let_def upload_new_def split: if_split_asm, auto)

lemma reading_answer: "act_keeps (reads_visible W p) (answer_receive_file W r)"
proof -
  have create: "act_keeps (reads_visible W p) (create_upload W h)" if "readable W p (up_content h)" for h
    by (rule reading.keeps_create_upload) (use that in \<open>auto simp: reads_visible_def map_emplace_def\<close>)
  have readable: "readable W p (up_content h)"
    if "reads_visible W p q" "reads_visible W p q'" "virtual_to_host (pr_file_mapping q) path = Inr host"
      "prepare_upload W host v n k q' = Inr (Some h, st)" for q q' path host v n k h st
    using prepare_upload_Some [OF that(4)] that(1-3) unfolding readable_def reads_visible_def by metis
  have rest: "act_keeps (reads_visible W p) (if st = STATUS_OK
      then act_then (act_lift (deref handler)) (\<lambda>h. act_then (create_upload W h) (\<lambda>_. act_return ()))
      else act_return ())"
    if "\<And>h. handler = Some h \<Longrightarrow> readable W p (up_content h)" for handler st
    using that by (auto intro!: act_keeps_then_lift act_keeps_then create act_keeps_basic
        simp: deref_def split: option.splits)
  show ?thesis
    unfolding answer_receive_file_def
    by (intro act_keeps_then_lift act_keeps_then_get)
      (auto intro!: act_keeps_then [OF reading.keeps_send_reply] rest dest!: sym [of "Inr _"] dest: readable)
qed

text \<open>C5: The only request that makes a peer open a file for sending is \<open>RECEIVE_FILE\<close>, and
  what it opens is a file that a virtual path stands for and that is not forbidden, with the
  contents it has on the disk.\<close>

theorem only_visible_files_read:
  assumes "pr_authorize_request W r p = (res, q)" "pr_uploads q k = Some u"
    and "\<And>u'. pr_uploads p k = Some u' \<Longrightarrow> up_content u' \<noteq> up_content u"
  shows "req_code r = RECEIVE_FILE \<and> (\<exists>path host. virtual_to_host (pr_file_mapping p) path = Inr host \<and>
    \<not> is_forbidden (w_set_contains W) (pr_file_mapping p) host \<and> pr_disk p host = Some (up_content u))"
proof
  show c: "req_code r = RECEIVE_FILE"
  proof (rule ccontr)
    assume "req_code r \<noteq> RECEIVE_FILE"
    from act_keepsD [OF uploads.keeps_authorize_download [OF TrueI this] assms(1), of p]
    have "no_new_upload p q" by (simp add: no_new_upload_def)
    with assms(2,3) show False unfolding no_new_upload_def by metis
  qed
  have "act_keeps (reads_visible W p) (pr_authorize_request W r)"
    unfolding pr_authorize_request_def respond_to_request_def
    by (simp add: c) (intro act_keeps_intros reading.keeps_queue reading_answer TrueI)
  from act_keepsD [OF this assms(1)] have "reads_visible W p q" by (simp add: reads_visible_def)
  with assms(2,3) show "\<exists>path host. virtual_to_host (pr_file_mapping p) path = Inr host \<and>
    \<not> is_forbidden (w_set_contains W) (pr_file_mapping p) host \<and> pr_disk p host = Some (up_content u)"
    unfolding reads_visible_def readable_def by metis
qed

section \<open>Files nobody asked for\<close>

definition asked_for :: "(byte \<Rightarrow> message option) \<Rightarrow> bytes \<Rightarrow> byte \<Rightarrow> bool" where
  "asked_for outgoing filepath i \<longleftrightarrow> (\<exists>m o'. outgoing i = Some m \<and> req_code (msg_request m) = RECEIVE_FILE \<and>
     req_data (msg_request m) = Some (ReceiveFileData o') \<and> rf_filepath o' = filepath)"

definition requests_typed :: "(byte \<Rightarrow> message option) \<Rightarrow> bool" where
  "requests_typed outgoing \<longleftrightarrow> (\<forall>i m. outgoing i = Some m \<longrightarrow> req_code (msg_request m) = RECEIVE_FILE \<longrightarrow>
     cast_receive_file (req_data (msg_request m)) \<noteq> None)"

lemma cast_receive_file_iff: "cast_receive_file d = Some x \<longleftrightarrow> d = Some (ReceiveFileData x)"
  by (cases d rule: cast_receive_file.cases) auto

lemma find_original_find:
  assumes "requests_typed outgoing"
  shows "find_original_request ids outgoing (Some d) = Inr (List.find (asked_for outgoing (sf_filepath d)) ids)"
proof (induction ids)
  case (Cons i ids)
  show ?case
  proof (cases "outgoing i")
    case None
    with Cons show ?thesis by (simp add: asked_for_def)
  next
    case (Some m)
    show ?thesis
    proof (cases "req_code (msg_request m) = RECEIVE_FILE")
      case True
      then obtain o' where "cast_receive_file (req_data (msg_request m)) = Some o'"
        using assms Some by (auto simp: requests_typed_def)
      with True Some Cons show ?thesis
        by (auto simp: asked_for_def cast_receive_file_iff)
    qed (use Some Cons in \<open>simp add: asked_for_def\<close>)
  qed
qed simp

interpretation buffered: sending_invariant "\<lambda>p. pr_request_buffer p = b" for b
  by unfold_locales simp_all

lemma ask_user_pending: "act_ok P (ask_user W r) (answered_as r APPROVAL_PENDING)"
proof -
  have "act_ok P (respond_to_request W r APPROVAL_PENDING) (answered_as r APPROVAL_PENDING)"
    unfolding respond_to_request_def by (simp add: act_ok_then [OF receive_noted reply_answered_as])
  then show ?thesis
    unfolding ask_user_def by (rule act_ok_before) (auto intro!: act_keeps_modify simp: answered_as_def)
qed

lemma ask_user_buffers: "act_ok (\<lambda>p. pr_request_buffer p = b) (ask_user W r) (\<lambda>q. pr_request_buffer q = b @ [r])"
proof -
  have "act_keeps (\<lambda>p. pr_request_buffer p = b) (respond_to_request W r APPROVAL_PENDING)"
    unfolding respond_to_request_def pr_send_reply_def queue_receive_request_def queue_send_reply_def
    by (auto intro!: act_keeps_intros buffered.on_queue buffered.keeps_write)
  then show ?thesis
    unfolding ask_user_def by (intro act_ok_after) (auto simp: act_ok_def act_simps)
qed

text \<open>C10: A \<open>SEND_FILE\<close> for a path the peer did not ask for touches neither the disk nor the
  downloads, even when handling it throws; handled without throwing it is answered
  \<open>APPROVAL_PENDING\<close> and kept for the user.\<close>

theorem unsolicited_files_wait:
  assumes "req_code r = SEND_FILE" "req_data r = Some (SendFileData d)"
    and "requests_typed (mq_outgoing (pr_queue p))"
    and "\<And>i. \<not> asked_for (mq_outgoing (pr_queue p)) (sf_filepath d) i"
    and "pr_authorize_request W r p = (res, q)"
  shows "pr_disk q = pr_disk p \<and> pr_downloads q = pr_downloads p \<and>
    (res = Inr () \<longrightarrow> pr_request_buffer q = pr_request_buffer p @ [r] \<and>
      mq_incoming (pr_queue q) (req_message_id r) = Some \<lparr>msg_request = r, msg_status = Some APPROVAL_PENDING\<rparr>)"
proof -
  have "List.find (asked_for (mq_outgoing (pr_queue p)) (sf_filepath d)) ids = None" for ids
    using assms(4) by (simp add: find_None_iff)
  then have ask: "pr_authorize_request W r p = ask_user W r p"
    using assms(1,2) find_original_find [OF assms(3)]
    by (simp add: pr_authorize_request_def authorize_send_file_def act_then_def act_simps)
  have "no_download p q"
    using act_keepsD [OF downloads.keeps_ask_user [OF TrueI], of _ _ p res q p] assms(5) ask by (simp add: no_download_def)
  moreover have "pr_request_buffer q = pr_request_buffer p @ [r]" if "res = Inr ()"
    using act_okD [OF ask_user_buffers refl, of W r p "()" q] assms(5) ask that by simp
  moreover have "answered_as r APPROVAL_PENDING q" if "res = Inr ()"
    using act_okD [OF ask_user_pending TrueI, of W r p "()" q] assms(5) ask that by simp
  ultimately show ?thesis by (simp add: no_download_def answered_as_def)
qed

text \<open>What counts as asked for: any \<open>RECEIVE_FILE\<close> in the queue for the same path, whatever its
  status, an old one or one the other side refused included, makes the peer accept the file
  without asking the user.\<close>

theorem old_requests_accept_files:
  assumes "req_code r = SEND_FILE" "req_data r = Some (SendFileData d)"
    and "requests_typed (mq_outgoing (pr_queue p))"
    and "asked_for (mq_outgoing (pr_queue p)) (sf_filepath d) i" "i \<in> set (w_order W (mq_outgoing (pr_queue p)))"
  shows "\<exists>j. asked_for (mq_outgoing (pr_queue p)) (sf_filepath d) j \<and>
    pr_authorize_request W r p =
      act_then (queue_receive_reply j STATUS_OK) (\<lambda>_. respond_to_request W r STATUS_OK) p"
proof -
  obtain j where j: "List.find (asked_for (mq_outgoing (pr_queue p)) (sf_filepath d))
      (w_order W (mq_outgoing (pr_queue p))) = Some j"
    using assms(4,5) by (cases "List.find (asked_for (mq_outgoing (pr_queue p)) (sf_filepath d))
      (w_order W (mq_outgoing (pr_queue p)))") (auto simp: find_None_iff)
  then have "asked_for (mq_outgoing (pr_queue p)) (sf_filepath d) j" by (auto simp: find_Some_iff)
  with j show ?thesis
    using assms(1,2) find_original_find [OF assms(3)]
    by (auto simp: pr_authorize_request_def authorize_send_file_def act_then_def act_simps)
qed

section \<open>Where downloads go\<close>

text \<open>Where a download goes. The path the peer announces is appended name by name, and so is
  the id in its certificate; no name is looked at, \<open>..\<close> included. When the id begins with a slash
  the configured folder does not count at all.\<close>

theorem download_destination_names:
  "names (download_destination p data) =
     (if absolute (path_of_bytes (pb_device_uuid p)) then [] else names (pr_downloads_folder p)) @
     names (path_of_bytes (pb_device_uuid p)) @ names (path_of_bytes (sf_filepath data))"
  by (simp add: download_destination_def names_path_append)

section \<open>The queue and the configuration\<close>


section \<open>Requests that leave defined behaviour\<close>

text \<open>A request for a visible, readable file with a packet size of 0, which the code takes from
  the message, divides by zero.\<close>

theorem zero_packet_size:
  assumes "req_code r = RECEIVE_FILE" "req_data r = Some (ReceiveFileData d)" "rf_packet_size d = 0"
    and "virtual_to_host (pr_file_mapping p) (path_of_bytes (rf_filepath d)) = Inr host" "host \<noteq> []"
    and "\<not> is_forbidden (w_set_contains W) (pr_file_mapping p) host" "pr_disk p host = Some content"
    and "w_last_write_time W host = Inr t" "w_file_hash W SHA512 (Some content) = Inr h"
  shows "fst (pr_authorize_request W r p) = Inl Undefined_behaviour"
  using assms
  by (simp add: pr_authorize_request_def respond_to_request_def answer_receive_file_def act_then_def act_simps
      queue_receive_request_def on_queue_def mq_receive_request_def prepare_upload_def Let_def)

text \<open>A request to list a visible folder leaves defined behaviour whenever the folder exists: for a
  folder of the host the constructor of the handler uses an iterator into a path that is gone, and
  for a virtual folder the handler that is stored compares iterators of two containers.\<close>

theorem list_files_undefined:
  assumes "req_code r = LIST_FILES" "req_data r = Some (ListFilesData folder)" "folder \<noteq> []"
    and "find_virtual_node (pr_file_mapping p) (path_of_bytes folder) True = Some (node, rest)"
    and "n_type node = VIRTUAL \<or>
      n_type node = HOST_FOLDER \<and> \<not> is_forbidden (w_set_contains W) (pr_file_mapping p) (n_host_path node)"
    and "p_handler (pr_protocol p) = Some Handler_v0_0_0" "pr_list_files p (req_message_id r) = None"
    and "so_write W (format_response (req_message_id r) STATUS_OK) (pb_socket p) = (Inr (), s)"
  shows "fst (pr_authorize_request W r p) = Inl Undefined_behaviour"
proof -
  have f: "path_of_bytes folder \<noteq> []" using assms(3) by (simp add: path_of_bytes_def)
  have "pr_authorize_request W r p = respond_to_request W r STATUS_OK p"
    using assms(1,2,4,5)
    by (auto simp: pr_authorize_request_def authorize_list_files_def act_then_def act_simps)
  also have "fst \<dots> = Inl Undefined_behaviour"
    using assms f
    by (auto simp: respond_to_request_def answer_list_files_def act_then_def act_simps Let_def list_files_new_def
        queue_receive_request_def on_queue_def mq_receive_request_def pr_send_reply_def queue_send_reply_def
        mq_send_reply_def handler_format_response_def pb_write_def list_files_next_def stored_get_next_packet_def
        map_emplace_def)
  finally show ?thesis .
qed

section \<open>A reply that stops the peer\<close>

lemma duplicate_reply_poll:
  assumes "p_handler (pr_protocol p) = Some Handler_v0_0_0"
    and "mq_outgoing (pr_queue p) i = Some m" "req_code (msg_request m) = SEND_FILE"
    and "msg_status m = Some STATUS_OK" "pr_uploads p i = None"
    and "so_connected W (pb_socket p)" "so_read W (pb_socket p) = (Inr new, s)" "addressable (pb_buffer p @ new)"
    and "parse_request (pb_buffer p @ new) out =
      Inr (n, \<lparr>req_code = RESPONSE, req_data = Some (ResponseData STATUS_OK), req_message_id = i\<rparr>)" "n \<noteq> 0"
  shows "pr_poll_requests W out p = (Inl Out_of_range, p\<lparr>pb_socket := s, pb_buffer := pb_buffer p @ new\<rparr>)"
proof -
  let ?p = "p\<lparr>pb_socket := s, pb_buffer := pb_buffer p @ new\<rparr>"
  let ?r = "\<lparr>req_code = RESPONSE, req_data = Some (ResponseData STATUS_OK), req_message_id = i\<rparr>"
  have "pr_authorize_request W ?r ?p = (Inl Out_of_range, ?p)"
    using assms(2-5)
    by (simp add: pr_authorize_request_def act_then_def act_simps receive_reply_def effective_status_def Let_def
        queue_receive_reply_def on_queue_def mq_receive_reply_def)
  moreover have "pr_parse_bytes (pb_buffer p @ new) out ?p = (Inr (n, ?r), ?p)"
    using assms(1,9) by (simp add: pr_parse_bytes_def act_then_def act_simps handler_parse_request_def)
  moreover have "pb_buffer p @ new \<noteq> []"
    using request_frames.parse_bound [OF assms(8,9)] assms(10) by (auto simp: unat_eq_0)
  ultimately show ?thesis
    using assms(6,7,10)
    by (auto simp: pr_poll_requests_def poll_requests_def act_then_def act_simps pb_read_def
        poll_loop_step [of _ _ "pb_buffer p @ new"])
qed

text \<open>C37: A second \<open>STATUS_OK\<close> for a \<open>SEND_FILE\<close> whose upload is over stops the peer for good: handling
  it throws, the buffer keeps it, and as long as the socket only adds bytes behind it every
  further poll finds the same reply first and throws again.\<close>

theorem duplicate_reply_wedges:
  assumes "p_handler (pr_protocol p) = Some Handler_v0_0_0"
    and "mq_outgoing (pr_queue p) i = Some m" "req_code (msg_request m) = SEND_FILE"
    and "msg_status m = Some STATUS_OK" "pr_uploads p i = None"
    and "so_connected W (pb_socket p)" "so_read W (pb_socket p) = (Inr new, s)" "addressable (pb_buffer p @ new)"
    and "parse_request (pb_buffer p @ new) out =
      Inr (n, \<lparr>req_code = RESPONSE, req_data = Some (ResponseData STATUS_OK), req_message_id = i\<rparr>)" "n \<noteq> 0"
  shows "pr_poll_requests W out p = (Inl Out_of_range, p\<lparr>pb_socket := s, pb_buffer := pb_buffer p @ new\<rparr>) \<and>
    (\<forall>more. addressable ((pb_buffer p @ new) @ more) \<longrightarrow> parse_request ((pb_buffer p @ new) @ more) out =
      Inr (n, \<lparr>req_code = RESPONSE, req_data = Some (ResponseData STATUS_OK), req_message_id = i\<rparr>))"
  using duplicate_reply_poll [OF assms] request_frames.parse_stable [OF _ assms(9,10)] by blast

section \<open>Examples\<close>

text \<open>A peer on the tape socket with one file, and a hash that is 64 times the length.\<close>

definition tape_world :: "tape peer_world" where
  "tape_world = \<lparr>so_connected = so_connected tape_ops, so_read = so_read tape_ops, so_write = so_write tape_ops,
     so_close = so_close tape_ops, so_peer_cert = so_peer_cert tape_ops,
     w_file_hash = (\<lambda>a c. case c of None \<Rightarrow> Inl (Runtime_error ''open'') | Some c \<Rightarrow> Inr (replicate 64 (of_nat (length c)))),
     w_can_open = (\<lambda>f. True), w_set_contains = (\<lambda>ps p. p \<in> set ps), w_list_directory = (\<lambda>p. Inr []),
     w_is_directory = (\<lambda>p. False), w_last_write_time = (\<lambda>p. Inr 0),
     w_order = (\<lambda>m. filter (\<lambda>i. m i \<noteq> None) (map of_nat [0..<256])), w_poll = (\<lambda>s. 1)\<rparr>"

definition tape_mapping :: file_mapping where
  "tape_mapping = \<lparr>fm_root_node = Path_node ''//fsp'' [(''a'', Path_node ''a'' [] ''/srv/a'' HOST_FILE VISIBLE)] [] VIRTUAL VISIBLE,
     fm_forbidden_paths = [''/root'']\<rparr>"

definition tape_trusted :: "bytes \<Rightarrow> bytes list \<Rightarrow> tape peer" where
  "tape_trusted buffer reads = \<lparr>pb_socket = \<lparr>tp_in = reads, tp_out = [], tp_open = True\<rparr>,
     pb_device_uuid = [1], pb_device_name = [1], pb_public_key = [2], pb_buffer = buffer,
     pr_file_mapping = tape_mapping, pr_downloads_folder = ''/dl'', pr_protocol = protocol_v0,
     pr_request_buffer = [], pr_queue = queue_new, pr_downloads = Map.empty, pr_uploads = Map.empty,
     pr_list_files = Map.empty, pr_file_lists = Map.empty, pr_disk = [''/srv/a'' \<mapsto> [1, 2, 3]]\<rparr>"

definition path_a :: bytes where
  "path_a = bytes_of_path ''//fsp/a''"

lemma tape_lookup: "find_virtual_node tape_mapping (path_of_bytes path_a) True =
    Some (Path_node ''a'' [] ''/srv/a'' HOST_FILE VISIBLE, [])"
proof -
  have "path_of_bytes path_a = ''//fsp/a''" by (simp add: path_a_def)
  then show ?thesis
    by (simp add: find_virtual_node_def tape_mapping_def trim_node_name_def slash_def starts_with_def
        elems_def names_def absolute_def Let_def)
qed

lemma tape_not_forbidden: "\<not> is_forbidden (\<lambda>ps p. p \<in> set ps) tape_mapping ''/srv/a''"
  by (simp add: is_forbidden_def tape_mapping_def starts_with_def drop_last_slash_def slash_def)

lemmas peer_eval = act_then_def act_simps queue_receive_request_def queue_send_reply_def on_queue_def
  mq_receive_request_def mq_send_reply_def pr_send_reply_def handler_format_response_def pb_write_def Let_def

lemmas tape_eval = tape_trusted_def tape_world_def tape_ops_def protocol_v0_def queue_new_def

definition ping_request :: request where
  "ping_request = \<lparr>req_code = PING, req_data = Some PingData, req_message_id = 7\<rparr>"


definition file_request :: "u64 \<Rightarrow> request" where
  "file_request packet_size = \<lparr>req_code = RECEIVE_FILE,
     req_data = Some (ReceiveFileData \<lparr>rf_filepath = path_a, rf_packet_size = packet_size, rf_packet_start = 0\<rparr>),
     req_message_id = 7\<rparr>"

theorem zero_packet_size_witness:
  "fst (pr_authorize_request tape_world (file_request 0) (tape_trusted [] [])) = Inl Undefined_behaviour"
proof (rule zero_packet_size)
  show "virtual_to_host (pr_file_mapping (tape_trusted [] []))
     (path_of_bytes (rf_filepath \<lparr>rf_filepath = path_a, rf_packet_size = 0, rf_packet_start = 0\<rparr>)) = Inr ''/srv/a''"
    by (simp add: virtual_to_host_def tape_trusted_def tape_lookup)
qed (simp_all add: file_request_def tape_not_forbidden tape_eval)

theorem list_files_undefined_witness:
  "fst (pr_authorize_request tape_world \<lparr>req_code = LIST_FILES, req_data = Some (ListFilesData (bytes_of_path ''//fsp'')),
     req_message_id = 7\<rparr> (tape_trusted [] [])) = Inl Undefined_behaviour"
proof (rule list_files_undefined)
  show "find_virtual_node (pr_file_mapping (tape_trusted [] [])) (path_of_bytes (bytes_of_path ''//fsp'')) True =
      Some (fm_root_node tape_mapping, [])"
    by (simp add: find_virtual_node_def tape_trusted_def tape_mapping_def trim_node_name_def slash_def starts_with_def
        elems_def names_def absolute_def Let_def)
qed (simp_all add: tape_mapping_def tape_eval bytes_of_path_def)


definition offer :: send_file_data where
  "offer = \<lparr>sf_filepath = path_a, sf_hash_algorithm = MD5, sf_filehash = [], sf_last_updated = 0,
     sf_packet_size = 4, sf_total_packets = 1\<rparr>"

definition offer_request :: request where
  "offer_request = \<lparr>req_code = SEND_FILE, req_data = Some (SendFileData offer), req_message_id = 7\<rparr>"

theorem unsolicited_files_wait_witness:
  "pr_request_buffer (snd (pr_authorize_request tape_world offer_request (tape_trusted [] []))) = [offer_request]"
proof -
  have "fst (pr_authorize_request tape_world offer_request (tape_trusted [] [])) = Inr ()"
    by (simp add: pr_authorize_request_def authorize_send_file_def ask_user_def respond_to_request_def offer_request_def
        peer_eval tape_eval)
  then show ?thesis
    using unsolicited_files_wait [of offer_request offer "tape_trusted [] []" tape_world, OF _ _ _ _ prod.collapse [symmetric]]
    by (simp add: offer_request_def) (simp add: tape_eval requests_typed_def asked_for_def)
qed

definition asking_peer :: "status_code option \<Rightarrow> tape peer" where
  "asking_peer st = (tape_trusted [] [])\<lparr>pr_queue := queue_new\<lparr>mq_outgoing := [0 \<mapsto>
     \<lparr>msg_request = (file_request 4)\<lparr>req_message_id := 0\<rparr>, msg_status = st\<rparr>]\<rparr>\<rparr>"

theorem old_requests_accept_files_witness:
  "\<exists>j. pr_authorize_request tape_world offer_request (asking_peer (Some FORBIDDEN)) =
     act_then (queue_receive_reply j STATUS_OK) (\<lambda>_. respond_to_request tape_world offer_request STATUS_OK)
       (asking_peer (Some FORBIDDEN))"
proof -
  let ?o = "mq_outgoing (pr_queue (asking_peer (Some FORBIDDEN)))"
  have o: "asked_for ?o (sf_filepath offer) 0" "requests_typed ?o"
    by (auto simp: asked_for_def requests_typed_def asking_peer_def file_request_def offer_def)
  have "(0 :: byte) \<in> set (w_order tape_world ?o)"
    by (auto simp: tape_world_def asking_peer_def intro!: image_eqI [of _ _ 0])
  with old_requests_accept_files [of offer_request offer "asking_peer (Some FORBIDDEN)" 0 tape_world] o
  show ?thesis by (auto simp: offer_request_def)
qed

definition finished_peer :: "bytes list \<Rightarrow> tape peer" where
  "finished_peer reads = (tape_trusted [] reads)\<lparr>pr_queue := queue_new\<lparr>mq_outgoing := [0 \<mapsto>
     \<lparr>msg_request = offer_request, msg_status = Some STATUS_OK\<rparr>]\<rparr>\<rparr>"

lemma ok_response_bytes: "format_response 0 STATUS_OK = [0x46, 0x53, 0x50, 0x5F, 0, 0, 1, 0]"
  by (simp add: format_response_def message_header_def magic_bytes_def varint_bytes_unfold varint_digits.simps status_to_char_def)

lemma ok_response_parses: "parse_request (format_response 0 STATUS_OK) blank_request =
    Inr (8, \<lparr>req_code = RESPONSE, req_data = Some (ResponseData STATUS_OK), req_message_id = 0\<rparr>)"
proof -
  let ?r = "\<lparr>req_code = RESPONSE, req_data = Some (ResponseData STATUS_OK), req_message_id = 0\<rparr>"
  have "format_request ?r = Inr (format_response 0 STATUS_OK)" by (simp add: format_request_def)
  from request_parse_format [OF this, of "[]" blank_request] show ?thesis
    by (simp add: named_codes_def received_request_def status_enum_def) (simp add: ok_response_bytes addressable_def)
qed

theorem duplicate_reply_wedges_witness:
  "fst (pr_poll_requests tape_world blank_request (finished_peer [format_response 0 STATUS_OK])) = Inl Out_of_range"
  using duplicate_reply_wedges [of "finished_peer [format_response 0 STATUS_OK]" 0
      "\<lparr>msg_request = offer_request, msg_status = Some STATUS_OK\<rparr>" tape_world "format_response 0 STATUS_OK"
      "\<lparr>tp_in = [], tp_out = [], tp_open = True\<rparr>" blank_request 8]
  by (simp add: finished_peer_def tape_eval offer_request_def ok_response_parses)
    (simp add: ok_response_bytes addressable_def)

theorem only_visible_files_read_witness:
  "\<exists>path host. virtual_to_host tape_mapping path = Inr host \<and> \<not> is_forbidden (\<lambda>ps p. p \<in> set ps) tape_mapping host \<and>
     [''/srv/a'' \<mapsto> [1, 2, 3 :: byte]] host = Some [1, 2, 3]"
proof -
  have v: "virtual_to_host tape_mapping (path_of_bytes path_a) = Inr ''/srv/a''"
    by (simp add: virtual_to_host_def tape_lookup)
  let ?d = "\<lparr>sf_filepath = path_a, sf_hash_algorithm = SHA512, sf_filehash = replicate 64 3, sf_last_updated = 0,
      sf_packet_size = 4, sf_total_packets = 1\<rparr>"
  have p: "prepare_upload tape_world ''/srv/a'' path_a 4 0 q =
      Inr (Some (upload_new [''/srv/a'' \<mapsto> [1, 2, 3]] ''/srv/a'' ?d 0), STATUS_OK)"
    if "pr_disk q = [''/srv/a'' \<mapsto> [1, 2, 3]]" "pr_file_mapping q = tape_mapping" for q :: "tape peer"
    using that tape_not_forbidden by (simp add: prepare_upload_def tape_eval sv_size_def)
  obtain m where m: "format_request \<lparr>req_code = SEND_FILE, req_data = Some (SendFileData ?d), req_message_id = 0\<rparr> = Inr m"
    by (simp add: format_request_def format_send_file_def to_epoch_def checked_i64_def in_i64_def epoch_diff_def sv_size_def Let_def)
  have n: "next_id (\<lambda>x. None) 0 = Some 0" by (subst next_id_step) simp
  have disk: "pr_disk (tape_trusted [] []) = [''/srv/a'' \<mapsto> [1, 2, 3]]" "pr_file_mapping (tape_trusted [] []) = tape_mapping"
      "pr_protocol (tape_trusted [] []) = protocol_v0" "p_handler protocol_v0 = Some Handler_v0_0_0"
      "pr_queue (tape_trusted [] []) = queue_new" "pr_uploads (tape_trusted [] []) = Map.empty"
      "pb_socket (tape_trusted [] []) = \<lparr>tp_in = [], tp_out = [], tp_open = True\<rparr>"
      "so_write tape_world x t = (if tp_open t then (Inr (), t\<lparr>tp_out := tp_out t @ [x]\<rparr>)
         else (Inl (Runtime_error ''closed''), t))" for x t
    by (simp_all add: tape_trusted_def protocol_v0_def tape_world_def tape_ops_def)
  have u: "pr_uploads (snd (pr_authorize_request tape_world (file_request 4) (tape_trusted [] []))) 0 =
      Some (upload_new [''/srv/a'' \<mapsto> [1, 2, 3]] ''/srv/a'' ?d 0)"
    using v m n by (simp add: pr_authorize_request_def respond_to_request_def answer_receive_file_def file_request_def
        peer_eval p disk create_upload_def pr_send_request_def mq_send_request_def queue_new_def max_id_def
        handler_format_request_def map_emplace_def upload_new_def)
  show ?thesis
    using only_visible_files_read [OF prod.collapse [symmetric] u]
    by (simp add: upload_new_def) (auto simp: tape_eval split: if_splits)
qed

section \<open>Payload classes\<close>

lemma typed_peer_new: "peer_new pre file_mapping downloads_folder disk = Inr p \<Longrightarrow> typed_peer p"
  by (auto simp: peer_new_def try_then_eq_Inr typed_peer_def queue_new_def)

lemma pull_typed:
  assumes "typed_peer p" "pull_requests W out p = (res, q)"
  shows "typed_peer q" "res = Inr rs \<Longrightarrow> list_all well_typed rs"
proof -
  show "typed_peer q" using act_keepsD [OF types.keeps_pull assms(2,1)] .
  assume "res = Inr rs"
  with assms(2) obtain q' where q': "pr_poll_requests W out p = (Inr (), q')" "rs = pr_request_buffer q'"
    by (auto simp: pull_requests_def act_then_Inr act_simps)
  from act_keepsD [OF types.keeps_poll q'(1) assms(1)] q'(2) show "list_all well_typed rs"
    by (auto simp: typed_peer_def list_all_iff)
qed

text \<open>C16: Every request in the queue of a peer, in the buffer for the user and in what polling returns
  has a payload of the class its command calls for, so a cast by the command of such a request never
  gives null; only a data or file list packet of the peer's own may be without payload. A new peer
  has this property and polling keeps it, whatever arrives and however it ends.\<close>

theorem requests_keep_types:
  assumes "peer_new pre file_mapping downloads_folder disk = Inr p \<or> typed_peer p"
    and "pull_requests W out p = (res, q)"
  shows "typed_peer q \<and> (\<forall>rs. res = Inr rs \<longrightarrow> list_all well_typed rs)"
  using assms pull_typed typed_peer_new by blast

lemma typed_requests: "typed_peer p \<Longrightarrow> requests_typed (mq_outgoing (pr_queue p))"
  by (fastforce simp: typed_peer_def requests_typed_def dest: well_typed_RECEIVE_FILE)

theorem requests_keep_types_witness:
  "typed_peer (snd (pull_requests tape_world blank_request (tape_trusted [] [sample_message])))"
proof -
  have "typed_peer (tape_trusted [] [sample_message])"
    by (simp add: typed_peer_def tape_trusted_def queue_new_def)
  then show ?thesis
    using requests_keep_types [OF disjI2 prod.collapse [symmetric]] by blast
qed

end
