(* ===== verification/Peer_Blocking.thy ===== *)
theory Peer_Blocking
  imports Peer_Laws
begin

text \<open>
  The blocking functions of \<open>source/Peer/Peer.cpp\<close>: they send a request and poll until it is
  answered and the transfer it starts is over. Nothing bounds their loops, so each is a partial
  function whose value is \<open>None\<close> when it never returns. The progress callbacks are the user's
  and have no effect here. \<open>out\<close> is the request object \<open>poll_requests\<close> starts from.
\<close>

section \<open>Running an action in a loop\<close>

type_synonym ('p, 'a) run = "'p \<Rightarrow> ('a result \<times> 'p) option"

definition run_action :: "('p, 'a) action \<Rightarrow> ('a \<Rightarrow> ('p, 'b) run) \<Rightarrow> ('p, 'b) run" where
  "run_action m f p = (case m p of (Inl e, p) \<Rightarrow> Some (Inl e, p) | (Inr a, p) \<Rightarrow> f a p)"

definition run_then :: "('p, 'a) run \<Rightarrow> ('a \<Rightarrow> ('p, 'b) run) \<Rightarrow> ('p, 'b) run" where
  "run_then m f p =
     (case m p of None \<Rightarrow> None | Some (Inl e, p) \<Rightarrow> Some (Inl e, p) | Some (Inr a, p) \<Rightarrow> f a p)"

definition run_return :: "'a \<Rightarrow> ('p, 'a) run" where
  "run_return a p = Some (Inr a, p)"

definition run_throw :: "cpp_error \<Rightarrow> ('p, 'a) run" where
  "run_throw e p = Some (Inl e, p)"

section \<open>Waiting for a reply\<close>

definition final_status :: "status_code option \<Rightarrow> bool" where
  "final_status st \<longleftrightarrow> st \<noteq> None \<and> st \<noteq> Some APPROVAL_PENDING"

partial_function (option) wait_for_status :: "'s peer_world \<Rightarrow> request \<Rightarrow> byte \<Rightarrow> 's peer \<Rightarrow> (status_code result \<times> 's peer) option" where
  "wait_for_status W out message_id p =
     (case mq_outgoing (pr_queue p) message_id of
        None \<Rightarrow> Some (Inl Out_of_range, p)
      | Some m \<Rightarrow>
          if final_status (msg_status m) then Some (Inr (the (msg_status m)), p)
          else if w_poll W (pb_socket p) < 0 then Some (Inl (Runtime_error ''Failed to poll for status''), p)
          else
            (case pr_poll_requests W out p of
               (Inl e, p) \<Rightarrow> Some (Inl e, p)
             | (Inr _, p) \<Rightarrow>
                 if \<not> so_connected W (pb_socket p)
                 then Some (Inl (Runtime_error ''connection lost while waiting for status''), p)
                 else wait_for_status W out message_id p))"

section \<open>Sending a file\<close>

text \<open>The loop holds a reference into the map: when the element is gone, using it is undefined.\<close>

partial_function (option) send_file_loop :: "'s peer_world \<Rightarrow> request \<Rightarrow> byte \<Rightarrow> 's peer \<Rightarrow> (unit result \<times> 's peer) option" where
  "send_file_loop W out message_id p =
     (case pr_uploads p message_id of
        None \<Rightarrow> Some (Inl Undefined_behaviour, p)
      | Some u \<Rightarrow>
          if up_finished u then Some (Inr (), p)
          else
            (case (if available_send_slots p > 0
                   then act_then (upload_next message_id) (\<lambda>packet.
                     act_then (pr_send_request W DATA_PACKET (map_option DataPacketData packet)) (\<lambda>_. act_return ()))
                   else pr_poll_requests W out) p of
               (Inl e, p) \<Rightarrow> Some (Inl e, p)
             | (Inr _, p) \<Rightarrow> send_file_loop W out message_id p))"

definition send_file :: "'s peer_world \<Rightarrow> request \<Rightarrow> path \<Rightarrow> ('s peer, status_code) run" where
  "send_file W out filepath =
     run_action (create_host_upload W filepath) (\<lambda>message_id.
     run_then (wait_for_status W out message_id) (\<lambda>status.
     if status \<noteq> STATUS_OK then
       run_action (\<lambda>p. if pr_uploads p message_id = None then (Inl Undefined_behaviour, p)
           else (Inr (), p\<lparr>pr_uploads := (pr_uploads p)(message_id := None)\<rparr>)) (\<lambda>_. run_return status)
     else run_then (send_file_loop W out message_id) (\<lambda>_. run_return status)))"

section \<open>Receiving a file\<close>

fun find_incoming :: "byte list \<Rightarrow> (byte \<Rightarrow> message option) \<Rightarrow> bytes \<Rightarrow> (byte \<times> message) option result" where
  "find_incoming [] incoming filepath = Inr None"
| "find_incoming (i # is) incoming filepath =
     (case incoming i of
        None \<Rightarrow> find_incoming is incoming filepath
      | Some m \<Rightarrow>
          if req_code (msg_request m) \<noteq> SEND_FILE then find_incoming is incoming filepath
          else
            try_then (deref (cast_send_file (req_data (msg_request m)))) (\<lambda>original.
            if filepath = sf_filepath original then Inr (Some (i, m)) else find_incoming is incoming filepath))"

partial_function (option) receive_file_loop :: "'s peer_world \<Rightarrow> request \<Rightarrow> byte \<Rightarrow> 's peer \<Rightarrow> (unit result \<times> 's peer) option" where
  "receive_file_loop W out key p =
     (case pr_downloads p key of
        None \<Rightarrow> Some (Inl Undefined_behaviour, p)
      | Some d \<Rightarrow>
          if dl_finished d then Some (Inr (), p\<lparr>pr_downloads := (pr_downloads p)(key := None)\<rparr>)
          else
            (case pr_poll_requests W out p of
               (Inl e, p) \<Rightarrow> Some (Inl e, p)
             | (Inr _, p) \<Rightarrow> receive_file_loop W out key p))"

definition receive_file :: "'s peer_world \<Rightarrow> request \<Rightarrow> bytes \<Rightarrow> ('s peer, status_code) run" where
  "receive_file W out filepath =
     run_action (pr_send_request W RECEIVE_FILE
       (Some (ReceiveFileData \<lparr>rf_filepath = filepath, rf_packet_size = 0, rf_packet_start = 0\<rparr>))) (\<lambda>message_id.
     run_then (wait_for_status W out message_id) (\<lambda>status.
     if status \<noteq> STATUS_OK then run_return status
     else
       run_action (act_get (\<lambda>p. mq_incoming (pr_queue p))) (\<lambda>incoming.
       run_action (act_lift (find_incoming (w_order W incoming) incoming filepath)) (\<lambda>request.
       run_action (act_lift (deref request)) (\<lambda>(key, m).
       run_action (act_get (\<lambda>p. pr_downloads p key)) (\<lambda>transfer.
       if msg_status m = Some UP_TO_DATE then run_return UP_TO_DATE
       else
         (case transfer of
            None \<Rightarrow> run_throw (Runtime_error ''Failed to locate download transfer'')
          | Some d \<Rightarrow>
              run_action (act_modify (\<lambda>p. p\<lparr>pr_downloads := (pr_downloads p)(key \<mapsto> d\<lparr>dl_keep := True\<rparr>)\<rparr>)) (\<lambda>_.
              run_then (receive_file_loop W out key) (\<lambda>_. run_return status)))))))))"

section \<open>Listing files\<close>

partial_function (option) list_files_loop :: "'s peer_world \<Rightarrow> request \<Rightarrow> byte \<Rightarrow> 's peer \<Rightarrow>
    (file_info list result \<times> 's peer) option" where
  "list_files_loop W out message_id p =
     (case pr_file_lists p message_id of
        None \<Rightarrow> Some (Inl Undefined_behaviour, p)
      | Some t \<Rightarrow>
          if ft_finished t
          then Some (Inr (ft_file_list t), p\<lparr>pr_file_lists := (pr_file_lists p)(message_id := None)\<rparr>)
          else
            (case pr_poll_requests W out p of
               (Inl e, p) \<Rightarrow> Some (Inl e, p)
             | (Inr _, p) \<Rightarrow> list_files_loop W out message_id p))"

definition list_files :: "'s peer_world \<Rightarrow> request \<Rightarrow> bytes \<Rightarrow> ('s peer, status_code \<times> file_info list option) run" where
  "list_files W out folderpath =
     run_action (pr_send_request W LIST_FILES (Some (ListFilesData folderpath))) (\<lambda>message_id.
     run_then (wait_for_status W out message_id) (\<lambda>status.
     if status \<noteq> STATUS_OK then run_return (status, None)
     else
       run_action (act_get (\<lambda>p. pr_file_lists p message_id)) (\<lambda>iter.
       if iter = None then run_throw (Runtime_error ''Failed to locate list file transfer'')
       else run_then (list_files_loop W out message_id) (\<lambda>file_list. run_return (status, Some file_list)))))"

section \<open>Loops that do not return\<close>

lemma poll_disconnected: "\<not> so_connected W (pb_socket p) \<Longrightarrow> pr_poll_requests W out p = (Inr (), p)"
  by (simp add: pr_poll_requests_def poll_requests_def act_then_def act_simps)

lemma list_files_hangs:
  assumes "\<not> so_connected W (pb_socket p)" "pr_file_lists p k = Some t" "\<not> ft_finished t"
  shows "list_files_loop W out k p = None"
proof -
  let ?P = "\<lambda>W out k p y. \<not> (\<not> so_connected W (pb_socket p) \<and> pr_file_lists p k = Some t \<and> \<not> ft_finished t)"
  have "?P W out k p y" if "list_files_loop W out k p = Some y" for y
  proof (rule list_files_loop.raw_induct [where P = ?P, OF _ that], rule notI, elim conjE)
    fix f W out k p y
    assume IH: "\<And>W out k p y. f W out k p = Some y \<Longrightarrow> ?P W out k p y" and a:
      "\<not> so_connected W (pb_socket p)" "pr_file_lists p k = Some t" "\<not> ft_finished t"
      and "(case pr_file_lists p k of
        None \<Rightarrow> Some (Inl Undefined_behaviour, p)
      | Some t \<Rightarrow>
          if ft_finished t
          then Some (Inr (ft_file_list t), p\<lparr>pr_file_lists := (pr_file_lists p)(k := None)\<rparr>)
          else (case pr_poll_requests W out p of (Inl e, p) \<Rightarrow> Some (Inl e, p) | (Inr _, p) \<Rightarrow> f W out k p)) = Some y"
    then show False using IH [of W out k p y] a by (auto simp: poll_disconnected)
  qed
  with assms show ?thesis by (cases "list_files_loop W out k p") auto
qed

lemma receive_file_hangs:
  assumes "\<not> so_connected W (pb_socket p)" "pr_downloads p k = Some d" "\<not> dl_finished d"
  shows "receive_file_loop W out k p = None"
proof -
  let ?P = "\<lambda>W out k p y. \<not> (\<not> so_connected W (pb_socket p) \<and> pr_downloads p k = Some d \<and> \<not> dl_finished d)"
  have "?P W out k p y" if "receive_file_loop W out k p = Some y" for y
  proof (rule receive_file_loop.raw_induct [where P = ?P, OF _ that], rule notI, elim conjE)
    fix f W out k p y
    assume IH: "\<And>W out k p y. f W out k p = Some y \<Longrightarrow> ?P W out k p y" and a:
      "\<not> so_connected W (pb_socket p)" "pr_downloads p k = Some d" "\<not> dl_finished d"
      and "(case pr_downloads p k of
        None \<Rightarrow> Some (Inl Undefined_behaviour, p)
      | Some d \<Rightarrow>
          if dl_finished d then Some (Inr (), p\<lparr>pr_downloads := (pr_downloads p)(k := None)\<rparr>)
          else (case pr_poll_requests W out p of (Inl e, p) \<Rightarrow> Some (Inl e, p) | (Inr _, p) \<Rightarrow> f W out k p)) = Some y"
    then show False using IH [of W out k p y] a by (auto simp: poll_disconnected)
  qed
  with assms show ?thesis by (cases "receive_file_loop W out k p") auto
qed

lemma send_file_hangs:
  assumes "\<not> so_connected W (pb_socket p)" "pr_uploads p k = Some u" "\<not> up_finished u" "available_send_slots p = 0"
  shows "send_file_loop W out k p = None"
proof -
  let ?P = "\<lambda>W out k p y. \<not> (\<not> so_connected W (pb_socket p) \<and> pr_uploads p k = Some u \<and> \<not> up_finished u \<and> available_send_slots p = 0)"
  have "?P W out k p y" if "send_file_loop W out k p = Some y" for y
  proof (rule send_file_loop.raw_induct [where P = ?P, OF _ that], rule notI, elim conjE)
    fix f W out k p y
    assume IH: "\<And>W out k p y. f W out k p = Some y \<Longrightarrow> ?P W out k p y" and a:
      "\<not> so_connected W (pb_socket p)" "pr_uploads p k = Some u" "\<not> up_finished u" "available_send_slots p = 0"
      and "(case pr_uploads p k of
        None \<Rightarrow> Some (Inl Undefined_behaviour, p)
      | Some u \<Rightarrow>
          if up_finished u then Some (Inr (), p)
          else
            (case (if available_send_slots p > 0
                   then act_then (upload_next k) (\<lambda>packet.
                     act_then (pr_send_request W DATA_PACKET (map_option DataPacketData packet)) (\<lambda>_. act_return ()))
                   else pr_poll_requests W out) p of
               (Inl e, p) \<Rightarrow> Some (Inl e, p)
             | (Inr _, p) \<Rightarrow> f W out k p)) = Some y"
    then show False using IH [of W out k p y] a by (auto simp: poll_disconnected)
  qed
  with assms show ?thesis by (cases "send_file_loop W out k p") auto
qed

text \<open>Once the connection is lost, the blocking functions never return: a list or a download that is
  not finished, and an upload whose slots are used up, are polled for forever.\<close>

theorem disconnected_loops_hang:
  assumes "\<not> so_connected W (pb_socket p)"
  shows "(\<forall>k t. pr_file_lists p k = Some t \<and> \<not> ft_finished t \<longrightarrow> list_files_loop W out k p = None) \<and>
    (\<forall>k d. pr_downloads p k = Some d \<and> \<not> dl_finished d \<longrightarrow> receive_file_loop W out k p = None) \<and>
    (\<forall>k u. pr_uploads p k = Some u \<and> \<not> up_finished u \<and> available_send_slots p = 0 \<longrightarrow> send_file_loop W out k p = None)"
  using assms list_files_hangs receive_file_hangs send_file_hangs by blast

section \<open>What waiting gives\<close>

lemma wait_result:
  fixes W :: "'s peer_world"
  assumes "wait_for_status W out k p = Some (Inr st, q)"
  shows "\<exists>m. mq_outgoing (pr_queue q) k = Some m \<and> msg_status m = Some st \<and> final_status (Some st)"
proof -
  let ?Q = "\<lambda>k (r :: status_code result \<times> 's peer). \<forall>st q. r = (Inr st, q) \<longrightarrow>
      (\<exists>m. mq_outgoing (pr_queue q) k = Some m \<and> msg_status m = Some st \<and> final_status (Some st))"
  have "?Q k (Inr st, q)"
  proof (rule wait_for_status.raw_induct [where P = "\<lambda>(W :: 's peer_world) out k p r. ?Q k r", OF _ assms])
    fix f W out k p r
    assume IH: "\<And>W out k p r. f W out k p = Some r \<Longrightarrow> ?Q k r"
      and e: "(case mq_outgoing (pr_queue p) k of
        None \<Rightarrow> Some (Inl Out_of_range, p)
      | Some m \<Rightarrow>
          if final_status (msg_status m) then Some (Inr (the (msg_status m)), p)
          else if w_poll W (pb_socket p) < 0 then Some (Inl (Runtime_error ''Failed to poll for status''), p)
          else
            (case pr_poll_requests W out p of
               (Inl e, p) \<Rightarrow> Some (Inl e, p)
             | (Inr _, p) \<Rightarrow>
                 if \<not> so_connected W (pb_socket p)
                 then Some (Inl (Runtime_error ''connection lost while waiting for status''), p)
                 else f W out k p)) = Some r"
    from e IH [of W out k] show "?Q k r"
      by (auto simp: final_status_def split: option.splits if_splits prod.splits sum.splits)
  qed
  then show ?thesis by blast
qed

text \<open>C34: Waiting for the status of a request gives, if it returns one, a final status that the queue
  holds for that request, at once if it was there before; it returns nothing when the other side stays
  connected and silent.\<close>

theorem waiting_gives_final_status:
  assumes "mq_outgoing (pr_queue p) k = Some m"
  shows "(wait_for_status W out k p = Some (Inr st, q) \<longrightarrow>
      st \<noteq> APPROVAL_PENDING \<and> (\<exists>m'. mq_outgoing (pr_queue q) k = Some m' \<and> msg_status m' = Some st)) \<and>
    (final_status (msg_status m) \<longrightarrow> wait_for_status W out k p = Some (Inr (the (msg_status m)), p)) \<and>
    (\<not> final_status (msg_status m) \<and> pb_buffer p = [] \<and> so_connected W (pb_socket p) \<and>
      so_read W (pb_socket p) = (Inr [], pb_socket p) \<and> w_poll W (pb_socket p) \<ge> 0 \<longrightarrow>
      wait_for_status W out k p = None)"
proof (intro conjI impI)
  show "st \<noteq> APPROVAL_PENDING" "\<exists>m'. mq_outgoing (pr_queue q) k = Some m' \<and> msg_status m' = Some st"
    if "wait_for_status W out k p = Some (Inr st, q)"
    using wait_result [OF that] by (auto simp: final_status_def)
  show "wait_for_status W out k p = Some (Inr (the (msg_status m)), p)" if "final_status (msg_status m)"
    using assms that by (subst wait_for_status.simps) simp
  assume silent: "\<not> final_status (msg_status m) \<and> pb_buffer p = [] \<and> so_connected W (pb_socket p) \<and>
      so_read W (pb_socket p) = (Inr [], pb_socket p) \<and> w_poll W (pb_socket p) \<ge> 0"
  have poll: "pr_poll_requests W out p = (Inr (), p)"
    using silent by (simp add: pr_poll_requests_def poll_requests_def act_then_def act_simps pb_read_def)
  let ?P = "\<lambda>W' out' k' p' r. \<not> (W' = W \<and> out' = out \<and> k' = k \<and> p' = p)"
  have "?P W out k p r" if "wait_for_status W out k p = Some r" for r
  proof (rule wait_for_status.raw_induct [where P = ?P, OF _ that], rule notI, elim conjE)
    fix f W' out' k' p' r
    assume IH: "\<And>W out k p r. f W out k p = Some r \<Longrightarrow> ?P W out k p r" and a:
      "W' = W" "out' = out" "k' = k" "p' = p" and "(case mq_outgoing (pr_queue p') k' of
        None \<Rightarrow> Some (Inl Out_of_range, p')
      | Some m \<Rightarrow>
          if final_status (msg_status m) then Some (Inr (the (msg_status m)), p')
          else if w_poll W' (pb_socket p') < 0 then Some (Inl (Runtime_error ''Failed to poll for status''), p')
          else
            (case pr_poll_requests W' out' p' of
               (Inl e, p) \<Rightarrow> Some (Inl e, p)
             | (Inr _, p) \<Rightarrow>
                 if \<not> so_connected W' (pb_socket p)
                 then Some (Inl (Runtime_error ''connection lost while waiting for status''), p)
                 else f W' out' k' p)) = Some r"
    then show False using assms silent poll IH [of W out k p r] a by auto
  qed
  then show "wait_for_status W out k p = None" by (cases "wait_for_status W out k p") auto
qed

theorem disconnected_loops_hang_witness:
  "list_files_loop tape_world blank_request 0
     ((tape_trusted [] [])\<lparr>pb_socket := \<lparr>tp_in = [], tp_out = [], tp_open = False\<rparr>, pr_file_lists := [0 \<mapsto> file_list_new]\<rparr>) = None"
  using disconnected_loops_hang [of tape_world
      "(tape_trusted [] [])\<lparr>pb_socket := \<lparr>tp_in = [], tp_out = [], tp_open = False\<rparr>, pr_file_lists := [0 \<mapsto> file_list_new]\<rparr>"
      blank_request]
  by (simp add: ft_finished_def file_list_new_def) (simp add: tape_world_def tape_ops_def)

theorem waiting_gives_final_status_witness:
  "wait_for_status tape_world blank_request 0 (asking_peer (Some FORBIDDEN)) =
     Some (Inr FORBIDDEN, asking_peer (Some FORBIDDEN)) \<and>
   wait_for_status tape_world blank_request 0 (asking_peer None) = None"
proof
  show "wait_for_status tape_world blank_request 0 (asking_peer (Some FORBIDDEN)) =
     Some (Inr FORBIDDEN, asking_peer (Some FORBIDDEN))"
    using waiting_gives_final_status [of "asking_peer (Some FORBIDDEN)" 0 _ tape_world blank_request]
    by (simp add: asking_peer_def final_status_def)
  show "wait_for_status tape_world blank_request 0 (asking_peer None) = None"
    using waiting_gives_final_status [of "asking_peer None" 0 _ tape_world blank_request]
    by (simp add: asking_peer_def final_status_def) (simp add: tape_eval)
qed

end
