(* ===== verification/Known_Peers.thy ===== *)
theory Known_Peers
  imports Prelude
begin

text \<open>
  \<open>source/Config/KnownPeerStore.cpp\<close>: the public key each device was first seen with. The
  \<open>unordered_map\<close> is a map from device uuids to keys. The overload of \<open>contains\<close> that
  takes a peer passes its uuid and key on.
\<close>

section \<open>Operations\<close>

type_synonym known_peers = "bytes \<Rightarrow> bytes option"

definition key_conflict :: cpp_error where
  "key_conflict = Runtime_error ''A different PublicKey exists for this UUID''"

definition known_insert :: "bytes \<Rightarrow> bytes \<Rightarrow> known_peers \<Rightarrow> known_peers result" where
  "known_insert uuid public_key store =
     (case store uuid of
        None \<Rightarrow> Inr (store(uuid \<mapsto> public_key))
      | Some key \<Rightarrow> try_then (throw_if (key \<noteq> public_key) key_conflict) (\<lambda>_. Inr store))"

definition known_remove :: "bytes \<Rightarrow> bytes \<Rightarrow> known_peers \<Rightarrow> known_peers result" where
  "known_remove uuid public_key store =
     (case store uuid of
        None \<Rightarrow> Inr store
      | Some key \<Rightarrow> try_then (throw_if (key \<noteq> public_key) key_conflict) (\<lambda>_. Inr (store(uuid := None))))"

definition known_contains :: "bytes \<Rightarrow> bytes \<Rightarrow> known_peers \<Rightarrow> bool result" where
  "known_contains uuid public_key store =
     (case store uuid of
        None \<Rightarrow> Inr False
      | Some key \<Rightarrow> try_then (throw_if (key \<noteq> public_key) key_conflict) (\<lambda>_. Inr True))"

lemma known_insert_mono: "known_insert u k store = Inr store' \<Longrightarrow> store v = Some l \<Longrightarrow> store' v = Some l"
  by (auto simp: known_insert_def try_then_eq_Inr split: option.splits if_splits)

section \<open>Trust on first use\<close>

text \<open>
  What the server relies on: a key that was accepted stays the one key of its device, and
  asking about a device that has another key fails.
\<close>

locale key_pinning =
  fixes ins :: "'u \<Rightarrow> 'k \<Rightarrow> 's \<Rightarrow> 's result"
    and con :: "'u \<Rightarrow> 'k \<Rightarrow> 's \<Rightarrow> bool result"
  assumes con_ins: "ins u k s = Inr s' \<Longrightarrow> con u k s' = Inr True"
    and con_other: "con u k s = Inr True \<Longrightarrow> k' \<noteq> k \<Longrightarrow> \<exists>e. con u k' s = Inl e"
    and ins_keeps: "con u k s = Inr True \<Longrightarrow> ins u' k' s = Inr s' \<Longrightarrow> con u k s' = Inr True"
    and ins_known: "con u k s = Inr True \<Longrightarrow> ins u k s = Inr s"
    and ins_iff: "(\<exists>s'. ins u k s = Inr s') \<longleftrightarrow> (\<exists>b. con u k s = Inr b)"
begin

fun ins_all :: "('u \<times> 'k) list \<Rightarrow> 's \<Rightarrow> 's result" where
  "ins_all [] s = Inr s"
| "ins_all ((u, k) # xs) s = try_then (ins u k s) (ins_all xs)"

lemma pinned_forever:
  "con u k s = Inr True \<Longrightarrow> ins_all xs s = Inr s' \<Longrightarrow> con u k s' = Inr True"
  by (induction xs s rule: ins_all.induct) (auto simp: try_then_eq_Inr dest: ins_keeps)

lemma impostor_refused:
  assumes "ins u k s = Inr s1" "ins_all xs s1 = Inr s2" "k' \<noteq> k"
  shows "(\<exists>e. con u k' s2 = Inl e) \<and> (\<exists>e. ins u k' s2 = Inl e)"
proof -
  have "con u k s2 = Inr True" using con_ins [OF assms(1)] assms(2) by (rule pinned_forever)
  from con_other [OF this assms(3)] have c: "\<exists>e. con u k' s2 = Inl e" .
  then have "\<not> (\<exists>b. con u k' s2 = Inr b)" by auto
  then have "\<not> (\<exists>s'. ins u k' s2 = Inr s')" by (simp only: ins_iff not_False_eq_True)
  then have "\<exists>e. ins u k' s2 = Inl e" by (cases "ins u k' s2") auto
  with c show ?thesis by blast
qed

lemma returning_peer_known:
  assumes "ins u k s = Inr s1" "ins_all xs s1 = Inr s2"
  shows "con u k s2 = Inr True \<and> ins u k s2 = Inr s2"
  using pinned_forever [OF con_ins [OF assms(1)] assms(2)] by (simp add: ins_known)

end

interpretation known: key_pinning known_insert known_contains
proof
  fix u k k' u' :: bytes and s s' :: known_peers
  show "(\<exists>s'. known_insert u k s = Inr s') \<longleftrightarrow> (\<exists>b. known_contains u k s = Inr b)"
    by (cases "s u") (auto simp: known_insert_def known_contains_def try_then_eq_Inr)
qed (auto simp: known_insert_def known_contains_def try_then_eq_Inr try_then_eq_Inl split: option.splits if_splits)

section \<open>Properties\<close>

text \<open>A device is bound to the first key it was inserted with: whatever is inserted
  afterwards, the store recognises that key, and refuses both to recognise and to insert
  any other key for the device.\<close>

theorem first_key_pinned:
  assumes "known_insert u k s = Inr s1" "known.ins_all xs s1 = Inr s2" "k' \<noteq> k"
  shows "known_contains u k s2 = Inr True \<and>
    (\<exists>e. known_contains u k' s2 = Inl e) \<and> (\<exists>e. known_insert u k' s2 = Inl e)"
  using known.returning_peer_known [OF assms(1,2)] known.impostor_refused [OF assms] by blast

theorem first_key_pinned_witness:
  "\<exists>s. known_insert [1] [10] Map.empty = Inr s \<and> (\<exists>e. known_contains [1] [11] s = Inl e)"
  using first_key_pinned [of "[1]" "[10]" Map.empty "[[1] \<mapsto> [10]]" "[]" "[[1] \<mapsto> [10]]" "[11]"]
  by (simp add: known_insert_def)

text \<open>The uniqueness of public keys that the comments announce is not enforced: two devices
  may be inserted with one key, and both are then recognised. Removing a device needs its own
  key and forgets that device only.\<close>

theorem keys_not_unique:
  assumes "s u = None" "s v = None" "u \<noteq> v"
  shows "\<exists>s1 s2 s3. known_insert u k s = Inr s1 \<and> known_insert v k s1 = Inr s2 \<and>
    known_contains u k s2 = Inr True \<and> known_contains v k s2 = Inr True \<and>
    known_remove u k s2 = Inr s3 \<and> known_contains u k s3 = Inr False \<and> known_contains v k s3 = Inr True"
  using assms by (simp add: known_insert_def known_contains_def known_remove_def)

theorem keys_not_unique_witness:
  "\<exists>s1 s2. known_insert [1] [9] Map.empty = Inr s1 \<and> known_insert [2] [9] s1 = Inr s2 \<and>
    known_contains [1] [9] s2 = Inr True \<and> known_contains [2] [9] s2 = Inr True"
  using keys_not_unique [of Map.empty "[1]" "[2]" "[9]"] by auto

end
