(* ===== verification/Server.thy ===== *)
theory Server
  imports Peer_Blocking Known_Peers
begin

unbundle bit_operations_syntax

text \<open>
  \<open>source/Server.cpp\<close> and \<open>Utils/Vector.hpp\<close>: the server polls its file descriptors,
  accepts connections, promotes peers to trusted ones and collects the events for the user.

  Peers are shared between the maps and the events, so they live in two stores and the maps hold
  addresses; \<open>shared_ptr\<close>s are never null but where the code moves them away. There is one
  disk, which a peer sees while it is polled. The listening socket, \<open>poll\<close> and the file
  descriptor of a socket are the system's, in the record \<open>server_world\<close>.
\<close>

section \<open>The certificate check\<close>

text \<open>
  \<open>verify_callback\<close>: what it asks of the certificate in question are the entries of its subject,
  which may be absent. It returns the verdict and the error it leaves in the context.
\<close>

datatype subject_nid = NID_organizationName | NID_organizationalUnitName | NID_subject_commonName | NID_subject_dnQualifier

datatype verify_error = X509_V_OK | DEPTH_ZERO_SELF_SIGNED_CERT | APPLICATION_VERIFICATION | Other_verify_error int

definition org_name_cmp :: bytes where
  "org_name_cmp = bytes_of_path ''FileShare''"

definition org_unit_name_cmp :: bytes where
  "org_unit_name_cmp = bytes_of_path ''FileShare Self-Signed Device Certificate''"

definition verify_callback :: "int \<Rightarrow> verify_error \<Rightarrow> (subject_nid \<Rightarrow> bytes option) \<Rightarrow> int \<times> verify_error" where
  "verify_callback preverify_ok err subject =
     (if err = DEPTH_ZERO_SELF_SIGNED_CERT then
        let cert_valid = (subject NID_organizationName \<noteq> None \<and> subject NID_organizationalUnitName \<noteq> None \<and>
              subject NID_subject_commonName \<noteq> None \<and> subject NID_subject_dnQualifier \<noteq> None);
            cert_valid = (if cert_valid then
                the (subject NID_organizationName) = org_name_cmp \<and>
                the (subject NID_organizationalUnitName) = org_unit_name_cmp
              else False)
        in if \<not> cert_valid then (0, APPLICATION_VERIFICATION) else (1, X509_V_OK)
      else (preverify_ok, err))"

section \<open>State\<close>

record pollfd =
  pf_fd :: int
  pf_revents :: "16 word"

definition POLLIN :: "16 word" where "POLLIN = 0x01"
definition POLLHUP :: "16 word" where "POLLHUP = 0x10"

text \<open>\<open>Server::Event\<close>; the peer of a \<open>CONNECT\<close> is null once it was moved out.\<close>

datatype event = NONE | CONNECT "nat option" | REQUEST nat request

record 's server =
  sv_socket :: 's
  sv_peer_mapping :: file_mapping
  sv_peer_downloads :: path
  sv_known_peers :: known_peers
  sv_handshake_peers :: "int \<Rightarrow> nat option"
  sv_pending_peers :: "int \<Rightarrow> nat option"
  sv_peers :: "int \<Rightarrow> nat option"
  sv_fds :: "pollfd list"
  sv_fds_capacity :: nat
  sv_events :: "event list"
  sv_pre_heap :: "nat \<Rightarrow> 's pre_auth_peer option"
  sv_peer_heap :: "nat \<Rightarrow> 's peer option"
  sv_next :: nat
  sv_disk :: disk

record 's server_world =
  sw_peer_world :: "'s peer_world"
  sw_get_fd :: "'s \<Rightarrow> int"
  sw_poll :: "pollfd list \<Rightarrow> int \<times> pollfd list"
  sw_accept :: "'s \<Rightarrow> 's result \<times> 's"
  sw_grow :: "nat \<Rightarrow> nat"

text \<open>
  Running a member function of a peer. A peer that was moved from is out of its store; the code
  does not use one again.
\<close>

definition on_pre :: "nat \<Rightarrow> ('s pre_auth_peer, 'a) action \<Rightarrow> ('s server, 'a) action" where
  "on_pre a m s =
     (case sv_pre_heap s a of
        None \<Rightarrow> (Inl Undefined_behaviour, s)
      | Some p \<Rightarrow> (case m p of (r, p) \<Rightarrow> (r, s\<lparr>sv_pre_heap := (sv_pre_heap s)(a \<mapsto> p)\<rparr>)))"

definition on_peer :: "nat \<Rightarrow> ('s peer, 'a) action \<Rightarrow> ('s server, 'a) action" where
  "on_peer a m s =
     (case sv_peer_heap s a of
        None \<Rightarrow> (Inl Undefined_behaviour, s)
      | Some p \<Rightarrow>
          (case m (p\<lparr>pr_disk := sv_disk s\<rparr>) of
             (r, p) \<Rightarrow> (r, s\<lparr>sv_peer_heap := (sv_peer_heap s)(a \<mapsto> p), sv_disk := pr_disk p\<rparr>)))"

section \<open>Vectors\<close>

text \<open>\<open>delete_move\<close>: an iterator is an index, \<open>end()\<close> the length.\<close>

definition delete_move :: "'a list \<Rightarrow> nat \<Rightarrow> 'a list \<times> nat" where
  "delete_move vector iter =
     (let back = length vector - 1 in
      if iter = back then (butlast vector, length vector - 1)
      else (butlast (vector[iter := vector ! back]), iter))"

definition delete_fd :: "nat \<Rightarrow> ('s server, nat) action" where
  "delete_fd iter s = (case delete_move (sv_fds s) iter of (fds, iter) \<Rightarrow> (Inr iter, s\<lparr>sv_fds := fds\<rparr>))"

section \<open>Peers\<close>

definition insert_peer :: "'s server_world \<Rightarrow> nat \<Rightarrow> ('s server, unit) action" where
  "insert_peer V a =
     act_then (on_peer a (act_get (\<lambda>p. sw_get_fd V (pb_socket p)))) (\<lambda>client_fd.
     act_then (act_get (\<lambda>s. sv_peers s client_fd)) (\<lambda>old.
     if old \<noteq> None then act_lift (Inl (Runtime_error ''Peer already connected''))
     else act_modify (\<lambda>s. s\<lparr>sv_peers := (sv_peers s)(client_fd \<mapsto> a)\<rparr>)))"

text \<open>\<open>insert_peer(PreAuthPeer_ptr &&)\<close>: a \<open>Peer\<close> is made of the moved peer.\<close>

definition promote :: "'s server_world \<Rightarrow> nat \<Rightarrow> ('s server, unit) action" where
  "promote V a =
     act_then (\<lambda>s.
       case sv_pre_heap s a of
         None \<Rightarrow> (Inl Undefined_behaviour, s)
       | Some p \<Rightarrow>
           let s = s\<lparr>sv_pre_heap := (sv_pre_heap s)(a := None)\<rparr> in
           (case peer_new p (sv_peer_mapping s) (sv_peer_downloads s) (sv_disk s) of
              Inl e \<Rightarrow> (Inl e, s)
            | Inr peer \<Rightarrow>
                (Inr (sv_next s), s\<lparr>sv_peer_heap := (sv_peer_heap s)(sv_next s \<mapsto> peer), sv_next := sv_next s + 1\<rparr>)))
       (insert_peer V)"

definition accept_peer :: "'s server_world \<Rightarrow> nat \<Rightarrow> bool \<Rightarrow> ('s server, unit) action" where
  "accept_peer V a temporary_trust =
     act_then (on_pre a (act_get id)) (\<lambda>peer.
     act_then (act_get sv_known_peers) (\<lambda>known.
     act_then (act_lift (if temporary_trust then Inr known
       else known_insert (pb_device_uuid peer) (pb_public_key peer) known)) (\<lambda>known.
     act_then (act_modify (\<lambda>s. s\<lparr>sv_known_peers := known,
       sv_pending_peers := (sv_pending_peers s)(sw_get_fd V (pb_socket peer) := None)\<rparr>)) (\<lambda>_.
     promote V a))))"

section \<open>Events of the file descriptors\<close>

definition events_of_peer :: "'s server_world \<Rightarrow> request \<Rightarrow> nat \<Rightarrow> int \<Rightarrow> nat \<Rightarrow> ('s server, nat) action" where
  "events_of_peer V out iter fd a =
     act_then (on_peer a (pull_requests (sw_peer_world V) out)) (\<lambda>requests.
     act_then (act_modify (\<lambda>s. s\<lparr>sv_events := sv_events s @ map (REQUEST a) requests\<rparr>)) (\<lambda>_.
     act_then (on_peer a (act_get (\<lambda>p. so_connected (sw_peer_world V) (pb_socket p)))) (\<lambda>connected.
     if \<not> connected
     then act_then (act_modify (\<lambda>s. s\<lparr>sv_peers := (sv_peers s)(fd := None)\<rparr>)) (\<lambda>_. delete_fd iter)
     else act_return (iter + 1))))"

definition events_of_pending :: "'s server_world \<Rightarrow> request \<Rightarrow> nat \<Rightarrow> int \<Rightarrow> nat \<Rightarrow> ('s server, nat) action" where
  "events_of_pending V out iter fd a =
     act_then (on_pre a (pa_poll_requests (sw_peer_world V) out)) (\<lambda>_.
     act_then (on_pre a (act_get (\<lambda>p. so_connected (sw_peer_world V) (pb_socket p)))) (\<lambda>connected.
     if \<not> connected
     then act_then (act_modify (\<lambda>s. s\<lparr>sv_pending_peers := (sv_pending_peers s)(fd := None)\<rparr>)) (\<lambda>_. delete_fd iter)
     else act_return (iter + 1)))"

definition events_of_handshake :: "'s server_world \<Rightarrow> request \<Rightarrow> nat \<Rightarrow> int \<Rightarrow> nat \<Rightarrow> ('s server, nat) action" where
  "events_of_handshake V out iter fd a =
     act_then (on_pre a (pa_poll_requests (sw_peer_world V) out)) (\<lambda>_.
     act_then (on_pre a (act_get id)) (\<lambda>peer.
     if \<not> so_connected (sw_peer_world V) (pb_socket peer)
     then act_then (act_modify (\<lambda>s. s\<lparr>sv_handshake_peers := (sv_handshake_peers s)(fd := None)\<rparr>)) (\<lambda>_. delete_fd iter)
     else if has_protocol peer then
       act_then (act_get (\<lambda>s. known_contains (pb_device_uuid peer) (pb_public_key peer) (sv_known_peers s))) (\<lambda>r.
       act_then (act_lift r) (\<lambda>trusted.
       act_then (if trusted then promote V a
         else act_modify (\<lambda>s.
           let pending = map_emplace fd a (sv_pending_peers s) in
           s\<lparr>sv_pending_peers := pending, sv_events := sv_events s @ [CONNECT (pending fd)]\<rparr>)) (\<lambda>_.
       act_then (act_modify (\<lambda>s. s\<lparr>sv_handshake_peers := (sv_handshake_peers s)(fd := None)\<rparr>)) (\<lambda>_.
       act_return (iter + 1)))))
     else act_return (iter + 1)))"

definition handle_peer_events :: "'s server_world \<Rightarrow> request \<Rightarrow> nat \<Rightarrow> ('s server, nat) action" where
  "handle_peer_events V out iter s =
     (let fd = pf_fd (sv_fds s ! iter) in
      case sv_peers s fd of
        Some a \<Rightarrow> events_of_peer V out iter fd a s
      | None \<Rightarrow>
          (case sv_pending_peers s fd of
             Some a \<Rightarrow> events_of_pending V out iter fd a s
           | None \<Rightarrow>
               (case sv_handshake_peers s fd of
                  Some a \<Rightarrow> events_of_handshake V out iter fd a s
                | None \<Rightarrow> delete_fd iter s)))"

text \<open>
  A new connection. When the vector is full, \<open>emplace_back\<close> moves it to new memory and the
  iterator of the loop points into the old.
\<close>

definition accept_connection :: "'s server_world \<Rightarrow> nat \<Rightarrow> ('s server, nat) action" where
  "accept_connection V iter s =
     (case sw_accept V (sv_socket s) of
        (Inl e, socket) \<Rightarrow> (Inl e, s\<lparr>sv_socket := socket\<rparr>)
      | (Inr tls_socket, socket) \<Rightarrow>
          let s = s\<lparr>sv_socket := socket\<rparr>; fd = sw_get_fd V tls_socket in
          (case pre_auth_peer_new (sw_peer_world V) tls_socket SERVER of
             Inl e \<Rightarrow> (Inl e, s)
           | Inr peer \<Rightarrow>
               let full = (length (sv_fds s) = sv_fds_capacity s);
                   s = s\<lparr>sv_fds := sv_fds s @ [\<lparr>pf_fd = fd, pf_revents = 0\<rparr>],
                         sv_fds_capacity := (if full then sw_grow V (sv_fds_capacity s) else sv_fds_capacity s),
                         sv_pre_heap := (sv_pre_heap s)(sv_next s \<mapsto> peer),
                         sv_handshake_peers := map_emplace fd (sv_next s) (sv_handshake_peers s),
                         sv_next := sv_next s + 1\<rparr>
               in if full then (Inl Undefined_behaviour, s) else (Inr (iter + 1), s)))"

definition serve_fd :: "'s server_world \<Rightarrow> request \<Rightarrow> nat \<Rightarrow> ('s server, nat) action" where
  "serve_fd V out iter s =
     (if pf_fd (sv_fds s ! iter) = sw_get_fd V (sv_socket s) then accept_connection V iter s
      else handle_peer_events V out iter s)"

function poll_fds :: "'s server_world \<Rightarrow> request \<Rightarrow> int \<Rightarrow> nat \<Rightarrow> ('s server, unit) action" where
  "poll_fds V out nb_ready iter s =
     (if nb_ready > 0 \<and> iter < length (sv_fds s) then
        if pf_revents (sv_fds s ! iter) AND (POLLIN OR POLLHUP) \<noteq> 0 then
          (case serve_fd V out iter s of
             (Inl e, s) \<Rightarrow> (Inl e, s)
           | (Inr iter, s) \<Rightarrow> poll_fds V out (nb_ready - 1) iter s)
        else poll_fds V out nb_ready (iter + 1) s
      else (Inr (), s))"
  by pat_completeness auto

termination poll_fds
  by (relation "measures [\<lambda>(V, out, nb_ready, iter, s). nat nb_ready, \<lambda>(V, out, nb_ready, iter, s). length (sv_fds s) - iter]") auto

declare poll_fds.simps [simp del]

definition poll_events :: "'s server_world \<Rightarrow> request \<Rightarrow> ('s server, unit) action" where
  "poll_events V out s =
     (case sw_poll V (sv_fds s) of (nb_ready, fds) \<Rightarrow> poll_fds V out nb_ready 0 (s\<lparr>sv_fds := fds\<rparr>))"

section \<open>Events for the user\<close>

definition pull_event :: "'s server_world \<Rightarrow> request \<Rightarrow> ('s server, event \<times> bool) action" where
  "pull_event V out =
     act_then (act_get sv_events) (\<lambda>events.
     act_then (if events = [] then poll_events V out else act_return ()) (\<lambda>_.
     act_then (act_get sv_events) (\<lambda>events.
     if events = [] then act_return (NONE, False)
     else act_then (act_modify (\<lambda>s. s\<lparr>sv_events := butlast (sv_events s)\<rparr>)) (\<lambda>_. act_return (last events, True)))))"

text \<open>
  The loop of \<open>process_events\<close>, over the events from the \<open>k\<close>-th on. The callbacks are the
  user's; they may do anything but change the list of events that is being walked.
\<close>

fun process_loop :: "'s server_world \<Rightarrow> (nat option \<Rightarrow> ('s server, bool) action) \<Rightarrow>
    (nat \<Rightarrow> request \<Rightarrow> ('s server, unit) action) \<Rightarrow> nat \<Rightarrow> event list \<Rightarrow> ('s server, unit) action" where
  "process_loop V accept_cb request_cb k [] = act_return ()"
| "process_loop V accept_cb request_cb k (e # es) =
     act_then
       (case e of
          REQUEST a request \<Rightarrow> request_cb a request
        | CONNECT peer \<Rightarrow>
            act_then (act_modify (\<lambda>s. s\<lparr>sv_events := (sv_events s)[k := CONNECT None]\<rparr>)) (\<lambda>_.
            act_then (accept_cb peer) (\<lambda>accepted.
            if accepted then act_then (act_lift (deref peer)) (\<lambda>a. accept_peer V a False) else act_return ()))
        | NONE \<Rightarrow> act_return ())
       (\<lambda>_. process_loop V accept_cb request_cb (k + 1) es)"

definition process_events :: "'s server_world \<Rightarrow> request \<Rightarrow> (nat option \<Rightarrow> ('s server, bool) action) \<Rightarrow>
    (nat \<Rightarrow> request \<Rightarrow> ('s server, unit) action) \<Rightarrow> ('s server, unit) action" where
  "process_events V out accept_cb request_cb =
     act_then (poll_events V out) (\<lambda>_.
     act_then (act_get sv_events) (\<lambda>events.
     act_then (process_loop V accept_cb request_cb 0 events) (\<lambda>_.
     act_modify (\<lambda>s. s\<lparr>sv_events := []\<rparr>))))"

section \<open>Connecting\<close>

text \<open>The wait for the server's version, which nothing bounds.\<close>

partial_function (option) connect_loop :: "'s peer_world \<Rightarrow> request \<Rightarrow> 's pre_auth_peer \<Rightarrow>
    (unit result \<times> 's pre_auth_peer) option" where
  "connect_loop W out p =
     (if \<not> has_protocol p \<and> so_connected W (pb_socket p) then
        (case pa_poll_requests W out p of
           (Inl e, p) \<Rightarrow> Some (Inl e, p)
         | (Inr _, p) \<Rightarrow> connect_loop W out p)
      else Some (Inr (), p))"

text \<open>The peer that is made is trusted without a look at the known peers.\<close>

definition connect :: "'s server_world \<Rightarrow> request \<Rightarrow> 's \<Rightarrow> file_mapping \<Rightarrow> path \<Rightarrow> ('s server, nat) run" where
  "connect V out socket file_mapping downloads_folder s =
     (let W = sw_peer_world V in
      case pre_auth_peer_new W socket CLIENT of
        Inl e \<Rightarrow> Some (Inl e, s)
      | Inr pre_auth \<Rightarrow>
          (case do_client_hello W pre_auth of
             (Inl e, _) \<Rightarrow> Some (Inl e, s)
           | (Inr _, pre_auth) \<Rightarrow>
               (case connect_loop W out pre_auth of
                  None \<Rightarrow> None
                | Some (Inl e, _) \<Rightarrow> Some (Inl e, s)
                | Some (Inr _, pre_auth) \<Rightarrow>
                    (case peer_new pre_auth file_mapping downloads_folder (sv_disk s) of
                       Inl e \<Rightarrow> Some (Inl e, s)
                     | Inr client \<Rightarrow>
                         let a = sv_next s; full = (length (sv_fds s) = sv_fds_capacity s);
                             s = s\<lparr>sv_peer_heap := (sv_peer_heap s)(a \<mapsto> client), sv_next := a + 1,
                                   sv_fds := sv_fds s @ [\<lparr>pf_fd = sw_get_fd V (pb_socket client), pf_revents = 0\<rparr>],
                                   sv_fds_capacity := (if full then sw_grow V (sv_fds_capacity s) else sv_fds_capacity s)\<rparr>
                         in run_action (insert_peer V a) (\<lambda>_. run_return a) s))))"

end
