(* ===== verification/Server_Setup.thy ===== *)
theory Server_Setup
  imports Configuration Server
begin

unbundle bit_operations_syntax

text \<open>
  The private key of a server and its listening socket: \<open>validate_config\<close>,
  \<open>initialize_private_key\<close>, \<open>restart\<close> and \<open>set_disabled\<close>. OpenSSL makes the key and the
  certificate and writes them; what it makes, and what of it reaches a file, is in \<open>key_world\<close>.
\<close>

definition SECURE_FILE_PERMS :: perms where
  "SECURE_FILE_PERMS = 0x180"

definition SECURE_FOLDER_PERMS :: perms where
  "SECURE_FOLDER_PERMS = 0x1C0"

record key_world = fs_world +
  kw_generate :: "server_config \<Rightarrow> (bytes \<times> bytes) result"
  kw_write_pem :: "bytes \<Rightarrow> bool \<times> bytes"

section \<open>The private key\<close>

definition validate_config :: "server_config \<Rightarrow> fs \<Rightarrow> unit result" where
  "validate_config c fs =
     (case fs (fs_key (sc_private_keys_dir c)) of
        None \<Rightarrow> Inr ()
      | Some d \<Rightarrow>
          try_then (throw_if (\<not> fn_directory d) (Runtime_error ''The private key/certificate path is not a directory'')) (\<lambda>_.
          throw_if (fn_perms d \<noteq> SECURE_FOLDER_PERMS)
            (Runtime_error ''The private key/certificate path has insecure permissions'')))"

definition key_path :: "server_config \<Rightarrow> path" where
  "key_path c = path_append (sc_private_keys_dir c) (sc_private_key_name c @ ''_key.pem'')"

definition cert_path :: "server_config \<Rightarrow> path" where
  "cert_path c = path_append (sc_private_keys_dir c) (sc_private_key_name c @ ''_cert.pem'')"

definition write_pem :: "'m key_world_scheme \<Rightarrow> path \<Rightarrow> bytes \<Rightarrow> (fs, bool) action" where
  "write_pem K p content =
     (case kw_write_pem K content of (ok, written) \<Rightarrow>
        act_then (write_content p written) (\<lambda>_. act_return ok))"

text \<open>
  The key and the certificate are removed, and an error reported; of two errors the first. What the
  system says about the error is left out of the messages.
\<close>

definition discard_keys :: "'m key_world_scheme \<Rightarrow> server_config \<Rightarrow> string \<Rightarrow> (fs, unit) action" where
  "discard_keys K c message =
     act_then (try_remove K (key_path c)) (\<lambda>removed.
     act_then (fs_remove K (cert_path c)) (\<lambda>_.
     act_lift (Inl (if removed then Runtime_error message else filesystem_error))))"

definition generate_keys :: "'m key_world_scheme \<Rightarrow> server_config \<Rightarrow> (fs, unit) action" where
  "generate_keys K c =
     act_then (act_lift (kw_generate K c)) (\<lambda>(pkey, cert).
     act_then (open_for_writing K (key_path c)) (\<lambda>pkey_file.
     act_then (open_for_writing K (cert_path c)) (\<lambda>cert_file.
     act_then (act_throw_if (\<not> pkey_file \<or> \<not> cert_file) (Runtime_error
       (''Failed to open '' @ (if pkey_file then cert_path c else key_path c) @ '' for writing''))) (\<lambda>_.
     act_then (write_pem K (key_path c) pkey) (\<lambda>ok.
     act_then (if ok then write_pem K (cert_path c) cert else act_return False) (\<lambda>ok.
     if \<not> ok then discard_keys K c ''Failed to write key/certificate to file''
     else
       act_then (try_set_permissions K (key_path c) SECURE_FILE_PERMS) (\<lambda>ok.
       if \<not> ok then discard_keys K c ''Failed to set secure permissions on the private key''
       else act_return ())))))))"

definition check_key_permissions :: "server_config \<Rightarrow> (fs, unit) action" where
  "check_key_permissions c =
     act_then (act_get (fs_perms (key_path c))) (\<lambda>perms.
     act_throw_if (perms \<noteq> Some SECURE_FILE_PERMS) (Runtime_error ''Insecure permissions for the private key !''))"

definition initialize_private_key :: "'m key_world_scheme \<Rightarrow> server_config \<Rightarrow> (fs, unit) action" where
  "initialize_private_key K c =
     act_then (act_get (validate_config c)) (\<lambda>r.
     act_then (act_lift r) (\<lambda>_.
     act_then (act_get (fs_exists (key_path c))) (\<lambda>key_exists.
     act_then (act_get (fs_exists (cert_path c))) (\<lambda>cert_exists.
     act_then (act_throw_if (key_exists \<noteq> cert_exists)
       (Runtime_error ''Found a private key or a certificate but not both'')) (\<lambda>_.
     act_then (create_directories K (sc_private_keys_dir c)) (\<lambda>_.
     act_then (set_permissions K (sc_private_keys_dir c) SECURE_FOLDER_PERMS) (\<lambda>_.
     if \<not> cert_exists then generate_keys K c else check_key_permissions c)))))))"

section \<open>The listening socket\<close>

record 's host =
  ho_config :: server_config
  ho_fs :: fs
  ho_server :: "'s server"

text \<open>
  Loading the two files into the TLS context, and making, binding and listening on a socket, whose
  object \<open>m_socket\<close> already is when a later step throws.
\<close>

record 's listen_world =
  lw_server_world :: "'s server_world"
  lw_key_world :: key_world
  lw_set_certificate :: "path \<Rightarrow> path \<Rightarrow> fs \<Rightarrow> unit result"
  lw_new_socket :: "'s result"
  lw_set_reuseaddr :: "'s \<Rightarrow> unit result \<times> 's"
  lw_bind :: "'s \<Rightarrow> unit result \<times> 's"
  lw_listen :: "'s \<Rightarrow> unit result \<times> 's"

definition on_fs :: "(fs, 'a) action \<Rightarrow> ('s host, 'a) action" where
  "on_fs m h = (case m (ho_fs h) of (r, fs) \<Rightarrow> (r, h\<lparr>ho_fs := fs\<rparr>))"

definition change_server :: "('s server \<Rightarrow> 's server) \<Rightarrow> ('s host, unit) action" where
  "change_server f = act_modify (\<lambda>h. h\<lparr>ho_server := f (ho_server h)\<rparr>)"

definition on_listener :: "('s \<Rightarrow> unit result \<times> 's) \<Rightarrow> ('s host, unit) action" where
  "on_listener f h =
     (case f (sv_socket (ho_server h)) of (r, socket) \<Rightarrow> (r, h\<lparr>ho_server := (ho_server h)\<lparr>sv_socket := socket\<rparr>\<rparr>))"

text \<open>The descriptor of the first slot; polling a negative one reports nothing.\<close>

definition set_first_fd :: "int \<Rightarrow> 's server \<Rightarrow> 's server" where
  "set_first_fd fd s = s\<lparr>sv_fds := (sv_fds s)[0 := (sv_fds s ! 0)\<lparr>pf_fd := fd\<rparr>]\<rparr>"

definition restart :: "'s listen_world \<Rightarrow> ('s host, unit) action" where
  "restart L =
     act_then (act_get ho_config) (\<lambda>c.
     act_then (on_fs (initialize_private_key (lw_key_world L) c)) (\<lambda>_.
     act_then (act_get (\<lambda>h. lw_set_certificate L (cert_path c) (key_path c) (ho_fs h))) (\<lambda>r.
     act_then (act_lift r) (\<lambda>_.
     act_then (change_server (\<lambda>s. if sv_fds s = []
       then s\<lparr>sv_fds := [\<lparr>pf_fd = -1, pf_revents = 0\<rparr>],
              sv_fds_capacity := (if sv_fds_capacity s = 0 then sw_grow (lw_server_world L) 0 else sv_fds_capacity s)\<rparr>
       else s)) (\<lambda>_.
     if \<not> sc_disable_server c then
       act_then (act_lift (lw_new_socket L)) (\<lambda>socket.
       act_then (change_server (\<lambda>s. s\<lparr>sv_socket := socket\<rparr>)) (\<lambda>_.
       act_then (on_listener (lw_set_reuseaddr L)) (\<lambda>_.
       act_then (on_listener (lw_bind L)) (\<lambda>_.
       act_then (on_listener (lw_listen L)) (\<lambda>_.
       change_server (\<lambda>s. set_first_fd (sw_get_fd (lw_server_world L) (sv_socket s)) s))))))
     else
       act_then (change_server (set_first_fd (-1))) (\<lambda>_.
       change_server (\<lambda>s. s\<lparr>sv_socket := so_close (sw_peer_world (lw_server_world L)) (sv_socket s)\<rparr>)))))))"

definition set_disabled :: "'s listen_world \<Rightarrow> bool \<Rightarrow> ('s host, unit) action" where
  "set_disabled L disabled =
     act_then (act_modify (\<lambda>h. h\<lparr>ho_config := (ho_config h)\<lparr>sc_disable_server := disabled\<rparr>\<rparr>)) (\<lambda>_. restart L)"

end
