(* ===== verification/Blocking_Invariants.thy ===== *)
theory Blocking_Invariants
  imports Peer_Blocking
begin

text \<open>
  The invariants of a peer are kept by its blocking functions too, whenever these return. The
  lemmas extend the locale of the invariants.
\<close>

definition run_keeps :: "('p \<Rightarrow> bool) \<Rightarrow> ('p, 'a) run \<Rightarrow> bool" where
  "run_keeps I m \<longleftrightarrow> (\<forall>p r q. I p \<longrightarrow> m p = Some (r, q) \<longrightarrow> I q)"

lemma run_keepsD: "run_keeps I m \<Longrightarrow> m p = Some (r, q) \<Longrightarrow> I p \<Longrightarrow> I q"
  by (simp add: run_keeps_def)

lemma run_keeps_basic: "run_keeps I (run_return a)" "run_keeps I (run_throw e)"
  by (simp_all add: run_keeps_def run_return_def run_throw_def)

lemma run_keeps_then:
  assumes "run_keeps I m" "\<And>a. run_keeps I (f a)"
  shows "run_keeps I (run_then m f)"
  unfolding run_keeps_def
proof (intro allI impI)
  fix p r q assume p: "I p" and e: "run_then m f p = Some (r, q)"
  obtain x t where t: "m p = Some (x, t)" using e by (cases "m p") (auto simp: run_then_def)
  have "I t" using run_keepsD [OF assms(1) t p] .
  then show "I q" using e t run_keepsD [OF assms(2)] by (auto simp: run_then_def split: sum.splits)
qed

lemma run_keeps_action:
  assumes "act_keeps I m" "\<And>a. run_keeps I (f a)"
  shows "run_keeps I (run_action m f)"
  unfolding run_keeps_def
proof (intro allI impI)
  fix p r q assume p: "I p" and e: "run_action m f p = Some (r, q)"
  obtain x t where t: "m p = (x, t)" by fastforce
  have "I t" using act_keepsD [OF assms(1) t p] .
  then show "I q" using e t run_keepsD [OF assms(2)] by (auto simp: run_action_def split: sum.splits)
qed

text \<open>A turn of a loop that runs an action and goes on with what it leaves.\<close>

lemma loop_keeps:
  assumes "(case m p of (Inl e, q) \<Rightarrow> Some (Inl e, q) | (Inr a, q) \<Rightarrow> g q) = Some (r, t)" "act_keeps I m" "I p"
    and "\<And>q. I q \<Longrightarrow> g q = Some (r, t) \<Longrightarrow> I t"
  shows "I t"
proof -
  obtain x u where u: "m p = (x, u)" by fastforce
  have "I u" using act_keepsD [OF assms(2) u assms(3)] .
  then show ?thesis using assms(1,4) u by (cases x) auto
qed

lemmas run_keeps_intros = run_keeps_basic run_keeps_then run_keeps_action act_keeps_basic act_keeps_modify

context peer_invariant
begin

lemma keeps_wait: "run_keeps I (wait_for_status W out k)"
proof -
  let ?P = "\<lambda>p (r :: status_code result \<times> 'a peer). I p \<longrightarrow> I (snd r)"
  have "?P p r" if "wait_for_status W out k p = Some r" for p r
  proof (rule wait_for_status.raw_induct [where P = "\<lambda>(W :: 'a peer_world) out k p r. ?P p r", OF _ that])
    fix f W out k p r
    assume IH: "\<And>W out k p r. f W out k p = Some r \<Longrightarrow> ?P p r"
      and e: "(case mq_outgoing (pr_queue p) k of
        None \<Rightarrow> Some (Inl Out_of_range, p)
      | Some m \<Rightarrow>
          if final_status (msg_status m) then Some (Inr (the (msg_status m)), p)
          else if w_poll W (pb_socket p) < 0 then Some (Inl (Runtime_error ''Failed to poll for status''), p)
          else
            (case pr_poll_requests W out p of
               (Inl e, p) \<Rightarrow> Some (Inl e, p)
             | (Inr _, p) \<Rightarrow>
                 if \<not> so_connected W (pb_socket p)
                 then Some (Inl (Runtime_error ''connection lost while waiting for status''), p)
                 else f W out k p)) = Some r"
    show "?P p r"
      using e IH [of W out k]
      by (cases r) (auto elim!: loop_keeps [OF _ keeps_poll] split: option.splits if_splits)
  qed
  then show ?thesis by (fastforce simp: run_keeps_def)
qed

lemma keeps_send_file_loop: "run_keeps I (send_file_loop W out k)"
proof -
  let ?P = "\<lambda>p (r :: unit result \<times> 'a peer). I p \<longrightarrow> I (snd r)"
  have "?P p r" if "send_file_loop W out k p = Some r" for p r
  proof (rule send_file_loop.raw_induct [where P = "\<lambda>(W :: 'a peer_world) out k p r. ?P p r", OF _ that])
    fix f and W :: "'a peer_world" and out k and p :: "'a peer" and r
    assume IH: "\<And>W out k p r. f W out k p = Some r \<Longrightarrow> ?P p r"
      and e: "(case pr_uploads p k of
        None \<Rightarrow> Some (Inl Undefined_behaviour, p)
      | Some u \<Rightarrow>
          if up_finished u then Some (Inr (), p)
          else (case (if available_send_slots p > 0
                   then act_then (upload_next k) (\<lambda>packet.
                     act_then (pr_send_request W DATA_PACKET (map_option DataPacketData packet)) (\<lambda>_. act_return ()))
                   else pr_poll_requests W out) p of
               (Inl e, p) \<Rightarrow> Some (Inl e, p) | (Inr _, p) \<Rightarrow> f W out k p)) = Some r"
    have m: "act_keeps I (act_then (upload_next k) (\<lambda>packet.
        act_then (pr_send_request W DATA_PACKET (map_option DataPacketData packet)) (\<lambda>_. act_return ())))"
      by (auto intro!: act_keeps_intros keeps_parts)
    show "?P p r"
      using e IH [of W out k]
      by (cases r) (auto elim!: loop_keeps [OF _ m] loop_keeps [OF _ keeps_poll] split: option.splits if_splits)
  qed
  then show ?thesis by (fastforce simp: run_keeps_def)
qed

lemma keeps_receive_file_loop: "run_keeps I (receive_file_loop W out k)"
proof -
  let ?P = "\<lambda>p (r :: unit result \<times> 'a peer). I p \<longrightarrow> I (snd r)"
  have "?P p r" if "receive_file_loop W out k p = Some r" for p r
  proof (rule receive_file_loop.raw_induct [where P = "\<lambda>(W :: 'a peer_world) out k p r. ?P p r", OF _ that])
    fix f W out k p r
    assume IH: "\<And>W out k p r. f W out k p = Some r \<Longrightarrow> ?P p r"
      and e: "(case pr_downloads p k of
        None \<Rightarrow> Some (Inl Undefined_behaviour, p)
      | Some d \<Rightarrow>
          if dl_finished d then Some (Inr (), p\<lparr>pr_downloads := (pr_downloads p)(k := None)\<rparr>)
          else (case pr_poll_requests W out p of (Inl e, p) \<Rightarrow> Some (Inl e, p) | (Inr _, p) \<Rightarrow> f W out k p)) = Some r"
    have "I p \<Longrightarrow> I (p\<lparr>pr_downloads := (pr_downloads p)(k := None)\<rparr>)"
      using downloads [where p = p and k = "pr_disk p"] by simp
    then show "?P p r"
      using e IH [of W out k] by (cases r) (auto elim!: loop_keeps [OF _ keeps_poll] split: option.splits if_splits)
  qed
  then show ?thesis by (fastforce simp: run_keeps_def)
qed

lemma keeps_list_files_loop: "run_keeps I (list_files_loop W out k)"
proof -
  let ?P = "\<lambda>p (r :: file_info list result \<times> 'a peer). I p \<longrightarrow> I (snd r)"
  have "?P p r" if "list_files_loop W out k p = Some r" for p r
  proof (rule list_files_loop.raw_induct [where P = "\<lambda>(W :: 'a peer_world) out k p r. ?P p r", OF _ that])
    fix f W out k p r
    assume IH: "\<And>W out k p r. f W out k p = Some r \<Longrightarrow> ?P p r"
      and e: "(case pr_file_lists p k of
        None \<Rightarrow> Some (Inl Undefined_behaviour, p)
      | Some t \<Rightarrow>
          if ft_finished t
          then Some (Inr (ft_file_list t), p\<lparr>pr_file_lists := (pr_file_lists p)(k := None)\<rparr>)
          else (case pr_poll_requests W out p of (Inl e, p) \<Rightarrow> Some (Inl e, p) | (Inr _, p) \<Rightarrow> f W out k p)) = Some r"
    then show "?P p r"
      using IH [of W out k] by (cases r) (auto intro: lists elim!: loop_keeps [OF _ keeps_poll] split: option.splits if_splits)
  qed
  then show ?thesis by (fastforce simp: run_keeps_def)
qed

lemma keeps_erase_upload:
  "act_keeps I (\<lambda>p. if pr_uploads p k = None then (Inl Undefined_behaviour, p)
     else (Inr (), p\<lparr>pr_uploads := (pr_uploads p)(k := None)\<rparr>))"
  by (simp add: act_keeps_def uploads(2))

lemma keeps_note_download: "I p \<Longrightarrow> I (p\<lparr>pr_downloads := (pr_downloads p)(k \<mapsto> d)\<rparr>)"
  using downloads [where p = p and k = "pr_disk p"] by simp

lemmas keeps_loops = keeps_wait keeps_send_file_loop keeps_receive_file_loop keeps_list_files_loop

lemma keeps_send_file: "run_keeps I (send_file W out filepath)"
  unfolding send_file_def
  by (auto intro!: run_keeps_intros keeps_loops keeps_create_host_upload keeps_erase_upload)

lemma keeps_receive_file: "run_keeps I (receive_file W out filepath)"
  unfolding receive_file_def
  by (auto intro!: run_keeps_intros keeps_loops keeps_send_request keeps_note_download split: option.split prod.split)

lemma keeps_list_files: "run_keeps I (list_files W out folderpath)"
  unfolding list_files_def by (auto intro!: run_keeps_intros keeps_loops keeps_send_request)

end

end
