(* ===== verification/Server_Invariants.thy ===== *)
theory Server_Invariants
  imports Server Blocking_Invariants
begin

text \<open>
  What has to be shown of a predicate on servers for every operation of a server to keep it: that it
  is stable under the elementary changes of the state. A peer that is made must be \<open>vouched\<close> for by
  the user or have the known key.
\<close>

definition harmless :: "('s peer, 'a) action \<Rightarrow> bool" where
  "harmless m \<longleftrightarrow> (\<forall>p. same_peer p (snd (m p)) \<and> (typed_peer p \<longrightarrow> typed_peer (snd (m p))))"

lemma harmless_get: "harmless (act_get f)"
  by (simp add: harmless_def act_simps same_peer_def)

lemma harmlessI:
  assumes "\<And>p. act_keeps (same_peer p) m" "act_keeps typed_peer m"
  shows "harmless m"
  using act_keeps_apply [OF assms(1)] act_keeps_apply [OF assms(2)] by (simp add: harmless_def same_peer_def)

lemma harmless_pull: "harmless (pull_requests W out)"
  by (rule harmlessI) (rule config.keeps_pull types.keeps_pull)+

lemma harmless_respond: "well_typed r \<Longrightarrow> harmless (respond_to_request W r st)"
  by (rule harmlessI) (auto intro: config.keeps_respond types.keeps_respond)

definition on_peer_run :: "nat \<Rightarrow> ('s peer, 'a) run \<Rightarrow> ('s server, 'a) run" where
  "on_peer_run a m s =
     (case sv_peer_heap s a of
        None \<Rightarrow> Some (Inl Undefined_behaviour, s)
      | Some p \<Rightarrow>
          (case m (p\<lparr>pr_disk := sv_disk s\<rparr>) of
             None \<Rightarrow> None
           | Some (r, p) \<Rightarrow> Some (r, s\<lparr>sv_peer_heap := (sv_peer_heap s)(a \<mapsto> p), sv_disk := pr_disk p\<rparr>)))"

locale server_invariant =
  fixes I :: "'s server \<Rightarrow> bool" and vouched :: "nat \<Rightarrow> bool"
  assumes io: "I s \<Longrightarrow> I (s\<lparr>sv_socket := x\<rparr>)" "I s \<Longrightarrow> I (s\<lparr>sv_fds := f\<rparr>)" "I s \<Longrightarrow> I (s\<lparr>sv_fds_capacity := n\<rparr>)"
    and waiting: "I s \<Longrightarrow> I (s\<lparr>sv_handshake_peers := m\<rparr>)" "I s \<Longrightarrow> I (s\<lparr>sv_pending_peers := m\<rparr>)"
      "I s \<Longrightarrow> I (s\<lparr>sv_pre_heap := h\<rparr>)" "I s \<Longrightarrow> I (s\<lparr>sv_next := sv_next s + 1\<rparr>)"
    and events: "I s \<Longrightarrow> set es \<subseteq> set (sv_events s) \<union> range CONNECT \<Longrightarrow> I (s\<lparr>sv_events := es\<rparr>)"
    and known: "I s \<Longrightarrow> known_insert u k (sv_known_peers s) = Inr store \<Longrightarrow> I (s\<lparr>sv_known_peers := store\<rparr>)"
    and pulled: "I s \<Longrightarrow> sv_peer_heap s a = Some p \<Longrightarrow> same_peer p q \<Longrightarrow>
      (typed_peer p \<Longrightarrow> typed_peer q \<and> list_all well_typed rs) \<Longrightarrow>
      I (s\<lparr>sv_peer_heap := (sv_peer_heap s)(a \<mapsto> q), sv_disk := d, sv_events := sv_events s @ map (REQUEST a) rs\<rparr>)"
    and leaves: "I s \<Longrightarrow> I (s\<lparr>sv_peers := (sv_peers s)(fd := None)\<rparr>)"
    and made: "I s \<Longrightarrow> typed_peer q \<Longrightarrow> vouched (sv_next s) \<or> sv_known_peers s (pb_device_uuid q) = Some (pb_public_key q) \<Longrightarrow>
      I (s\<lparr>sv_peer_heap := (sv_peer_heap s)(sv_next s \<mapsto> q), sv_next := sv_next s + 1\<rparr>)"
    and joins: "I s \<Longrightarrow> a < sv_next s \<Longrightarrow> sv_peer_heap s a = Some q \<Longrightarrow>
      vouched a \<or> sv_known_peers s (pb_device_uuid q) = Some (pb_public_key q) \<Longrightarrow> I (s\<lparr>sv_peers := (sv_peers s)(fd \<mapsto> a)\<rparr>)"
begin

section \<open>Peers\<close>

lemma changed:
  assumes "I s" "sv_peer_heap s a = Some p" "same_peer p q" "typed_peer p \<Longrightarrow> typed_peer q"
  shows "I (s\<lparr>sv_peer_heap := (sv_peer_heap s)(a \<mapsto> q), sv_disk := d\<rparr>)"
  using pulled [OF assms(1-3), of "[]" d] assms(4) by simp

lemma keeps_on_pre: "act_keeps I (on_pre a m)"
  by (auto simp: act_keeps_def on_pre_def intro: waiting split: option.split prod.split)

lemma keeps_on_peer:
  assumes "harmless m"
  shows "act_keeps I (on_peer a m)"
  unfolding act_keeps_def
proof (intro allI impI)
  fix s assume s: "I s"
  show "I (snd (on_peer a m s))"
  proof (cases "sv_peer_heap s a")
    case (Some p)
    let ?p = "p\<lparr>pr_disk := sv_disk s\<rparr>"
    obtain r q where q: "m ?p = (r, q)" by fastforce
    have "same_peer ?p q" "typed_peer ?p \<Longrightarrow> typed_peer q" using assms q by (metis harmless_def snd_conv)+
    then have "same_peer p q" "typed_peer p \<Longrightarrow> typed_peer q" by (simp_all add: same_peer_def typed_peer_def)
    with s Some q show ?thesis by (simp add: on_peer_def changed)
  qed (use s in \<open>simp add: on_peer_def\<close>)
qed

lemma keeps_on_peer_run:
  assumes "on_peer_run a m s = Some (r, t)" "\<And>p. run_keeps (same_peer p) m" "run_keeps typed_peer m" "I s"
  shows "I t"
proof (cases "sv_peer_heap s a")
  case (Some p)
  let ?p = "p\<lparr>pr_disk := sv_disk s\<rparr>"
  obtain x q where q: "m ?p = Some (x, q)" "t = s\<lparr>sv_peer_heap := (sv_peer_heap s)(a \<mapsto> q), sv_disk := pr_disk q\<rparr>"
    using assms(1) Some by (auto simp: on_peer_run_def split: option.splits)
  have "same_peer p ?p" "typed_peer ?p = typed_peer p" by (simp_all add: same_peer_def typed_peer_def)
  then have "same_peer p q" "typed_peer p \<Longrightarrow> typed_peer q"
    using run_keepsD [OF assms(2) q(1)] run_keepsD [OF assms(3) q(1)] by simp_all
  then show ?thesis unfolding q(2) by (rule changed [OF assms(4) Some])
qed (use assms in \<open>simp add: on_peer_run_def\<close>)

lemma keeps_delete_fd: "act_keeps I (delete_fd iter)"
  by (simp add: act_keeps_def delete_fd_def io split: prod.split)

lemma keeps_insert_peer:
  assumes "I s" "a < sv_next s" "sv_peer_heap s a = Some q"
    "vouched a \<or> sv_known_peers s (pb_device_uuid q) = Some (pb_public_key q)"
  shows "I (snd (insert_peer V a s))"
proof -
  let ?get = "act_get (\<lambda>p. sw_get_fd V (pb_socket p))"
  let ?t = "s\<lparr>sv_peer_heap := (sv_peer_heap s)(a \<mapsto> q\<lparr>pr_disk := sv_disk s\<rparr>), sv_disk := sv_disk s\<rparr>"
  have t: "on_peer a ?get s = (Inr (sw_get_fd V (pb_socket q)), ?t)"
    using assms(3) by (simp add: on_peer_def act_simps)
  have "I ?t" using act_keepsD [OF keeps_on_peer [OF harmless_get] t assms(1)] .
  moreover have "I (?t\<lparr>sv_peers := (sv_peers ?t)(fd \<mapsto> a)\<rparr>)" for fd
    by (rule joins [OF \<open>I ?t\<close>, where q = "q\<lparr>pr_disk := sv_disk s\<rparr>"]) (use assms in simp_all)
  ultimately show ?thesis
    by (simp add: insert_peer_def act_then_def act_simps t)
qed

lemma keeps_promote:
  assumes "I s" "\<And>p. sv_pre_heap s a = Some p \<Longrightarrow>
    vouched (sv_next s) \<or> sv_known_peers s (pb_device_uuid p) = Some (pb_public_key p)"
  shows "I (snd (promote V a s))"
proof (cases "sv_pre_heap s a")
  case None
  then show ?thesis using assms by (simp add: promote_def act_then_def)
next
  case (Some p)
  let ?s = "s\<lparr>sv_pre_heap := (sv_pre_heap s)(a := None)\<rparr>"
  have s: "I ?s" using assms(1) by (rule waiting)
  show ?thesis
  proof (cases "peer_new p (sv_peer_mapping s) (sv_peer_downloads s) (sv_disk s)")
    case (Inl e)
    then show ?thesis using s Some by (simp add: promote_def act_then_def Let_def)
  next
    case (Inr q)
    then have q: "pb_device_uuid q = pb_device_uuid p" "pb_public_key q = pb_public_key p" "typed_peer q"
      using typed_peer_new [OF Inr] by (auto simp: peer_new_def try_then_eq_Inr)
    have v: "vouched (sv_next ?s) \<or> sv_known_peers ?s (pb_device_uuid q) = Some (pb_public_key q)"
      using assms(2) [OF Some] q by simp
    let ?t = "?s\<lparr>sv_peer_heap := (sv_peer_heap s)(sv_next s \<mapsto> q), sv_next := sv_next s + 1\<rparr>"
    have "I ?t" using made [OF s q(3) v] by simp
    from keeps_insert_peer [OF this, of "sv_next s" q V] v have "I (snd (insert_peer V (sv_next s) ?t))" by simp
    then show ?thesis using Some Inr by (simp add: promote_def act_then_def Let_def)
  qed
qed

section \<open>Events\<close>

lemma keeps_events_of_peer: "act_keeps I (events_of_peer V out iter fd a)"
proof -
  let ?pull = "act_then (on_peer a (pull_requests (sw_peer_world V) out))
    (\<lambda>rs. act_modify (\<lambda>s. s\<lparr>sv_events := sv_events s @ map (REQUEST a) rs\<rparr>))"
  have "act_keeps I ?pull"
    unfolding act_keeps_def
  proof (intro allI impI)
    fix s assume s: "I s"
    show "I (snd (?pull s))"
    proof (cases "sv_peer_heap s a")
      case (Some p)
      let ?p = "p\<lparr>pr_disk := sv_disk s\<rparr>"
      obtain r q where q: "pull_requests (sw_peer_world V) out ?p = (r, q)" by fastforce
      have same: "same_peer p q"
        using act_keepsD [OF config.keeps_pull q, of p] by (simp add: same_peer_def)
      have p: "typed_peer ?p" if "typed_peer p" using that by (simp add: typed_peer_def)
      note t = pull_typed [OF p q]
      show ?thesis
      proof (cases r)
        case (Inl e)
        then show ?thesis using q Some changed [OF s Some same t(1)] by (simp add: on_peer_def act_then_def)
      next
        case (Inr rs)
        then show ?thesis using q Some pulled [OF s Some same, of rs] t by (simp add: on_peer_def act_then_def act_simps)
      qed
    qed (use s in \<open>simp add: on_peer_def act_then_def\<close>)
  qed
  moreover have "events_of_peer V out iter fd a = act_then ?pull (\<lambda>_.
      act_then (on_peer a (act_get (\<lambda>p. so_connected (sw_peer_world V) (pb_socket p)))) (\<lambda>connected.
      if \<not> connected
      then act_then (act_modify (\<lambda>s. s\<lparr>sv_peers := (sv_peers s)(fd := None)\<rparr>)) (\<lambda>_. delete_fd iter)
      else act_return (iter + 1)))"
    by (simp only: events_of_peer_def act_then_assoc)
  ultimately show ?thesis
    by (auto intro!: act_keeps_intros keeps_on_peer harmless_get keeps_delete_fd leaves)
qed

lemma keeps_events_of_pending: "act_keeps I (events_of_pending V out iter fd a)"
  unfolding events_of_pending_def by (auto intro!: act_keeps_intros keeps_on_pre keeps_delete_fd waiting)

lemma keeps_events_of_handshake: "act_keeps I (events_of_handshake V out iter fd a)"
  unfolding act_keeps_def
proof (intro allI impI)
  fix s assume s: "I s"
  obtain r s1 where p1: "on_pre a (pa_poll_requests (sw_peer_world V) out) s = (r, s1)" by fastforce
  have s1: "I s1" using act_keepsD [OF keeps_on_pre p1 s] .
  show "I (snd (events_of_handshake V out iter fd a s))"
  proof (cases "\<exists>peer. r = Inr () \<and> sv_pre_heap s1 a = Some peer")
    case False
    then show ?thesis using s1 p1 by (cases r) (auto simp: events_of_handshake_def act_then_def on_pre_def [of _ "act_get id"])
  next
    case True
    then obtain peer where r: "r = Inr ()" and peer: "sv_pre_heap s1 a = Some peer" by blast
    then have g: "on_pre a (act_get id) s1 = (Inr peer, s1)" by (simp add: on_pre_def act_simps fun_upd_idem)
    have pro: "I (snd (promote V a s1))"
      if "known_contains (pb_device_uuid peer) (pb_public_key peer) (sv_known_peers s1) = Inr True"
      using that peer by (intro keeps_promote s1) (auto simp: known_contains_def try_then_eq_Inr split: option.splits)
    have ask: "I (t\<lparr>sv_pending_peers := m, sv_events := sv_events t @ [CONNECT c]\<rparr>)" if "I t" for t m c
      using events [of "t\<lparr>sv_pending_peers := m\<rparr>" "sv_events t @ [CONNECT c]"] waiting(2) [OF that] by simp
    show ?thesis
      using p1 r g s1 pro act_keepsD [OF keeps_delete_fd]
      by (auto simp: events_of_handshake_def act_then_def act_simps Let_def delete_fd_def
          intro: waiting ask io split: sum.split prod.split if_split)
  qed
qed

lemma keeps_accept_connection: "act_keeps I (accept_connection V iter)"
  unfolding act_keeps_def
proof (intro allI impI)
  fix s assume "I s"
  then have "I (s\<lparr>sv_socket := x\<rparr>)"
    "I (s\<lparr>sv_socket := x, sv_fds := f, sv_pre_heap := h, sv_handshake_peers := m, sv_next := sv_next s + 1\<rparr>)"
    "I (s\<lparr>sv_socket := x, sv_fds := f, sv_fds_capacity := n, sv_pre_heap := h, sv_handshake_peers := m, sv_next := sv_next s + 1\<rparr>)" for x f n h m
    using waiting(4) [of "s\<lparr>sv_socket := x, sv_fds := f, sv_pre_heap := h, sv_handshake_peers := m\<rparr>"]
      waiting(4) [of "s\<lparr>sv_socket := x, sv_fds := f, sv_fds_capacity := n, sv_pre_heap := h, sv_handshake_peers := m\<rparr>"]
    by (simp_all add: io waiting)
  then show "I (snd (accept_connection V iter s))"
    by (simp add: accept_connection_def Let_def split: prod.split sum.split)
qed

lemma keeps_serve: "act_keeps I (serve_fd V out iter)"
  unfolding act_keeps_def serve_fd_def handle_peer_events_def Let_def
  by (auto intro: act_keeps_apply [OF keeps_accept_connection] act_keeps_apply [OF keeps_events_of_peer]
      act_keeps_apply [OF keeps_events_of_pending] act_keeps_apply [OF keeps_events_of_handshake]
      act_keeps_apply [OF keeps_delete_fd] split: option.split)

lemma keeps_poll_fds: "I s \<Longrightarrow> I (snd (poll_fds V out nb_ready iter s))"
proof (induction V out nb_ready iter s rule: poll_fds.induct)
  case (1 V out nb_ready iter s)
  have serve: "I t" if "serve_fd V out iter s = (r, t)" for r t
    using act_keepsD [OF keeps_serve that 1(3)] .
  show ?case
    using 1(1) [OF _ _ sym] 1(2,3) serve
    by (subst poll_fds.simps) (auto split: prod.split sum.split)
qed

lemma keeps_poll_events: "act_keeps I (poll_events V out)"
  by (auto simp: act_keeps_def poll_events_def intro: keeps_poll_fds io split: prod.split)

section \<open>What the user calls\<close>

lemma keeps_accept_peer:
  assumes "I s" "temporary_trust \<Longrightarrow> vouched (sv_next s)"
  shows "I (snd (accept_peer V a temporary_trust s))"
proof (cases "sv_pre_heap s a")
  case None
  then show ?thesis using assms by (simp add: accept_peer_def act_then_def on_pre_def)
next
  case (Some p)
  let ?known = "if temporary_trust then Inr (sv_known_peers s)
    else known_insert (pb_device_uuid p) (pb_public_key p) (sv_known_peers s)"
  show ?thesis
  proof (cases ?known)
    case (Inl e)
    then show ?thesis using assms(1) Some
      by (simp add: accept_peer_def act_then_def on_pre_def act_simps fun_upd_idem)
  next
    case (Inr store)
    let ?s = "s\<lparr>sv_known_peers := store, sv_pending_peers := (sv_pending_peers s)(sw_get_fd V (pb_socket p) := None)\<rparr>"
    have "I (s\<lparr>sv_known_peers := store\<rparr>)"
      using Inr assms(1) known by (cases temporary_trust) auto
    then have "I ?s" by (rule waiting)
    moreover have "vouched (sv_next ?s) \<or> store (pb_device_uuid p) = Some (pb_public_key p)"
      using Inr assms(2) by (cases temporary_trust) (auto simp: known_insert_def try_then_eq_Inr split: option.splits if_splits)
    ultimately have "I (snd (promote V a ?s))" using Some by (intro keeps_promote) simp_all
    then show ?thesis using Some Inr by (simp add: accept_peer_def act_then_def on_pre_def act_simps fun_upd_idem)
  qed
qed

lemma keeps_accept_known: "act_keeps I (accept_peer V a False)"
  by (simp add: act_keeps_def keeps_accept_peer)

lemma keeps_pull_event: "act_keeps I (pull_event V out)"
  unfolding pull_event_def
  by (auto intro!: act_keeps_intros keeps_poll_events events split: if_split dest: in_set_butlastD)

lemma keeps_process_loop:
  assumes "\<And>c. act_keeps I (accept_cb c)" "\<And>a r. act_keeps I (request_cb a r)"
  shows "act_keeps I (process_loop V accept_cb request_cb k es)"
proof (induction es arbitrary: k)
  case (Cons e es)
  have moved: "I s \<Longrightarrow> I (s\<lparr>sv_events := (sv_events s)[k := CONNECT None]\<rparr>)" for s k
    by (rule events) (auto dest: set_update_subset_insert [THEN subsetD])
  show ?case
    by (auto intro!: act_keeps_intros assms Cons.IH moved keeps_accept_known split: event.split)
qed (simp add: act_keeps_basic)

lemma keeps_process_events:
  assumes "\<And>c. act_keeps I (accept_cb c)" "\<And>a r. act_keeps I (request_cb a r)"
  shows "act_keeps I (process_events V out accept_cb request_cb)"
  unfolding process_events_def
  by (intro act_keeps_intros keeps_poll_events keeps_process_loop assms) (simp add: events)

lemma keeps_connect:
  assumes "connect V out socket file_mapping downloads_folder s = Some (r, t)" "I s" "vouched (sv_next s)"
  shows "I t"
proof (cases "t = s")
  case False
  then obtain pre client where c: "peer_new pre file_mapping downloads_folder (sv_disk s) = Inr client"
      "run_action (insert_peer V (sv_next s)) (\<lambda>_. run_return (sv_next s))
        (s\<lparr>sv_peer_heap := (sv_peer_heap s)(sv_next s \<mapsto> client), sv_next := sv_next s + 1,
          sv_fds := sv_fds s @ [\<lparr>pf_fd = sw_get_fd V (pb_socket client), pf_revents = 0\<rparr>],
          sv_fds_capacity := (if length (sv_fds s) = sv_fds_capacity s then sw_grow V (sv_fds_capacity s) else sv_fds_capacity s)\<rparr>) =
       Some (r, t)"
    using assms(1)
    by (auto simp: connect_def Let_def split: sum.splits prod.splits option.splits)
  let ?s = "s\<lparr>sv_peer_heap := (sv_peer_heap s)(sv_next s \<mapsto> client), sv_next := sv_next s + 1,
    sv_fds := sv_fds s @ [\<lparr>pf_fd = sw_get_fd V (pb_socket client), pf_revents = 0\<rparr>],
    sv_fds_capacity := (if length (sv_fds s) = sv_fds_capacity s then sw_grow V (sv_fds_capacity s) else sv_fds_capacity s)\<rparr>"
  have "I ?s" using io(3) [OF io(2) [OF made [OF assms(2) typed_peer_new [OF c(1)] disjI1 [OF assms(3)]]]] .
  then have "I (snd (insert_peer V (sv_next s) ?s))" using assms(3) by (intro keeps_insert_peer) simp_all
  then show ?thesis using c(2) by (auto simp: run_action_def run_return_def split: prod.splits sum.splits)
qed (use assms in simp)

end

end
