(* ===== verification/Server_Laws.thy ===== *)
theory Server_Laws
  imports Server_Invariants "HOL-Library.Multiset"
begin

unbundle bit_operations_syntax

text \<open>
  What the server guarantees of the peers it has promoted, and what its loop over the file
  descriptors does with a new connection and with a peer that throws.
\<close>

section \<open>Vectors\<close>

lemma delete_move_last: "iter = length v - 1 \<Longrightarrow> delete_move v iter = (butlast v, length v - 1)"
  by (simp add: delete_move_def)

text \<open>\<open>delete_move\<close> takes exactly the element at the iterator out of a vector, moves at most the last
  one, and returns an iterator to what comes next or the end.\<close>

theorem delete_move_removes:
  assumes "iter < length v" "delete_move v iter = (w, next)"
  shows "mset w = mset v - {#v ! iter#} \<and> next = iter \<and> next \<le> length w \<and>
    (\<forall>j < length w. j \<noteq> iter \<longrightarrow> w ! j = v ! j)"
proof -
  obtain v' x where v: "v = v' @ [x]" using assms(1) by (cases v rule: rev_cases) auto
  show ?thesis
  proof (cases "iter = length v'")
    case True
    then show ?thesis using assms(2) by (auto simp: delete_move_def v nth_append)
  next
    case False
    then have i: "iter < length v'" using assms(1) by (simp add: v)
    then have "w = v'[iter := x]" "next = iter"
      using assms(2) by (auto simp: delete_move_def v list_update_append butlast_append)
    moreover have "mset (v'[iter := x]) = mset v - {#v ! iter#}"
      using i by (simp add: v nth_append mset_update)
    ultimately show ?thesis using i by (auto simp: v nth_append)
  qed
qed

theorem delete_move_removes_witness:
  "mset (fst (delete_move [1, 2, 3 :: nat] 0)) = {#2, 3#}"
  using delete_move_removes [of 0 "[1, 2, 3 :: nat]" "[3, 2]" 0]
  by (simp add: delete_move_def)

section \<open>Trusted peers\<close>

definition trusted :: "'s server \<Rightarrow> bool" where
  "trusted s \<longleftrightarrow> (\<forall>fd a. sv_peers s fd = Some a \<longrightarrow> a < sv_next s \<and>
     (\<exists>q. sv_peer_heap s a = Some q \<and> sv_known_peers s (pb_device_uuid q) = Some (pb_public_key q)))"

interpretation trust: server_invariant trusted "\<lambda>_. False"
proof
  fix s :: "'s server" and u k store
  assume "trusted s" "known_insert u k (sv_known_peers s) = Inr store"
  then show "trusted (s\<lparr>sv_known_peers := store\<rparr>)"
    using known_insert_mono by (fastforce simp: trusted_def)
next
  fix s :: "'s server" and a p q d rs
  assume "trusted s" "sv_peer_heap s a = Some p" "same_peer p q"
  then show "trusted (s\<lparr>sv_peer_heap := (sv_peer_heap s)(a \<mapsto> q), sv_disk := d, sv_events := sv_events s @ map (REQUEST a) rs\<rparr>)"
    by (fastforce simp: trusted_def same_peer_def)
qed (auto simp: trusted_def less_Suc_eq)

text \<open>Every peer among the trusted ones has the key that the known peers hold for its id. Polling
  and accepting a peer for good keep this, however they end; nothing a peer sends can make it
  trusted under another key.\<close>

theorem trusted_peers_known:
  assumes "\<And>fd a. sv_peers s fd = Some a \<Longrightarrow> a < sv_next s \<and>
      (\<exists>q. sv_peer_heap s a = Some q \<and> sv_known_peers s (pb_device_uuid q) = Some (pb_public_key q))"
    and "poll_events V out s = (r, t) \<or> accept_peer V b False s = (r, t)"
    and "sv_peers t fd = Some a"
  shows "\<exists>q. sv_peer_heap t a = Some q \<and> sv_known_peers t (pb_device_uuid q) = Some (pb_public_key q)"
proof -
  have "trusted s" using assms(1) by (auto simp: trusted_def)
  then have "trusted (snd (poll_events V out s))" "trusted (snd (accept_peer V b False s))"
    by (auto intro: act_keeps_apply [OF trust.keeps_poll_events] act_keeps_apply [OF trust.keeps_accept_known])
  then have "trusted t" using assms(2) by auto
  with assms(3) show ?thesis by (auto simp: trusted_def)
qed

section \<open>The loop over the file descriptors\<close>

text \<open>When a connection arrives while the vector of file descriptors is full, accepting it moves the
  vector and the loop goes on with an iterator into freed memory.\<close>

theorem accept_when_full:
  assumes "sw_poll V (sv_fds s) = (nb_ready, f # fds)" "nb_ready > 0" "pf_revents f AND (POLLIN OR POLLHUP) \<noteq> 0"
    and "pf_fd f = sw_get_fd V (sv_socket s)" "length (f # fds) = sv_fds_capacity s"
    and "sw_accept V (sv_socket s) = (Inr tls_socket, socket)"
    and "pre_auth_peer_new (sw_peer_world V) tls_socket SERVER = Inr peer"
  shows "fst (poll_events V out s) = Inl Undefined_behaviour"
  using assms by (simp add: poll_events_def poll_fds.simps [of _ _ _ 0] serve_fd_def accept_connection_def Let_def)

text \<open>A trusted peer whose poll throws stops the whole server: nothing behind it in the list of
  descriptors is served, no connection is accepted, and the exception leaves \<open>process_events\<close> and
  \<open>pull_event\<close>, whatever the callbacks are.\<close>

theorem one_peer_blocks_server:
  assumes "sw_poll V (sv_fds s) = (nb_ready, f # fds)" "nb_ready > 0" "pf_revents f AND (POLLIN OR POLLHUP) \<noteq> 0"
    and "pf_fd f \<noteq> sw_get_fd V (sv_socket s)" "sv_peers s (pf_fd f) = Some a" "sv_peer_heap s a = Some p"
    and "pr_poll_requests (sw_peer_world V) out (p\<lparr>pr_disk := sv_disk s\<rparr>) = (Inl e, q)"
    and "t = s\<lparr>sv_fds := f # fds, sv_peer_heap := (sv_peer_heap s)(a \<mapsto> q), sv_disk := pr_disk q\<rparr>"
  shows "poll_events V out s = (Inl e, t) \<and> process_events V out accept_cb request_cb s = (Inl e, t) \<and>
    (sv_events s = [] \<longrightarrow> pull_event V out s = (Inl e, t))"
proof -
  have "poll_events V out s = (Inl e, t)"
    using assms
    by (simp add: poll_events_def poll_fds.simps [of _ _ _ 0] serve_fd_def handle_peer_events_def events_of_peer_def
        act_then_def on_peer_def pull_requests_def Let_def)
  then show ?thesis by (simp add: process_events_def pull_event_def act_then_def act_simps)
qed

section \<open>The order of events\<close>

primrec pull_events :: "nat \<Rightarrow> 's server_world \<Rightarrow> request \<Rightarrow> ('s server, event list) action" where
  "pull_events 0 V out = act_return []"
| "pull_events (Suc n) V out =
     act_then (pull_event V out) (\<lambda>(e, _).
     act_then (pull_events n V out) (\<lambda>es. act_return (e # es)))"

lemma pull_one:
  "sv_events s = es @ [e] \<Longrightarrow> pull_event V out s = (Inr (e, True), s\<lparr>sv_events := es\<rparr>)"
  by (simp add: pull_event_def act_then_def act_simps)

text \<open>The user pulls the events in the reverse of the order they came in, the requests of one peer
  included.\<close>

theorem events_come_out_reversed:
  "pull_events (length (sv_events s)) V out s = (Inr (rev (sv_events s)), s\<lparr>sv_events := []\<rparr>)"
proof (induction "sv_events s" arbitrary: s rule: rev_induct)
  case Nil
  then have "sv_events s = []" by simp
  then show ?case by (simp add: act_simps)
next
  case (snoc e es)
  then have e: "sv_events s = es @ [e]" by simp
  have "pull_events (length es) V out (s\<lparr>sv_events := es\<rparr>) = (Inr (rev es), s\<lparr>sv_events := []\<rparr>)"
    using snoc(1) [of "s\<lparr>sv_events := es\<rparr>"] by simp
  then show ?case by (simp add: e act_then_def act_simps pull_one)
qed

section \<open>Examples\<close>

definition tape_server_world :: "tape server_world" where
  "tape_server_world = \<lparr>sw_peer_world = tape_world, sw_get_fd = (\<lambda>t. if tp_in t = [[0]] then 3 else 4),
     sw_poll = (\<lambda>fds. (1, fds)), sw_accept = (\<lambda>t. (Inr \<lparr>tp_in = [], tp_out = [], tp_open = True\<rparr>, t)),
     sw_grow = (\<lambda>n. 2 * n + 1)\<rparr>"

definition tape_server :: "pollfd list \<Rightarrow> tape server" where
  "tape_server fds = \<lparr>sv_socket = \<lparr>tp_in = [[0]], tp_out = [], tp_open = True\<rparr>, sv_peer_mapping = tape_mapping,
     sv_peer_downloads = ''/dl'', sv_known_peers = [[1] \<mapsto> [2]], sv_handshake_peers = Map.empty,
     sv_pending_peers = Map.empty, sv_peers = [4 \<mapsto> 0], sv_fds = fds, sv_fds_capacity = 1, sv_events = [],
     sv_pre_heap = Map.empty, sv_peer_heap = [0 \<mapsto> finished_peer [format_response 0 STATUS_OK]], sv_next = 1,
     sv_disk = Map.empty\<rparr>"

theorem accept_when_full_witness:
  "fst (poll_events tape_server_world blank_request (tape_server [\<lparr>pf_fd = 3, pf_revents = 1\<rparr>])) = Inl Undefined_behaviour"
proof -
  let ?t = "\<lparr>tp_in = [], tp_out = [], tp_open = True\<rparr>"
  obtain peer where "pre_auth_peer_new tape_world ?t SERVER = Inr peer"
    by (simp add: tape_world_def tape_ops_def pre_auth_peer_new_def peer_base_new_def read_peer_certificate_def)
  then show ?thesis
    using accept_when_full [of tape_server_world "tape_server [\<lparr>pf_fd = 3, pf_revents = 1\<rparr>]" 1 "\<lparr>pf_fd = 3, pf_revents = 1\<rparr>"
      "[]" ?t "\<lparr>tp_in = [[0]], tp_out = [], tp_open = True\<rparr>" peer blank_request]
    by (simp add: tape_server_world_def tape_server_def POLLIN_def POLLHUP_def)
qed

theorem one_peer_blocks_server_witness:
  "fst (poll_events tape_server_world blank_request (tape_server [\<lparr>pf_fd = 4, pf_revents = 1\<rparr>, \<lparr>pf_fd = 3, pf_revents = 1\<rparr>])) =
     Inl Out_of_range"
proof -
  let ?s = "tape_server [\<lparr>pf_fd = 4, pf_revents = 1\<rparr>, \<lparr>pf_fd = 3, pf_revents = 1\<rparr>]"
  let ?p = "finished_peer [format_response 0 STATUS_OK]"
  let ?q = "(?p\<lparr>pr_disk := Map.empty\<rparr>)\<lparr>pb_socket := \<lparr>tp_in = [], tp_out = [], tp_open = True\<rparr>,
    pb_buffer := format_response 0 STATUS_OK\<rparr>"
  have "pr_poll_requests tape_world blank_request (?p\<lparr>pr_disk := Map.empty\<rparr>) = (Inl Out_of_range, ?q)"
    using duplicate_reply_poll [of "?p\<lparr>pr_disk := Map.empty\<rparr>" 0
      "\<lparr>msg_request = offer_request, msg_status = Some STATUS_OK\<rparr>" tape_world "format_response 0 STATUS_OK"
      "\<lparr>tp_in = [], tp_out = [], tp_open = True\<rparr>" blank_request 8]
    by (simp add: finished_peer_def tape_eval offer_request_def ok_response_parses)
      (simp add: ok_response_bytes addressable_def)
  then show ?thesis
    using one_peer_blocks_server [of tape_server_world ?s 1 "\<lparr>pf_fd = 4, pf_revents = 1\<rparr>" "[\<lparr>pf_fd = 3, pf_revents = 1\<rparr>]"
        0 ?p blank_request Out_of_range ?q, OF _ _ _ _ _ _ _ refl]
    by (simp add: tape_server_def tape_server_world_def POLLIN_def POLLHUP_def)
qed

theorem trusted_peers_known_witness:
  "\<exists>q. sv_peer_heap (snd (poll_events tape_server_world blank_request (tape_server [\<lparr>pf_fd = 4, pf_revents = 0\<rparr>]))) 0 = Some q \<and>
     sv_known_peers (snd (poll_events tape_server_world blank_request (tape_server [\<lparr>pf_fd = 4, pf_revents = 0\<rparr>])))
       (pb_device_uuid q) = Some (pb_public_key q)"
proof (rule trusted_peers_known [of "tape_server [\<lparr>pf_fd = 4, pf_revents = 0\<rparr>]"])
  show "sv_peers (snd (poll_events tape_server_world blank_request (tape_server [\<lparr>pf_fd = 4, pf_revents = 0\<rparr>]))) 4 = Some 0"
    by (simp add: poll_events_def poll_fds.simps tape_server_def tape_server_world_def)
  show "poll_events tape_server_world blank_request (tape_server [\<lparr>pf_fd = 4, pf_revents = 0\<rparr>]) =
      (fst (poll_events tape_server_world blank_request (tape_server [\<lparr>pf_fd = 4, pf_revents = 0\<rparr>])),
       snd (poll_events tape_server_world blank_request (tape_server [\<lparr>pf_fd = 4, pf_revents = 0\<rparr>]))) \<or>
      accept_peer tape_server_world 0 False (tape_server [\<lparr>pf_fd = 4, pf_revents = 0\<rparr>]) =
      (fst (poll_events tape_server_world blank_request (tape_server [\<lparr>pf_fd = 4, pf_revents = 0\<rparr>])),
       snd (poll_events tape_server_world blank_request (tape_server [\<lparr>pf_fd = 4, pf_revents = 0\<rparr>])))"
    by simp
qed (auto simp: tape_server_def finished_peer_def tape_trusted_def split: if_splits)

end
