(* ===== verification/Setup_Laws.thy ===== *)
theory Setup_Laws
  imports Server_Setup Server_Laws
begin

text \<open>
  What the start of a server guarantees of the files of its key, and what an error on the way
  leaves behind.
\<close>

section \<open>Where the files are\<close>

lemma name_not_absolute: "slash \<notin> set s \<Longrightarrow> \<not> absolute s"
  by (cases s) (auto simp: absolute_def)

lemma names_key_path:
  assumes "slash \<notin> set (sc_private_key_name c)"
  shows "names (key_path c) = names (sc_private_keys_dir c) @ [sc_private_key_name c @ ''_key.pem'']"
    "names (cert_path c) = names (sc_private_keys_dir c) @ [sc_private_key_name c @ ''_cert.pem'']"
proof -
  have n: "names (sc_private_key_name c @ s) = [sc_private_key_name c @ s]" "\<not> absolute (sc_private_key_name c @ s)"
    if "slash \<notin> set s" "s \<noteq> []" for s
    using assms that names_name name_not_absolute [of "sc_private_key_name c @ s"] by auto
  have "slash \<notin> set ''_key.pem''" "slash \<notin> set ''_cert.pem''" by (simp_all add: slash_def)
  then show "names (key_path c) = names (sc_private_keys_dir c) @ [sc_private_key_name c @ ''_key.pem'']"
    "names (cert_path c) = names (sc_private_keys_dir c) @ [sc_private_key_name c @ ''_cert.pem'']"
    using n [of "''_key.pem''"] n [of "''_cert.pem''"] by (simp_all add: key_path_def cert_path_def names_path_append)
qed

definition key_files :: "server_config \<Rightarrow> fs_key set" where
  "key_files c = {fs_key (key_path c), fs_key (cert_path c)}"

lemma key_files_apart:
  assumes "slash \<notin> set (sc_private_key_name c)"
  shows "fs_key (key_path c) \<noteq> fs_key (cert_path c)" "fs_key (sc_private_keys_dir c) \<notin> key_files c"
  using names_key_path [OF assms] by (auto simp: fs_key_def key_files_def)

section \<open>What the steps leave alone\<close>

lemma keeps_permissions: "fs_key p \<noteq> k \<Longrightarrow> act_keeps (\<lambda>fs. fs k = n) (set_permissions K p perms)"
  by (auto simp: act_keeps_def set_permissions_def act_then_def act_simps try_set_permissions_def split: option.splits)

lemma keeps_create_directories:
  assumes "slash \<notin> set (sc_private_key_name c)" "k \<in> key_files c"
  shows "act_keeps (\<lambda>fs. fs k = n) (create_directories K (sc_private_keys_dir c))"
proof -
  have "k \<noteq> (absolute (sc_private_keys_dir c), [] @ ns) \<or> length (names (sc_private_keys_dir c)) < length ns" for ns
    using assms(2) names_key_path [OF assms(1)] by (auto simp: key_files_def fs_key_def)
  then show ?thesis
    unfolding create_directories_def by (auto intro!: act_keeps_basic make_directories_keeps)
qed

lemma keeps_generate: "k \<notin> key_files c \<Longrightarrow> act_keeps (\<lambda>fs. fs k = n) (generate_keys K c)"
proof -
  assume k: "k \<notin> key_files c"
  have "act_keeps (\<lambda>fs. fs k = n) (open_for_writing K p)" "act_keeps (\<lambda>fs. fs k = n) (write_pem K p b)"
    "act_keeps (\<lambda>fs. fs k = n) (try_remove K p)" "act_keeps (\<lambda>fs. fs k = n) (try_set_permissions K p perms)"
    if "fs_key p \<in> key_files c" for p b perms
    using that k
    by (auto simp: act_keeps_def open_for_writing_def write_pem_def write_content_def act_then_def act_simps
        try_remove_def try_set_permissions_def split: prod.split option.split)
  then show ?thesis
    unfolding generate_keys_def discard_keys_def fs_remove_def
    by (auto intro!: act_keeps_intros simp: key_files_def split: prod.split)
qed

section \<open>The key is safe\<close>

lemma write_pem_exists: "act_keeps (fs_exists q) (write_pem K p b)"
  by (auto simp: act_keeps_def fs_exists_def write_pem_def write_content_def act_then_def act_simps split: prod.split)

lemma discard_throws: "discard_keys K c m fs \<noteq> (Inr (), fs')"
  by (simp add: discard_keys_def act_then_Inr act_simps)

lemma generate_done:
  assumes "generate_keys K c fs = (Inr (), fs')" "fs_key (key_path c) \<noteq> fs_key (cert_path c)"
  shows "fs_perms (key_path c) fs' = Some SECURE_FILE_PERMS \<and> fs_exists (cert_path c) fs'"
proof -
  from assms(1) obtain pkey cert fs1 fs2 fs3 fs4 where steps:
      "open_for_writing K (cert_path c) fs1 = (Inr True, fs2)" "write_pem K (key_path c) pkey fs2 = (Inr True, fs3)"
      "write_pem K (cert_path c) cert fs3 = (Inr True, fs4)"
      "try_set_permissions K (key_path c) SECURE_FILE_PERMS fs4 = (Inr True, fs')"
    by (auto simp: generate_keys_def act_then_Inr act_simps throw_if_def case_prod_unfold discard_throws split: if_splits)
  have "fs_exists (cert_path c) fs2"
    using steps(1) by (auto simp: open_for_writing_def fs_exists_def split: if_splits)
  then have "fs_exists (cert_path c) fs4"
    using act_keepsD [OF write_pem_exists steps(3)] act_keepsD [OF write_pem_exists steps(2)] by blast
  with steps(4) assms(2) show ?thesis
    by (auto simp: try_set_permissions_def fs_exists_def fs_perms_def split: option.splits if_splits)
qed

lemma initialize_done:
  assumes i: "initialize_private_key K c fs = (Inr (), fs')"
    and c: "slash \<notin> set (sc_private_key_name c)" "names (sc_private_keys_dir c) \<noteq> []"
  shows "(\<exists>d. fs' (fs_key (sc_private_keys_dir c)) = Some d \<and> fn_directory d \<and> fn_perms d = SECURE_FOLDER_PERMS) \<and>
    fs_perms (key_path c) fs' = Some SECURE_FILE_PERMS \<and> fs_exists (cert_path c) fs'"
proof -
  let ?dir = "sc_private_keys_dir c"
  have d: "?dir \<noteq> []" using c(2) by auto
  from i obtain fs1 fs2 where steps: "fs_exists (key_path c) fs = fs_exists (cert_path c) fs"
      "create_directories K ?dir fs = (Inr (), fs1)" "set_permissions K ?dir SECURE_FOLDER_PERMS fs1 = (Inr (), fs2)"
      "if \<not> fs_exists (cert_path c) fs then generate_keys K c fs2 = (Inr (), fs')
       else fs' = fs2 \<and> fs_perms (key_path c) fs2 = Some SECURE_FILE_PERMS"
    by (auto simp: initialize_private_key_def check_key_permissions_def act_then_Inr act_simps throw_if_def split: if_splits)
  obtain n where "fs1 (fs_key ?dir) = Some n" "fn_directory n"
    using make_directories_done [of K "absolute ?dir" "[]" "names ?dir"] steps(2) c(2) d
    by (auto simp: create_directories_def fs_key_def)
  with steps(3) have n: "fs2 (fs_key ?dir) = Some (n\<lparr>fn_perms := SECURE_FOLDER_PERMS\<rparr>)" "fn_directory n"
    by (auto simp: set_permissions_def act_then_Inr act_simps try_set_permissions_def throw_if_def split: if_splits)
  show ?thesis
  proof (cases "fs_exists (cert_path c) fs")
    case True
    have "fs2 (fs_key (cert_path c)) = fs (fs_key (cert_path c))"
      using act_keepsD [OF keeps_create_directories [OF c(1)] steps(2) refl, of "fs_key (cert_path c)"]
        act_keepsD [OF keeps_permissions steps(3) refl, of "fs_key (cert_path c)"] key_files_apart(2) [OF c(1)]
      by (simp add: key_files_def)
    with True steps(4) n show ?thesis by (simp add: fs_exists_def)
  next
    case False
    then have g: "generate_keys K c fs2 = (Inr (), fs')" using steps(4) by simp
    have "fs' (fs_key ?dir) = fs2 (fs_key ?dir)"
      using act_keepsD [OF keeps_generate [OF key_files_apart(2) [OF c(1)]] g refl] .
    with n generate_done [OF g key_files_apart(1) [OF c(1)]] show ?thesis by simp
  qed
qed

text \<open>C28: When the server has been started, or restarted, without an exception, the directory of the
  private key is accessible by its owner only, the key can be read and written by its owner only, and
  its certificate is there, whether they were found or made.\<close>

theorem restart_secures_key:
  assumes "restart L h = (Inr (), h')" "c = ho_config h"
    and "slash \<notin> set (sc_private_key_name c)" "names (sc_private_keys_dir c) \<noteq> []"
  shows "(\<exists>d. ho_fs h' (fs_key (sc_private_keys_dir c)) = Some d \<and> fn_directory d \<and> fn_perms d = SECURE_FOLDER_PERMS) \<and>
    fs_perms (key_path c) (ho_fs h') = Some SECURE_FILE_PERMS \<and> fs_exists (cert_path c) (ho_fs h')"
proof -
  from assms(1,2) obtain h1 where h1: "on_fs (initialize_private_key (lw_key_world L) c) h = (Inr (), h1)"
      "ho_fs h' = ho_fs h1"
    by (auto simp: restart_def act_then_Inr act_simps change_server_def on_listener_def case_prod_unfold split: if_splits)
  then have "initialize_private_key (lw_key_world L) c (ho_fs h) = (Inr (), ho_fs h1)"
    by (auto simp: on_fs_def split: prod.splits)
  from initialize_done [OF this assms(3,4)] h1(2) show ?thesis by simp
qed

text \<open>C29: A key and a certificate that are there are never written to, whatever happens at the start.\<close>

theorem existing_keys_stay:
  assumes "initialize_private_key K c fs = (r, fs')" "slash \<notin> set (sc_private_key_name c)"
    and "fs (fs_key (key_path c)) = Some key" "fs (fs_key (cert_path c)) = Some cert"
  shows "fs' (fs_key (key_path c)) = Some key \<and> fs' (fs_key (cert_path c)) = Some cert"
proof -
  have "fs' k = fs k" if k: "k \<in> key_files c" for k
  proof -
    have "act_keeps (\<lambda>fs. fs k = n) (act_then (create_directories K (sc_private_keys_dir c)) (\<lambda>_.
       act_then (set_permissions K (sc_private_keys_dir c) SECURE_FOLDER_PERMS) (\<lambda>_.
       check_key_permissions c)))" for n
      using key_files_apart(2) [OF assms(2)] k
      unfolding check_key_permissions_def
      by (auto intro!: act_keeps_intros keeps_create_directories [OF assms(2) k] keeps_permissions)
    from act_keepsD [OF this, where p = fs and q = fs' and r = r] assms(1,3,4) show ?thesis
      by (auto simp: initialize_private_key_def act_then_def act_simps fs_exists_def split: sum.splits)
  qed
  then show ?thesis using assms(3,4) by (simp add: key_files_def)
qed

text \<open>When the file of the certificate cannot be opened, an empty key is left behind, and from then
  on every start throws, whatever the system then allows.\<close>

theorem half_written_keys:
  assumes "initialize_private_key K c fs = (r, fs')" "slash \<notin> set (sc_private_key_name c)"
    and "fs (fs_key (sc_private_keys_dir c)) = Some d" "fn_directory d" "fn_perms d = SECURE_FOLDER_PERMS"
    and "create_directories K (sc_private_keys_dir c) fs = (Inr (), fs)" "fw_chmod K (fs_key (sc_private_keys_dir c))"
    and "fs (fs_key (key_path c)) = None" "fs (fs_key (cert_path c)) = None"
    and "kw_generate K c = Inr keys" "fw_open K (fs_key (key_path c))" "\<not> fw_open K (fs_key (cert_path c))"
  shows "r = Inl (Runtime_error (''Failed to open '' @ cert_path c @ '' for writing'')) \<and>
    map_option fn_content (fs' (fs_key (key_path c))) = Some [] \<and>
    fst (initialize_private_key K' c fs') = Inl (Runtime_error ''Found a private key or a certificate but not both'')"
proof -
  have apart: "fs_key (key_path c) \<noteq> fs_key (cert_path c)" "fs_key (key_path c) \<noteq> fs_key (sc_private_keys_dir c)"
    "fs_key (cert_path c) \<noteq> fs_key (sc_private_keys_dir c)"
    using key_files_apart [OF assms(2)] by (auto simp: key_files_def)
  have same: "fs(fs_key (sc_private_keys_dir c) \<mapsto> d\<lparr>fn_perms := SECURE_FOLDER_PERMS\<rparr>) = fs"
    using assms(3,5) by (cases d) (auto simp: fun_upd_idem)
  have "r = Inl (Runtime_error (''Failed to open '' @ cert_path c @ '' for writing'')) \<and>
    fs' = fs(fs_key (key_path c) \<mapsto> \<lparr>fn_directory = False, fn_perms = fw_file_perms K, fn_content = []\<rparr>)"
    using assms(1,3-12) apart same
    by (cases keys) (auto simp: initialize_private_key_def validate_config_def act_then_def act_simps fs_exists_def
        set_permissions_def try_set_permissions_def generate_keys_def open_for_writing_def)
  moreover from this have "fst (initialize_private_key K' c fs') =
      Inl (Runtime_error ''Found a private key or a certificate but not both'')"
    using assms(3-5,9) apart
    by (auto simp: initialize_private_key_def validate_config_def act_then_def act_simps fs_exists_def)
  ultimately show ?thesis by auto
qed

section \<open>Examples\<close>

definition plain_keys :: key_world where
  "plain_keys = fs_world.extend plain_system (key_world.fields (\<lambda>c. Inr ([1], [2])) (\<lambda>b. (True, b)))"

definition tape_listen :: "tape listen_world" where
  "tape_listen = \<lparr>lw_server_world = tape_server_world, lw_key_world = plain_keys, lw_set_certificate = (\<lambda>c k fs. Inr ()),
     lw_new_socket = Inr \<lparr>tp_in = [[0]], tp_out = [], tp_open = True\<rparr>, lw_set_reuseaddr = (\<lambda>s. (Inr (), s)),
     lw_bind = (\<lambda>s. (Inr (), s)), lw_listen = (\<lambda>s. (Inr (), s))\<rparr>"

definition tape_host :: "tape host" where
  "tape_host = \<lparr>ho_config = plain_config, ho_fs = Map.empty, ho_server = tape_server []\<rparr>"

lemma plain_paths:
  "fs_key (sc_private_keys_dir plain_config) = (True, [''k''])"
  "fs_key (key_path plain_config) = (True, [''k'', ''n_key.pem''])"
  "fs_key (cert_path plain_config) = (True, [''k'', ''n_cert.pem''])"
  "absolute (sc_private_keys_dir plain_config)" "names (sc_private_keys_dir plain_config) = [''k'']"
  "sc_private_keys_dir plain_config \<noteq> []" "slash \<notin> set (sc_private_key_name plain_config)"
  by (simp_all add: plain_config_def key_path_def cert_path_def path_append_def fs_key_def absolute_def names_def slash_def)

lemmas plain_eval = plain_keys_def plain_system_def fs_world.defs key_world.defs plain_paths initialize_private_key_def
  validate_config_def act_then_def act_simps fs_exists_def fs_perms_def create_directories_def set_permissions_def
  try_set_permissions_def generate_keys_def open_for_writing_def write_pem_def write_content_def Let_def

theorem restart_secures_key_witness:
  "fs_perms (key_path plain_config) (ho_fs (snd (restart tape_listen tape_host))) = Some SECURE_FILE_PERMS"
proof -
  have "fst (restart tape_listen tape_host) = Inr ()"
    by (simp add: restart_def on_fs_def change_server_def on_listener_def tape_listen_def tape_host_def plain_eval)
  then have "restart tape_listen tape_host = (Inr (), snd (restart tape_listen tape_host))" by (metis prod.collapse)
  from restart_secures_key [OF this refl] show ?thesis by (simp add: tape_host_def plain_paths)
qed

definition plain_node :: "bool \<Rightarrow> perms \<Rightarrow> fs_node" where
  "plain_node d p = \<lparr>fn_directory = d, fn_perms = p, fn_content = [7]\<rparr>"

theorem existing_keys_stay_witness:
  "snd (initialize_private_key plain_keys plain_config [(True, [''k'', ''n_key.pem'']) \<mapsto> plain_node False 0,
      (True, [''k'', ''n_cert.pem'']) \<mapsto> plain_node False 0]) (True, [''k'', ''n_key.pem'']) = Some (plain_node False 0)"
  using existing_keys_stay [OF prod.collapse [symmetric], where c = plain_config and K = plain_keys
      and fs = "[(True, [''k'', ''n_key.pem'']) \<mapsto> plain_node False 0, (True, [''k'', ''n_cert.pem'']) \<mapsto> plain_node False 0]"
      and key = "plain_node False 0" and cert = "plain_node False 0"]
  by (simp add: plain_paths)

theorem half_written_keys_witness:
  "fst (initialize_private_key (plain_keys\<lparr>fw_open := \<lambda>k. k = (True, [''k'', ''n_key.pem''])\<rparr>) plain_config
     [(True, [''k'']) \<mapsto> plain_node True SECURE_FOLDER_PERMS]) =
   Inl (Runtime_error (''Failed to open '' @ cert_path plain_config @ '' for writing''))"
proof -
  let ?K = "plain_keys\<lparr>fw_open := \<lambda>k. k = (True, [''k'', ''n_key.pem''])\<rparr>"
  let ?fs = "[(True, [''k'']) \<mapsto> plain_node True SECURE_FOLDER_PERMS]"
  have K: "fw_chmod ?K k" "kw_generate ?K plain_config = Inr ([1], [2])" "fw_open ?K k = (k = (True, [''k'', ''n_key.pem'']))" for k
    by (simp_all add: plain_keys_def plain_system_def fs_world.defs key_world.defs)
  have "create_directories ?K (sc_private_keys_dir plain_config) ?fs = (Inr (), ?fs)"
    by (simp add: plain_paths create_directories_def act_then_def act_simps plain_node_def Let_def)
  then show ?thesis
    using half_written_keys [OF prod.collapse [symmetric], where K = ?K and c = plain_config and fs = ?fs
        and d = "plain_node True SECURE_FOLDER_PERMS" and keys = "([1], [2])" and K' = plain_keys] K
    by (simp add: plain_paths plain_node_def)
qed

end
