(* ===== verification/Server_Runs.thy ===== *)
theory Server_Runs
  imports Setup_Laws
begin

text \<open>
  Everything a server goes through, as a step relation over the calls of the user: what the server
  does of itself in \<open>poll_events\<close>, the decisions about new peers, answers to requests, the blocking
  functions of the peers, new connections and restarts. Next to the server a state has the
  addresses of the peers the user vouched for, by connecting to them or trusting them for once.
\<close>

section \<open>The constructor\<close>

text \<open>\<open>Server::Server\<close>: the members as they are declared, then \<open>restart\<close>.\<close>

definition blank_server :: "'s \<Rightarrow> file_mapping \<Rightarrow> path \<Rightarrow> disk \<Rightarrow> 's server" where
  "blank_server socket mapping downloads_folder disk =
     \<lparr>sv_socket = socket, sv_peer_mapping = mapping, sv_peer_downloads = downloads_folder, sv_known_peers = Map.empty,
      sv_handshake_peers = Map.empty, sv_pending_peers = Map.empty, sv_peers = Map.empty, sv_fds = [],
      sv_fds_capacity = 0, sv_events = [], sv_pre_heap = Map.empty, sv_peer_heap = Map.empty, sv_next = 0, sv_disk = disk\<rparr>"

definition server_new :: "'s listen_world \<Rightarrow> server_config \<Rightarrow> fs \<Rightarrow> 's \<Rightarrow> file_mapping \<Rightarrow> path \<Rightarrow> disk \<Rightarrow> unit result \<times> 's host" where
  "server_new L config fs socket mapping downloads_folder disk =
     restart L \<lparr>ho_config = config, ho_fs = fs, ho_server = blank_server socket mapping downloads_folder disk\<rparr>"

section \<open>Steps\<close>

type_synonym 's vouching = "nat set \<times> 's host"

definition on_server :: "('s server, 'a) action \<Rightarrow> 's host \<Rightarrow> 's host" where
  "on_server m h = h\<lparr>ho_server := snd (m (ho_server h))\<rparr>"

inductive server_step :: "'s listen_world \<Rightarrow> request \<Rightarrow> 's vouching \<Rightarrow> 's vouching \<Rightarrow> bool" for L out where
  polls: "server_step L out (G, h) (G, on_server (poll_events (lw_server_world L) out) h)"
| pulls: "server_step L out (G, h) (G, on_server (pull_event (lw_server_world L) out) h)"
| takes: "server_step L out (G, h) (G, on_server (act_modify (\<lambda>s. s\<lparr>sv_events := (sv_events s)[k := CONNECT None]\<rparr>)) h)"
| clears: "server_step L out (G, h) (G, on_server (act_modify (\<lambda>s. s\<lparr>sv_events := []\<rparr>)) h)"
| accepts: "server_step L out (G, h) (G, on_server (accept_peer (lw_server_world L) a False) h)"
| trusts: "server_step L out (G, h)
    (insert (sv_next (ho_server h)) G, on_server (accept_peer (lw_server_world L) a True) h)"
| connects: "connect (lw_server_world L) out socket mapping downloads_folder (ho_server h) = Some (r, s) \<Longrightarrow>
    server_step L out (G, h) (insert (sv_next (ho_server h)) G, h\<lparr>ho_server := s\<rparr>)"
| answers: "well_typed request \<Longrightarrow>
    server_step L out (G, h) (G, on_server (on_peer a (respond_to_request (sw_peer_world (lw_server_world L)) request status)) h)"
| sends: "on_peer_run a (send_file (sw_peer_world (lw_server_world L)) out path) (ho_server h) = Some (r, s) \<Longrightarrow>
    server_step L out (G, h) (G, h\<lparr>ho_server := s\<rparr>)"
| receives: "on_peer_run a (receive_file (sw_peer_world (lw_server_world L)) out path') (ho_server h) = Some (r, s) \<Longrightarrow>
    server_step L out (G, h) (G, h\<lparr>ho_server := s\<rparr>)"
| lists: "on_peer_run a (list_files (sw_peer_world (lw_server_world L)) out path') (ho_server h) = Some (r', s) \<Longrightarrow>
    server_step L out (G, h) (G, h\<lparr>ho_server := s\<rparr>)"
| restarts: "server_step L out (G, h) (G, snd (restart L h))"
| disables: "server_step L out (G, h) (G, snd (set_disabled L disabled h))"

inductive server_run :: "'s listen_world \<Rightarrow> request \<Rightarrow> 's vouching \<Rightarrow> 's vouching \<Rightarrow> bool" for L out where
  server_run_refl: "server_run L out x x"
| server_run_step: "server_run L out x y \<Longrightarrow> server_step L out y z \<Longrightarrow> server_run L out x z"

section \<open>Invariants of every run\<close>

lemma act_keeps_change_server:
  "(\<And>s. I s \<Longrightarrow> I (f s)) \<Longrightarrow> act_keeps (\<lambda>h. I (ho_server h)) (change_server f)"
  unfolding change_server_def by (rule act_keeps_modify) simp

context server_invariant
begin

lemma keeps_on_listener: "act_keeps (\<lambda>h. I (ho_server h)) (on_listener f)"
  by (simp add: act_keeps_def on_listener_def io split: prod.split)

lemma keeps_on_fs: "act_keeps (\<lambda>h. I (ho_server h)) (on_fs m)"
  by (simp add: act_keeps_def on_fs_def split: prod.split)

lemma keeps_restart: "act_keeps (\<lambda>h. I (ho_server h)) (restart L)"
proof -
  have "I s \<Longrightarrow> I (s\<lparr>sv_fds := f, sv_fds_capacity := n\<rparr>)" for s f n by (simp add: io)
  then show ?thesis
    unfolding restart_def set_first_fd_def
    by (auto intro!: act_keeps_intros act_keeps_change_server keeps_on_listener keeps_on_fs io)
qed

lemma keeps_set_disabled: "act_keeps (\<lambda>h. I (ho_server h)) (set_disabled L disabled)"
  unfolding set_disabled_def by (intro act_keeps_intros keeps_restart) simp

lemma keeps_on_server: "act_keeps I m \<Longrightarrow> I (ho_server h) \<Longrightarrow> I (ho_server (on_server m h))"
  by (simp add: act_keeps_def on_server_def)

lemma keeps_step:
  assumes "server_step L out (G, h) (H, i)" "I (ho_server h)" "\<And>a. a \<in> H \<Longrightarrow> vouched a"
  shows "I (ho_server i)"
  using assms(1)
proof (cases rule: server_step.cases)
  case polls
  then show ?thesis using keeps_on_server [OF keeps_poll_events assms(2)] by simp
next
  case pulls
  then show ?thesis using keeps_on_server [OF keeps_pull_event assms(2)] by simp
next
  case (takes k)
  have "I s \<Longrightarrow> I (s\<lparr>sv_events := (sv_events s)[k := CONNECT None]\<rparr>)" for s
    by (rule events) (auto dest: set_update_subset_insert [THEN subsetD])
  with takes show ?thesis using keeps_on_server [OF act_keeps_modify assms(2)] by simp
next
  case clears
  then show ?thesis using keeps_on_server [OF act_keeps_modify assms(2)] by (simp add: events)
next
  case (accepts a)
  then show ?thesis using keeps_on_server [OF keeps_accept_known assms(2)] by simp
next
  case (trusts a)
  then show ?thesis using keeps_accept_peer [OF assms(2)] assms(3) by (simp add: on_server_def)
next
  case connects
  then show ?thesis using keeps_connect [OF _ assms(2)] assms(3) by fastforce
next
  case answers
  then show ?thesis using keeps_on_server [OF keeps_on_peer [OF harmless_respond] assms(2)] by simp
next
  case sends
  then show ?thesis using keeps_on_peer_run [OF _ config.keeps_send_file types.keeps_send_file assms(2)] by simp
next
  case receives
  then show ?thesis using keeps_on_peer_run [OF _ config.keeps_receive_file types.keeps_receive_file assms(2)] by simp
next
  case lists
  then show ?thesis using keeps_on_peer_run [OF _ config.keeps_list_files types.keeps_list_files assms(2)] by simp
next
  case restarts
  then show ?thesis using act_keeps_apply [OF keeps_restart, of h L] assms(2) by simp
next
  case disables
  then show ?thesis using act_keeps_apply [OF keeps_set_disabled, of h L] assms(2) by simp
qed

end

text \<open>Every peer the server ever made was vouched for by the user or has the key that the known peers
  hold for its id; the peers in the map exist, and so do those of the requests for the user, which
  have the payloads of their commands.\<close>

definition honest :: "nat set \<Rightarrow> 's server \<Rightarrow> bool" where
  "honest G s \<longleftrightarrow>
     (\<forall>a p. sv_peer_heap s a = Some p \<longrightarrow> a < sv_next s \<and> typed_peer p \<and>
       (a \<in> G \<or> sv_known_peers s (pb_device_uuid p) = Some (pb_public_key p))) \<and>
     (\<forall>fd a. sv_peers s fd = Some a \<longrightarrow> sv_peer_heap s a \<noteq> None) \<and>
     (\<forall>a r. REQUEST a r \<in> set (sv_events s) \<longrightarrow> sv_peer_heap s a \<noteq> None \<and> well_typed r)"

interpretation honest: server_invariant "honest G" "\<lambda>a. a \<in> G" for G
proof
  fix s :: "'s server" and u k store
  assume "honest G s" "known_insert u k (sv_known_peers s) = Inr store"
  then show "honest G (s\<lparr>sv_known_peers := store\<rparr>)"
    using known_insert_mono by (fastforce simp: honest_def)
next
  fix s :: "'s server" and a p q d rs
  assume "honest G s" "sv_peer_heap s a = Some p" "same_peer p q" "typed_peer p \<Longrightarrow> typed_peer q \<and> list_all well_typed rs"
  then show "honest G (s\<lparr>sv_peer_heap := (sv_peer_heap s)(a \<mapsto> q), sv_disk := d, sv_events := sv_events s @ map (REQUEST a) rs\<rparr>)"
    by (auto simp: honest_def same_peer_def list_all_iff)
next
  fix s :: "'s server" and es
  assume "honest G s" "set es \<subseteq> set (sv_events s) \<union> range CONNECT"
  then show "honest G (s\<lparr>sv_events := es\<rparr>)" by (fastforce simp: honest_def)
qed (auto simp: honest_def less_Suc_eq)

lemma honest_mono: "honest G s \<Longrightarrow> G \<subseteq> H \<Longrightarrow> honest H s"
  unfolding honest_def by blast

interpretation pinned: server_invariant "\<lambda>s. sv_known_peers s u = Some k" "\<lambda>_. True" for u k
  by unfold_locales (auto intro: known_insert_mono)

lemma step_vouches: "server_step L out (G, h) (H, i) \<Longrightarrow> G \<subseteq> H"
  by (cases rule: server_step.cases) auto

lemma server_new_honest:
  assumes "server_new L config fs socket mapping downloads_folder disk = (r, h)"
  shows "honest G (ho_server h)"
proof -
  have "honest G (ho_server \<lparr>ho_config = config, ho_fs = fs, ho_server = blank_server socket mapping downloads_folder disk\<rparr>)"
    by (simp add: honest_def blank_server_def)
  from act_keepsD [OF honest.keeps_restart assms [unfolded server_new_def] this] show ?thesis .
qed

lemma run_honest:
  assumes "server_run L out (G, h) (H, i)" "honest G (ho_server h)"
  shows "honest H (ho_server i)"
  using assms
proof (induction "(G, h)" "(H, i)" arbitrary: H i rule: server_run.induct)
  case (server_run_step y)
  obtain K j where y: "y = (K, j)" by fastforce
  with server_run_step have "honest K (ho_server j)" by blast
  then have "honest H (ho_server j)" using step_vouches server_run_step(3) y by (blast intro: honest_mono)
  from honest.keeps_step [OF server_run_step(3) [unfolded y] this] show ?case by simp
qed

lemma run_pinned:
  assumes "server_run L out (G, h) (H, i)" "sv_known_peers (ho_server h) u = Some k"
  shows "sv_known_peers (ho_server i) u = Some k"
  using assms
proof (induction "(G, h)" "(H, i)" arbitrary: H i rule: server_run.induct)
  case (server_run_step y)
  obtain K j where y: "y = (K, j)" by fastforce
  with server_run_step have "sv_known_peers (ho_server j) u = Some k" by blast
  from pinned.keeps_step [OF server_run_step(3) [unfolded y] this] show ?case by simp
qed

section \<open>The loop over the events\<close>

text \<open>\<open>process_events\<close> makes steps of this relation and no others, when the callbacks of the user do.\<close>

definition makes_steps :: "'s listen_world \<Rightarrow> request \<Rightarrow> ('s server, 'a) action \<Rightarrow> bool" where
  "makes_steps L out m \<longleftrightarrow> (\<forall>G h. \<exists>H. server_run L out (G, h) (H, on_server m h))"

lemma server_run_trans: "server_run L out x y \<Longrightarrow> server_run L out y z \<Longrightarrow> server_run L out x z"
  by (rotate_tac 1, induction rule: server_run.induct) (auto intro: server_run.intros)

lemma makes_stepsI: "(\<And>G h. server_step L out (G, h) (G, on_server m h)) \<Longrightarrow> makes_steps L out m"
  unfolding makes_steps_def by (blast intro: server_run.intros)

lemma makes_no_step: "(\<And>s. snd (m s) = s) \<Longrightarrow> makes_steps L out m"
  unfolding makes_steps_def on_server_def by (force intro: server_run_refl)

lemma makes_steps_then:
  assumes "makes_steps L out m" "\<And>a. makes_steps L out (f a)"
  shows "makes_steps L out (act_then m f)"
  unfolding makes_steps_def
proof (intro allI)
  fix G h
  obtain H where H: "server_run L out (G, h) (H, on_server m h)" using assms(1) unfolding makes_steps_def by blast
  obtain r s where r: "m (ho_server h) = (r, s)" by fastforce
  show "\<exists>H. server_run L out (G, h) (H, on_server (act_then m f) h)"
  proof (cases r)
    case (Inl e)
    then have "on_server (act_then m f) h = on_server m h" using r by (simp add: on_server_def act_then_def)
    with H show ?thesis by metis
  next
    case (Inr a)
    then have "on_server (act_then m f) h = on_server (f a) (on_server m h)" using r by (simp add: on_server_def act_then_def)
    with H assms(2) show ?thesis unfolding makes_steps_def by (metis server_run_trans)
  qed
qed

lemma elementary_steps:
  "makes_steps L out (act_return a)" "makes_steps L out (act_get f)" "makes_steps L out (act_lift r)"
  "makes_steps L out (poll_events (lw_server_world L) out)"
  "makes_steps L out (act_modify (\<lambda>s. s\<lparr>sv_events := (sv_events s)[k := CONNECT None]\<rparr>))"
  "makes_steps L out (act_modify (\<lambda>s. s\<lparr>sv_events := []\<rparr>))"
  "makes_steps L out (accept_peer (lw_server_world L) b False)"
  by (rule makes_no_step makes_stepsI, simp add: act_simps server_step.intros)+

lemma process_events_makes_steps:
  assumes "\<And>c. makes_steps L out (accept_cb c)" "\<And>a r. makes_steps L out (request_cb a r)"
  shows "makes_steps L out (process_events (lw_server_world L) out accept_cb request_cb)"
proof -
  have "makes_steps L out (process_loop (lw_server_world L) accept_cb request_cb k es)" for k es
  proof (induction es arbitrary: k)
    case (Cons e es)
    show ?case by (auto intro!: makes_steps_then elementary_steps assms Cons.IH split: event.split)
  qed (simp add: elementary_steps)
  then show ?thesis
    unfolding process_events_def by (auto intro!: makes_steps_then elementary_steps)
qed

section \<open>Properties\<close>

definition entitled :: "nat set \<Rightarrow> 's server \<Rightarrow> nat \<Rightarrow> bool" where
  "entitled G s a \<longleftrightarrow> (\<exists>p. sv_peer_heap s a = Some p \<and>
     (a \<in> G \<or> sv_known_peers s (pb_device_uuid p) = Some (pb_public_key p)))"

text \<open>C6: From the construction of the server on, whatever peers send and whatever the user calls: a peer
  among the trusted ones, or of a request that waits for the user, exists and either was vouched for by
  the user in person, who connected to it or trusted it for once, or has the key that the known peers
  hold for its id; and the request has the payload of its command.\<close>

theorem only_trusted_peers_ask:
  assumes "server_new L config fs socket mapping downloads_folder disk = (Inr (), h)"
    and "server_run L out ({}, h) (G, i)"
  shows "(sv_peers (ho_server i) fd = Some a \<longrightarrow> entitled G (ho_server i) a) \<and>
    (REQUEST b request \<in> set (sv_events (ho_server i)) \<longrightarrow> well_typed request \<and> entitled G (ho_server i) b)"
proof -
  have "honest G (ho_server i)" using run_honest [OF assms(2) server_new_honest [OF assms(1)]] .
  then show ?thesis unfolding honest_def entitled_def by blast
qed

text \<open>C24: A key that is known stays the key of its device, whatever the server goes through, and another
  key is refused for it.\<close>

theorem known_keys_stay:
  assumes "server_run L out (G, h) (H, i)" "known_contains u k (sv_known_peers (ho_server h)) = Inr True"
  shows "known_contains u k (sv_known_peers (ho_server i)) = Inr True \<and>
    (k' \<noteq> k \<longrightarrow> known_contains u k' (sv_known_peers (ho_server i)) = Inl key_conflict)"
proof -
  have "sv_known_peers (ho_server h) u = Some k"
    using assms(2) by (auto simp: known_contains_def try_then_eq_Inr split: option.splits)
  from run_pinned [OF assms(1) this] show ?thesis
    by (simp add: known_contains_def throw_if_def try_then_def)
qed

section \<open>Examples\<close>

text \<open>A server that has just been made, and connects to another one, whose answer is on the way.\<close>

definition answering_socket :: tape where
  "answering_socket = \<lparr>tp_in = [format_server_selected_version (mk_version 0)], tp_out = [], tp_open = True\<rparr>"

lemma connect_answered:
  assumes "sv_peers s 4 = None"
  shows "\<exists>s'. connect tape_server_world blank_request answering_socket tape_mapping ''/dl'' s = Some (Inr (sv_next s), s') \<and>
    sv_peers s' 4 = Some (sv_next s)"
proof -
  let ?m = "format_server_selected_version (mk_version 0)"
  let ?c = "tape_pre_auth CLIENT None True [?m]"
  let ?t = "\<lparr>tp_in = [], tp_out = [format_client_version_list], tp_open = True\<rparr>"
  have new: "pre_auth_peer_new tape_world answering_socket CLIENT = Inr ?c"
    by (simp add: tape_world_def tape_ops_def pre_auth_peer_new_def peer_base_new_def read_peer_certificate_def
        answering_socket_def tape_pre_auth_def peer_base.defs pre_auth_peer.defs)
  let ?d = "?c\<lparr>pb_socket := (pb_socket ?c)\<lparr>tp_out := [format_client_version_list]\<rparr>\<rparr>"
  have hello: "do_client_hello tape_world ?c = (Inr (), ?d)"
    by (simp add: do_client_hello_def pb_write_def tape_world_def tape_ops_def tape_pre_auth_def)
  have "addressable (?m @ [])" by (simp add: addressable_def format_server_selected_version_def)
  then have poll: "pa_poll_requests tape_world blank_request ?d = (Inr (), ?d\<lparr>pb_socket := ?t, pb_buffer := [],
      pa_protocol := Some protocol_v0, pa_first_extra_request := False\<rparr>)" (is "_ = (_, ?e)")
    by (intro client_takes_version [where new' = ?m]) (simp_all add: tape_world_def tape_ops_def tape_pre_auth_def)
  have d: "\<not> has_protocol ?d" "so_connected tape_world (pb_socket ?d)"
    by (simp_all add: has_protocol_def tape_pre_auth_def tape_world_def tape_ops_def)
  have "connect_loop tape_world blank_request ?d = connect_loop tape_world blank_request ?e"
    by (subst connect_loop.simps) (simp only: d poll simp_thms if_True prod.case sum.case)
  also have "\<dots> = Some (Inr (), ?e)" by (subst connect_loop.simps) (simp add: has_protocol_def)
  finally have loop: "connect_loop tape_world blank_request ?d = Some (Inr (), ?e)" .
  obtain q where q: "peer_new ?e tape_mapping ''/dl'' (sv_disk s) = Inr q" "pb_socket q = ?t"
    by (simp add: peer_new_def pa_get_protocol_def)
  have W: "sw_peer_world tape_server_world = tape_world" "sw_get_fd tape_server_world ?t = 4"
    by (simp_all add: tape_server_world_def)
  show ?thesis
    using assms q new hello loop
    by (simp add: connect_def W Let_def run_action_def run_return_def insert_peer_def act_then_def
        act_simps on_peer_def)
qed

theorem only_trusted_peers_ask_witness:
  "\<exists>h i. server_new tape_listen plain_config Map.empty answering_socket tape_mapping ''/dl'' Map.empty = (Inr (), h) \<and>
     server_run tape_listen blank_request ({}, h) ({0}, i) \<and> sv_peers (ho_server i) 4 = Some 0 \<and> entitled {0} (ho_server i) 0"
proof -
  let ?new = "server_new tape_listen plain_config Map.empty answering_socket tape_mapping ''/dl'' Map.empty"
  have "fst ?new = Inr () \<and> sv_next (ho_server (snd ?new)) = 0 \<and> sv_peers (ho_server (snd ?new)) = Map.empty"
    by (simp add: server_new_def restart_def on_fs_def change_server_def on_listener_def set_first_fd_def blank_server_def
        tape_listen_def plain_eval)
  then obtain h where h: "?new = (Inr (), h)" "sv_next (ho_server h) = 0" "sv_peers (ho_server h) 4 = None"
    by (metis prod.collapse)
  from connect_answered [of "ho_server h"] h obtain s where
    s: "connect tape_server_world blank_request answering_socket tape_mapping ''/dl'' (ho_server h) = Some (Inr 0, s)"
      "sv_peers s 4 = Some 0" by auto
  have L: "lw_server_world tape_listen = tape_server_world" by (simp add: tape_listen_def)
  let ?i = "h\<lparr>ho_server := s\<rparr>"
  have "server_step tape_listen blank_request ({}, h) ({0}, ?i)"
    using connects [of tape_listen blank_request answering_socket tape_mapping "''/dl''" h "Inr 0" s "{}"] s h(2) L by simp
  then have run: "server_run tape_listen blank_request ({}, h) ({0}, ?i)" by (rule server_run_step [OF server_run_refl])
  from only_trusted_peers_ask [OF h(1) run, of 4 0] s(2) have "entitled {0} (ho_server ?i) 0" by simp
  with h(1) run s(2) show ?thesis by fastforce
qed

theorem known_keys_stay_witness:
  "known_contains [1] [3] (sv_known_peers (ho_server (on_server (poll_events tape_server_world blank_request) tape_host))) =
     Inl key_conflict"
proof -
  have "server_step tape_listen blank_request ({}, tape_host) ({}, on_server (poll_events tape_server_world blank_request) tape_host)"
    using polls [of tape_listen blank_request "{}" tape_host] by (simp add: tape_listen_def)
  then have "server_run tape_listen blank_request ({}, tape_host) ({}, on_server (poll_events tape_server_world blank_request) tape_host)"
    by (rule server_run_step [OF server_run_refl])
  then show ?thesis
    using known_keys_stay [of tape_listen blank_request "{}" tape_host "{}" _ "[1]" "[2]" "[3]"]
    by (simp add: tape_host_def tape_server_def known_contains_def throw_if_def try_then_def)
qed

end
