(* ===== verification/Node_Objects.thy ===== *)
theory Node_Objects
  imports File_Mapping
begin

text \<open>
  The objects behind the nodes of \<open>FileMapping.cpp\<close>: a \<open>PathNode\<close> lives at an address, points to
  its parent and caches its ancestor path. A map owns its elements, so an object contains its
  children; they stay at their addresses when the map is moved. An address is alive when it occurs
  in one of the objects that the program holds, the list of roots below; a pointer to another
  address dangles, and following it is undefined. New objects get addresses from a counter.
\<close>

section \<open>Objects\<close>

datatype node_obj = Node_obj
  (o_addr: nat)
  (o_name: string)
  (o_parent: "nat option")
  (o_children: "(string \<times> node_obj) list")
  (o_host_path: path)
  (o_type: node_type)
  (o_visibility: visibility)
  (o_cached: "path option")

text \<open>What the node is without its pointers.\<close>

fun node_of :: "node_obj \<Rightarrow> path_node" where
  "node_of (Node_obj a name p cs host_path type v cached) =
     Path_node name (map (\<lambda>(k, c). (k, node_of c)) cs) host_path type v"

fun assign_parent :: "nat option \<Rightarrow> node_obj \<Rightarrow> node_obj" where
  "assign_parent other (Node_obj a name p cs host_path type v cached) =
     Node_obj a name other cs host_path type v None"

fun reassign_childs :: "node_obj \<Rightarrow> node_obj" where
  "reassign_childs (Node_obj a name p cs host_path type v cached) =
     Node_obj a name p (map (\<lambda>(k, c). (k, assign_parent (Some a) c)) cs) host_path type v cached"

text \<open>
  The defaulted move constructor, into an object at another address: the pointer to the parent and
  the cache come along, and the children keep their pointer to the old address.
\<close>

fun move_obj :: "nat \<Rightarrow> node_obj \<Rightarrow> node_obj" where
  "move_obj n (Node_obj a name p cs host_path type v cached) = Node_obj n name p cs host_path type v cached"

text \<open>The copy constructor: every element of the map is copied likewise.\<close>

fun copy_obj :: "nat \<Rightarrow> node_obj \<Rightarrow> node_obj \<times> nat"
  and copy_children :: "nat \<Rightarrow> (string \<times> node_obj) list \<Rightarrow> (string \<times> node_obj) list \<times> nat" where
  "copy_obj n (Node_obj a name p cs host_path type v cached) =
     (case copy_children (n + 1) cs of
        (cs, m) \<Rightarrow> (reassign_childs (Node_obj n name p cs host_path type v None), m))"
| "copy_children n [] = ([], n)"
| "copy_children n ((k, c) # cs) =
     (case copy_obj n c of (c, m) \<Rightarrow> case copy_children m cs of (cs, m) \<Rightarrow> ((k, c) # cs, m))"

text \<open>The two protected constructors, for an object at \<open>a\<close>.\<close>

definition virtual_obj :: "nat \<Rightarrow> string \<Rightarrow> nat option \<Rightarrow> visibility \<Rightarrow> (string \<times> node_obj) list \<Rightarrow> node_obj result" where
  "virtual_obj a name parent visibility child_nodes =
     try_then (assert_valid_name name) (\<lambda>_.
     Inr (reassign_childs (Node_obj a name parent child_nodes [] VIRTUAL visibility None)))"

definition host_obj :: "nat \<Rightarrow> string \<Rightarrow> nat option \<Rightarrow> node_type \<Rightarrow> path \<Rightarrow> visibility \<Rightarrow> node_obj result" where
  "host_obj a name parent type host_path visibility =
     try_then (assert_valid_name name) (\<lambda>_. Inr (Node_obj a name parent [] host_path type visibility None))"

text \<open>The nodes of a vector move into the elements of a map, at \<open>n\<close> and the addresses behind.\<close>

definition objs_to_map :: "nat \<Rightarrow> node_obj list \<Rightarrow> (string \<times> node_obj) list \<times> nat" where
  "objs_to_map n nodes =
     foldl (\<lambda>(result, n) node. (emplace (o_name node) (move_obj n node) result, n + 1)) ([], n) nodes"

text \<open>The parameter \<open>node\<close> is an object of its own, which is gone when the function returns.\<close>

fun insert_child_obj :: "nat \<Rightarrow> node_obj \<Rightarrow> node_obj \<Rightarrow> node_obj result" where
  "insert_child_obj n node (Node_obj a name p cs host_path type v cached) =
     try_then (assert_virtual_type type) (\<lambda>_.
     let node = assign_parent (Some a) node in
     try_then (throw_if (map_of cs (o_name node) \<noteq> None)
       (Runtime_error ''A node already exists with that name'')) (\<lambda>_.
     Inr (Node_obj a name p (emplace (o_name node) (move_obj n node) cs) host_path type v cached)))"

fun set_child_objs :: "(string \<times> node_obj) list \<Rightarrow> node_obj \<Rightarrow> node_obj result" where
  "set_child_objs nodes (Node_obj a name p cs host_path type v cached) =
     try_then (if nodes \<noteq> [] then assert_virtual_type type else Inr ()) (\<lambda>_.
     Inr (reassign_childs (Node_obj a name p nodes host_path type v cached)))"

fun set_obj_name :: "string \<Rightarrow> node_obj \<Rightarrow> node_obj result" where
  "set_obj_name name (Node_obj a _ p cs host_path type v cached) =
     try_then (assert_valid_name name) (\<lambda>_. Inr (Node_obj a name p cs host_path type v cached))"

section \<open>The ancestor path\<close>

fun all_objs :: "node_obj \<Rightarrow> node_obj list" where
  "all_objs (Node_obj a name p cs host_path type v cached) =
     Node_obj a name p cs host_path type v cached # concat (map (\<lambda>(k, c). all_objs c) cs)"

definition lookup_obj :: "node_obj list \<Rightarrow> nat \<Rightarrow> node_obj option" where
  "lookup_obj roots a = List.find (\<lambda>c. o_addr c = a) (concat (map all_objs roots))"

fun set_cached :: "nat \<Rightarrow> path \<Rightarrow> node_obj \<Rightarrow> node_obj" where
  "set_cached a path (Node_obj b name p cs host_path type v cached) =
     Node_obj b name p (map (\<lambda>(k, c). (k, set_cached a path c)) cs) host_path type v
       (if a = b then Some path else cached)"

text \<open>The names of the ancestors, the parent first. A cycle of parents would not end.\<close>

partial_function (option) ancestor_names :: "node_obj list \<Rightarrow> nat option \<Rightarrow> string list result option" where
  "ancestor_names roots current_node =
     (case current_node of
        None \<Rightarrow> Some (Inr [])
      | Some a \<Rightarrow>
          (case lookup_obj roots a of
             None \<Rightarrow> Some (Inl Undefined_behaviour)
           | Some c \<Rightarrow>
               Option.bind (ancestor_names roots (o_parent c)) (\<lambda>r.
               Some (try_then r (\<lambda>stack. Inr (o_name c # stack))))))"

definition obj_ancestor_path :: "nat \<Rightarrow> node_obj list \<Rightarrow> (path result \<times> node_obj list) option" where
  "obj_ancestor_path a roots =
     (case lookup_obj roots a of
        None \<Rightarrow> Some (Inl Undefined_behaviour, roots)
      | Some c \<Rightarrow>
          (case o_cached c of
             Some path \<Rightarrow> Some (Inr path, roots)
           | None \<Rightarrow>
               (case ancestor_names roots (o_parent c) of
                  None \<Rightarrow> None
                | Some (Inl e) \<Rightarrow> Some (Inl e, roots)
                | Some (Inr stack) \<Rightarrow>
                    let path = stack_to_path stack in Some (Inr path, map (set_cached a path) roots))))"

text \<open>\<open>operator==\<close>, of two objects that are alive. It fills the caches of the parents.\<close>

definition obj_eq :: "node_obj \<Rightarrow> node_obj \<Rightarrow> node_obj list \<Rightarrow> (bool result \<times> node_obj list) option" where
  "obj_eq this_node other roots =
     (let rest = (o_name this_node = o_name other \<and> path_eq (o_host_path this_node) (o_host_path other) \<and>
            o_type this_node = o_type other \<and> o_visibility this_node = o_visibility other)
      in case (o_parent this_node, o_parent other) of
           (None, None) \<Rightarrow> Some (Inr rest, roots)
         | (Some p, Some q) \<Rightarrow>
             (case obj_ancestor_path p roots of
                None \<Rightarrow> None
              | Some (Inl e, roots) \<Rightarrow> Some (Inl e, roots)
              | Some (Inr path, roots) \<Rightarrow>
                  (case obj_ancestor_path q roots of
                     None \<Rightarrow> None
                   | Some (Inl e, roots) \<Rightarrow> Some (Inl e, roots)
                   | Some (Inr other_path, roots) \<Rightarrow> Some (Inr (path_eq path other_path \<and> rest), roots)))
         | _ \<Rightarrow> Some (Inr False, roots))"

section \<open>The objects implement the nodes\<close>

definition node_map_of :: "(string \<times> node_obj) list \<Rightarrow> node_map" where
  "node_map_of cs = map (\<lambda>(k, c). (k, node_of c)) cs"

lemma node_map_of_simps [simp]:
  "node_map_of [] = []" "node_map_of ((k, c) # cs) = (k, node_of c) # node_map_of cs"
  "node_map_of (xs @ ys) = node_map_of xs @ node_map_of ys" "node_map_of cs = [] \<longleftrightarrow> cs = []"
  by (auto simp: node_map_of_def)

declare node_of.simps [simp del]

lemma node_of_obj [simp]:
  "node_of (Node_obj a name p cs host_path type v cached) = Path_node name (node_map_of cs) host_path type v"
  by (simp add: node_map_of_def node_of.simps)

lemma node_of_eq: "node_of c = Path_node (o_name c) (node_map_of (o_children c)) (o_host_path c) (o_type c) (o_visibility c)"
  by (cases c) simp

lemma n_name_of [simp]: "n_name (node_of c) = o_name c"
  by (simp add: node_of_eq)

lemma assign_parent_sel [simp]:
  "o_addr (assign_parent q c) = o_addr c" "o_name (assign_parent q c) = o_name c" "o_parent (assign_parent q c) = q"
  "o_children (assign_parent q c) = o_children c" "o_cached (assign_parent q c) = None" "node_of (assign_parent q c) = node_of c"
  by (cases c; simp)+

lemma move_obj_sel [simp]:
  "o_addr (move_obj n c) = n" "o_name (move_obj n c) = o_name c" "o_parent (move_obj n c) = o_parent c"
  "o_children (move_obj n c) = o_children c" "o_cached (move_obj n c) = o_cached c" "node_of (move_obj n c) = node_of c"
  by (cases c; simp)+

lemma node_map_of_reassign [simp]: "node_map_of (map (\<lambda>(k, c). (k, assign_parent q c)) cs) = node_map_of cs"
  by (simp add: node_map_of_def case_prod_beta)

lemma reassign_sel [simp]:
  "o_addr (reassign_childs c) = o_addr c" "o_name (reassign_childs c) = o_name c" "o_parent (reassign_childs c) = o_parent c"
  "o_children (reassign_childs c) = map (\<lambda>(k, d). (k, assign_parent (Some (o_addr c)) d)) (o_children c)"
  "node_of (reassign_childs c) = node_of c"
  by (cases c; simp add: case_prod_beta)+

lemma copy_nodes:
  "node_of (fst (copy_obj n c)) = node_of c" "node_map_of (fst (copy_children n cs)) = node_map_of cs"
proof (induction n c and n cs rule: copy_obj_copy_children.induct)
  case (3 n k c cs)
  obtain c' m where c: "copy_obj n c = (c', m)" by fastforce
  obtain cs' m' where "copy_children m cs = (cs', m')" by fastforce
  with c 3(1) 3(2) [OF c [symmetric]] show ?case by simp
qed (simp_all add: case_prod_beta del: reassign_childs.simps)

lemma map_of_node_map [simp]: "map_of (node_map_of cs) k = map_option node_of (map_of cs k)"
  by (induction cs) auto

lemma node_map_of_emplace [simp]: "node_map_of (emplace k c cs) = emplace k (node_of c) (node_map_of cs)"
  by (simp add: emplace_def)

lemma objs_to_map_nodes: "node_map_of (fst (objs_to_map n nodes)) = vector_to_map (map node_of nodes)"
proof -
  have "node_map_of (fst (foldl (\<lambda>(result, n) node. (emplace (o_name node) (move_obj n node) result, n + 1)) (m, n) nodes)) =
    foldl (\<lambda>result node. emplace (n_name node) node result) (node_map_of m) (map node_of nodes)" for m
    by (induction nodes arbitrary: m n) simp_all
  from this [of "[]"] show ?thesis by (simp add: objs_to_map_def vector_to_map_def)
qed

definition result_node :: "node_obj result \<Rightarrow> path_node result" where
  "result_node r = try_then r (\<lambda>c. Inr (node_of c))"


section \<open>Parents\<close>

fun parents_ok :: "node_obj \<Rightarrow> bool" where
  "parents_ok (Node_obj a name p cs host_path type v cached) \<longleftrightarrow>
     list_all (\<lambda>(k, c). o_parent c = Some a \<and> parents_ok c) cs"

lemma parents_ok_eq: "parents_ok c \<longleftrightarrow> list_all (\<lambda>(k, d). o_parent d = Some (o_addr c) \<and> parents_ok d) (o_children c)"
  by (cases c) simp

lemma parents_ok_assign [simp]: "parents_ok (assign_parent q c) = parents_ok c"
  by (simp add: parents_ok_eq [of "assign_parent q c"] parents_ok_eq [of c])

lemma parents_ok_reassign: "parents_ok (reassign_childs c) \<longleftrightarrow> list_all (\<lambda>(k, d). parents_ok d) (o_children c)"
  by (subst parents_ok_eq) (simp add: list.pred_map o_def case_prod_unfold)

lemma parents_ok_move: "parents_ok (move_obj n c) \<longleftrightarrow>
    list_all (\<lambda>(k, d). o_parent d = Some n \<and> parents_ok d) (o_children c)"
  by (simp add: parents_ok_eq [of "move_obj n c"])

lemma copy_parents:
  "parents_ok (fst (copy_obj n c))" "list_all (\<lambda>(k, d). parents_ok d) (fst (copy_children n cs))"
proof (induction n c and n cs rule: copy_obj_copy_children.induct)
  case (1 n a name p cs host_path type v cached)
  then show ?case by (simp add: case_prod_unfold parents_ok_reassign del: reassign_childs.simps)
next
  case (3 n k c cs)
  obtain c' m where c: "copy_obj n c = (c', m)" by fastforce
  obtain cs' m' where "copy_children m cs = (cs', m')" by fastforce
  with c 3(1) 3(2) [OF c [symmetric]] show ?case by simp
qed simp

lemma emplace_new: "map_of m k = None \<Longrightarrow> emplace k v m = m @ [(k, v)]"
  by (simp add: emplace_def)

lemma inserted_obj:
  assumes "insert_child_obj n node c = Inr c'"
  shows "o_addr c' = o_addr c" "o_name c' = o_name c" "o_parent c' = o_parent c" "o_cached c' = o_cached c"
    "o_children c' = o_children c @ [(o_name node, move_obj n (assign_parent (Some (o_addr c)) node))]"
  using assms
  by (cases c; simp add: Let_def try_then_eq_Inr emplace_new throw_if_def assert_virtual_type_def split: if_split_asm; force)+

text \<open>A copy has the right parents at every level below it, whatever the original had. Inserting a
  node with the right parents keeps them only when the node has no children: the children of a
  node that is moved into the map go on pointing to the object it was moved from.\<close>

theorem copies_repair_parents:
  assumes "parents_ok c" "parents_ok node" "insert_child_obj n node c = Inr c'" "n \<noteq> o_addr node"
  shows "parents_ok (fst (copy_obj m any)) \<and> (parents_ok c' \<longleftrightarrow> o_children node = [])"
proof -
  note c' = inserted_obj [OF assms(3)]
  have "parents_ok c' \<longleftrightarrow> list_all (\<lambda>(k, d). o_parent d = Some n \<and> parents_ok d) (o_children node)"
    using assms(1) by (simp add: parents_ok_eq [of c'] parents_ok_eq [of c] c' parents_ok_move)
  moreover have "list_all (\<lambda>(k, d). o_parent d = Some (o_addr node) \<and> parents_ok d) (o_children node)"
    using assms(2) by (simp add: parents_ok_eq [of node])
  ultimately show ?thesis using assms(4) copy_parents(1) [of m any]
    by (cases "o_children node") auto
qed

section \<open>What the ancestor path is\<close>

text \<open>The objects from one down along the keys, this one first.\<close>

fun obj_chain :: "string list \<Rightarrow> node_obj \<Rightarrow> node_obj list option" where
  "obj_chain [] c = Some [c]"
| "obj_chain (k # ks) c =
     (case map_of (o_children c) k of None \<Rightarrow> None | Some d \<Rightarrow> map_option ((#) c) (obj_chain ks d))"

lemma all_objs_eq: "all_objs c = c # concat (map (\<lambda>(k, d). all_objs d) (o_children c))"
  by (cases c) simp

lemma self_in_objs [simp]: "c \<in> set (all_objs c)"
  by (subst all_objs_eq) simp

lemma obj_chain_start: "obj_chain ks c = Some xs \<Longrightarrow> xs \<noteq> [] \<and> hd xs = c"
  by (cases ks) (auto split: option.splits)

lemma obj_chain_facts:
  "obj_chain ks c = Some xs \<Longrightarrow> parents_ok c \<Longrightarrow>
     successively (\<lambda>x y. o_parent y = Some (o_addr x)) xs \<and> set xs \<subseteq> set (all_objs c)"
proof (induction ks arbitrary: c xs)
  case (Cons k ks)
  then obtain d ys where d: "map_of (o_children c) k = Some d" "obj_chain ks d = Some ys" "xs = c # ys"
    by (auto split: option.splits)
  from d(1) have kd: "(k, d) \<in> set (o_children c)" by (rule map_of_SomeD)
  with Cons.prems(2) have p: "o_parent d = Some (o_addr c)" "parents_ok d"
    by (auto simp: parents_ok_eq [of c] list_all_iff)
  have "set (all_objs d) \<subseteq> set (all_objs c)" using kd by (subst all_objs_eq [of c]) force
  moreover note Cons.IH [OF d(2) p(2)] obj_chain_start [OF d(2)]
  ultimately show ?case using d(3) p(1) by (cases ys) auto
qed simp

lemma find_distinct:
  "distinct (map f xs) \<Longrightarrow> x \<in> set xs \<Longrightarrow> List.find (\<lambda>y. f y = f x) xs = Some x"
  by (induction xs) (auto simp: rev_image_eqI)

lemma lookup_distinct:
  "distinct (map o_addr (concat (map all_objs roots))) \<Longrightarrow> c \<in> set (concat (map all_objs roots)) \<Longrightarrow>
     lookup_obj roots (o_addr c) = Some c"
  unfolding lookup_obj_def by (rule find_distinct)

lemma ancestor_names_chain:
  assumes "successively (\<lambda>x y. o_parent y = Some (o_addr x)) xs" "xs \<noteq> []" "o_parent (hd xs) = None"
    and "\<And>x. x \<in> set xs \<Longrightarrow> lookup_obj roots (o_addr x) = Some x"
  shows "ancestor_names roots (Some (o_addr (last xs))) = Some (Inr (map o_name (rev xs)))"
  using assms
proof (induction xs rule: rev_induct)
  case (snoc x xs)
  have n: "ancestor_names roots None = Some (Inr [])" by (subst ancestor_names.simps) simp
  show ?case
  proof (cases xs)
    case Nil
    with snoc.prems n show ?thesis by (subst ancestor_names.simps) simp
  next
    case (Cons y ys)
    then have ne: "xs \<noteq> []" "hd (xs @ [x]) = hd xs" by simp_all
    from snoc.prems(1) ne have x: "o_parent x = Some (o_addr (last xs))" "successively (\<lambda>x y. o_parent y = Some (o_addr x)) xs"
      by (auto simp: successively_append_iff)
    have "ancestor_names roots (Some (o_addr (last xs))) = Some (Inr (map o_name (rev xs)))"
      using snoc.IH [OF x(2) ne(1)] snoc.prems(3,4) ne(2) by simp
    with x(1) snoc.prems(4) [of x] show ?thesis by (subst ancestor_names.simps) simp
  qed
qed simp

text \<open>The ancestor path of a node, in a tree with right parents, is the path of the names from its
  parent up to the root, and not from the root down.\<close>

theorem ancestor_path_upwards:
  assumes "parents_ok root" "o_parent root = None" "distinct (map o_addr (all_objs root))"
    and "obj_chain ks root = Some (xs @ [c])" "o_cached c = None"
  shows "obj_ancestor_path (o_addr c) [root] =
    Some (Inr (stack_to_path (map o_name (rev xs))), [set_cached (o_addr c) (stack_to_path (map o_name (rev xs))) root])"
proof -
  note f = obj_chain_facts [OF assms(4,1)] obj_chain_start [OF assms(4)]
  have l: "lookup_obj [root] (o_addr x) = Some x" if "x \<in> set (xs @ [c])" for x
    by (rule lookup_distinct) (use f assms(3) that in auto)
  have "ancestor_names [root] (o_parent c) = Some (Inr (map o_name (rev xs)))"
  proof (cases "xs = []")
    case True
    with f assms(2) show ?thesis by (simp add: ancestor_names.simps)
  next
    case False
    with f have "o_parent c = Some (o_addr (last xs))" "successively (\<lambda>x y. o_parent y = Some (o_addr x)) xs" "hd xs = root"
      by (auto simp: successively_append_iff)
    with ancestor_names_chain [of xs "[root]"] False l assms(2) show ?thesis by simp
  qed
  with l [of c] assms(5) show ?thesis by (simp add: obj_ancestor_path_def Let_def)
qed

text \<open>After a node with children was inserted into another one, the ancestor path of those children
  leaves defined behaviour: their parent is the object that was moved from, and it is gone.\<close>

theorem grandchildren_dangle:
  assumes "insert_child_obj n node c = Inr c'" "parents_ok node" "(k, d) \<in> set (o_children node)" "o_cached d = None"
    and "distinct (map o_addr (all_objs c'))" "o_addr node \<notin> o_addr ` set (all_objs c')"
  shows "obj_ancestor_path (o_addr d) [c'] = Some (Inl Undefined_behaviour, [c'])"
proof -
  have "o_parent d = Some (o_addr node)" using assms(2,3) by (auto simp: parents_ok_eq [of node] list_all_iff)
  moreover have "lookup_obj [c'] (o_addr node) = None"
  proof -
    have "o_addr x \<noteq> o_addr node" if "x \<in> set (all_objs c')" for x
      using imageI [OF that, of o_addr] assms(6) by metis
    then show ?thesis by (simp add: lookup_obj_def find_None_iff)
  qed
  ultimately have "ancestor_names [c'] (o_parent d) = Some (Inl Undefined_behaviour)"
    by (subst ancestor_names.simps) simp
  moreover have "d \<in> set (all_objs c')"
  proof -
    let ?m = "move_obj n (assign_parent (Some (o_addr c)) node)"
    have "(o_name node, ?m) \<in> set (o_children c')" by (simp add: inserted_obj(5) [OF assms(1)])
    then have "set (all_objs ?m) \<subseteq> set (all_objs c')" by (subst all_objs_eq [of c']) force
    moreover have "d \<in> set (all_objs ?m)" using assms(3) by (subst all_objs_eq [of ?m]) force
    ultimately show ?thesis by blast
  qed
  then have "lookup_obj [c'] (o_addr d) = Some d" using assms(5) by (intro lookup_distinct) simp_all
  ultimately show ?thesis using assms(4) by (simp add: obj_ancestor_path_def)
qed

section \<open>Examples\<close>

definition leaf_obj :: "nat \<Rightarrow> nat option \<Rightarrow> node_obj" where
  "leaf_obj a p = Node_obj a ''leaf'' p [] ''/srv'' HOST_FILE VISIBLE None"

definition folder_obj :: "nat \<Rightarrow> nat option \<Rightarrow> nat \<Rightarrow> node_obj" where
  "folder_obj a p b = Node_obj a ''folder'' p [(''leaf'', leaf_obj b (Some a))] [] VIRTUAL VISIBLE None"

definition root_obj :: "(string \<times> node_obj) list \<Rightarrow> node_obj" where
  "root_obj cs = Node_obj 0 ''root'' None cs [] VIRTUAL VISIBLE None"

lemmas obj_examples = leaf_obj_def folder_obj_def root_obj_def

theorem copies_repair_parents_witness:
  "\<not> parents_ok (Node_obj 0 ''root'' None [(''folder'', Node_obj 3 ''folder'' (Some 0)
     [(''leaf'', leaf_obj 2 (Some 1))] [] VIRTUAL VISIBLE None)] [] VIRTUAL VISIBLE None)"
  using copies_repair_parents [of "root_obj []" "folder_obj 1 None 2" 3]
  by (simp add: obj_examples assert_virtual_type_def emplace_def)

theorem ancestor_path_upwards_witness:
  "fst (the (obj_ancestor_path 2 [root_obj [(''folder'', folder_obj 1 (Some 0) 2)]])) = Inr ''folder/root''"
  using ancestor_path_upwards [of "root_obj [(''folder'', folder_obj 1 (Some 0) 2)]" "[''folder'', ''leaf'']"
      "[root_obj [(''folder'', folder_obj 1 (Some 0) 2)], folder_obj 1 (Some 0) 2]" "leaf_obj 2 (Some 1)"]
  by (simp add: obj_examples slash_def)

theorem grandchildren_dangle_witness:
  "\<exists>c'. insert_child_obj 3 (folder_obj 1 None 2) (root_obj []) = Inr c' \<and>
     obj_ancestor_path 2 [c'] = Some (Inl Undefined_behaviour, [c'])"
proof -
  let ?c = "Node_obj 0 ''root'' None [(''folder'', Node_obj 3 ''folder'' (Some 0)
     [(''leaf'', leaf_obj 2 (Some 1))] [] VIRTUAL VISIBLE None)] [] VIRTUAL VISIBLE None"
  have "insert_child_obj 3 (folder_obj 1 None 2) (root_obj []) = Inr ?c"
    by (simp add: obj_examples assert_virtual_type_def emplace_def)
  with grandchildren_dangle [OF this, of "''leaf''" "leaf_obj 2 (Some 1)"] show ?thesis
    by (simp add: obj_examples)
qed

text \<open>Renaming a node leaves the caches of the nodes below: they keep the path with the old name.\<close>

lemma rename_keeps_cached_paths:
  assumes "set_obj_name name root = Inr root'" "(k, d) \<in> set (o_children root)" "o_cached d = Some path"
    and "distinct (map o_addr (all_objs root))"
  shows "obj_ancestor_path (o_addr d) [root'] = Some (Inr path, [root'])"
proof -
  have r: "o_children root' = o_children root" "o_addr root' = o_addr root"
    using assms(1) by (cases root; auto simp: assert_valid_name_def throw_if_def split: if_splits)+
  have "distinct (map o_addr (all_objs root'))"
    using assms(4) by (simp add: all_objs_eq [of root] all_objs_eq [of root'] r)
  moreover have "d \<in> set (all_objs root')"
    using assms(2) by (subst all_objs_eq [of root']) (force simp: r all_objs_eq [of d])
  ultimately have "lookup_obj [root'] (o_addr d) = Some d" by (intro lookup_distinct) simp_all
  with assms(3) show ?thesis by (simp add: obj_ancestor_path_def)
qed

end
