(* ===== verification/Mapping_Archive.thy ===== *)
theory Mapping_Archive
  imports Node_Objects Configuration
begin

text \<open>
  The archives of the file mapping and of its nodes, from \<open>Config/Serialization.hpp\<close>. What cereal
  makes of an archive is not modelled: a stored node is what \<open>serialize\<close> hands to the archive, the
  version the archive passes to it and the fields in their order; a map is stored as its elements,
  and read by adding them to an empty map. Objects that are read get addresses from a counter.
\<close>

section \<open>Archives\<close>

datatype stored_node = Stored_node
  (sn_version: u32)
  (sn_name: string)
  (sn_type: node_type)
  (sn_visibility: visibility)
  (sn_host_path: path)
  (sn_child_nodes: "(string \<times> stored_node) list")

definition file_share_path_node_version :: u32 where
  "file_share_path_node_version = 0"

definition file_share_file_mapping_version :: u32 where
  "file_share_file_mapping_version = 0"

fun save_node :: "path_node \<Rightarrow> stored_node" where
  "save_node (Path_node name child_nodes host_path type v) =
     Stored_node file_share_path_node_version name type v host_path (map (\<lambda>(k, c). (k, save_node c)) child_nodes)"

text \<open>The members that are not in the archive keep their defaults: no parent, nothing cached.\<close>

fun load_node :: "nat \<Rightarrow> stored_node \<Rightarrow> (node_obj \<times> nat) result"
  and load_children :: "nat \<Rightarrow> (string \<times> node_obj) list \<Rightarrow> (string \<times> stored_node) list \<Rightarrow> ((string \<times> node_obj) list \<times> nat) result" where
  "load_node n (Stored_node version name type v host_path child_nodes) =
     try_then (check_version ''PathNode'' file_share_path_node_version version) (\<lambda>_.
     try_then (load_children (n + 1) [] child_nodes) (\<lambda>(cs, m).
     Inr (Node_obj n name None cs host_path type v None, m)))"
| "load_children n cs [] = Inr (cs, n)"
| "load_children n cs ((k, s) # ss) =
     try_then (load_node n s) (\<lambda>(c, m). load_children m (emplace k c cs) ss)"

record stored_mapping =
  sm_version :: u32
  sm_root_node :: stored_node
  sm_forbidden_paths :: "path list"

definition save_mapping :: "file_mapping \<Rightarrow> stored_mapping" where
  "save_mapping m = \<lparr>sm_version = file_share_file_mapping_version, sm_root_node = save_node (fm_root_node m),
     sm_forbidden_paths = fm_forbidden_paths m\<rparr>"

text \<open>The mapping that is read, with the object of its root.\<close>

definition load_mapping :: "nat \<Rightarrow> stored_mapping \<Rightarrow> (node_obj \<times> path list) result" where
  "load_mapping n s =
     try_then (check_version ''FileMapping'' file_share_file_mapping_version (sm_version s)) (\<lambda>_.
     try_then (load_node n (sm_root_node s)) (\<lambda>(root, _). Inr (root, sm_forbidden_paths s)))"

section \<open>Reading back\<close>

fun no_parents :: "node_obj \<Rightarrow> bool" where
  "no_parents (Node_obj a name p cs host_path type v cached) \<longleftrightarrow>
     p = None \<and> cached = None \<and> list_all (\<lambda>(k, c). no_parents c) cs"

definition addresses :: "(string \<times> node_obj) list \<Rightarrow> nat list" where
  "addresses cs = map o_addr (concat (map (\<lambda>(k, c). all_objs c) cs))"

lemma addresses_simps [simp]:
  "addresses [] = []" "addresses ((k, c) # cs) = map o_addr (all_objs c) @ addresses cs"
  "addresses (xs @ ys) = addresses xs @ addresses ys"
  by (simp_all add: addresses_def)

lemma loaded_objects:
  "load_node n s = Inr (c, m) \<Longrightarrow> n < m \<and> no_parents c \<and> distinct (map o_addr (all_objs c)) \<and>
     set (map o_addr (all_objs c)) \<subseteq> {n ..< m}"
  "load_children n cs ss = Inr (ds, m) \<Longrightarrow> list_all (\<lambda>(k, c). no_parents c) cs \<Longrightarrow> distinct (addresses cs) \<Longrightarrow>
     set (addresses cs) \<subseteq> {l ..< n} \<Longrightarrow> l \<le> n \<Longrightarrow>
     n \<le> m \<and> list_all (\<lambda>(k, c). no_parents c) ds \<and> distinct (addresses ds) \<and> set (addresses ds) \<subseteq> {l ..< m}"
proof (induction n s and n cs ss arbitrary: c m and ds m l rule: load_node_load_children.induct)
  case (1 n version name type v host_path child_nodes)
  then obtain cs where c: "c = Node_obj n name None cs host_path type v None"
      "load_children (n + 1) [] child_nodes = Inr (cs, m)"
    by (auto simp: try_then_eq_Inr)
  have a: "map o_addr (all_objs c) = n # addresses cs" using c(1) by (simp add: addresses_def)
  from "1.IH" [OF c(2), of "n + 1"] c(1) show ?case unfolding a by auto
next
  case (3 n cs k s ss)
  then obtain c j where c: "load_node n s = Inr (c, j)" "load_children j (emplace k c cs) ss = Inr (ds, m)"
    by (auto simp: try_then_eq_Inr)
  note IH = "3.IH"(1) [OF c(1)]
  have "list_all (\<lambda>(k, c). no_parents c) (emplace k c cs) \<and> distinct (addresses (emplace k c cs)) \<and>
      set (addresses (emplace k c cs)) \<subseteq> {l ..< j}"
  proof (cases "map_of cs k")
    case None
    have "set (addresses cs) \<inter> set (map o_addr (all_objs c)) = {}" using IH "3.prems"(4) by fastforce
    with None IH "3.prems"(2-5) show ?thesis by (fastforce simp: emplace_new)
  qed (use IH "3.prems"(2-4) in \<open>fastforce simp: emplace_def\<close>)
  with "3.IH"(2) [OF c(2), of l] IH "3.prems"(5) show ?case by auto
qed auto

lemma no_parents_all: "no_parents c \<Longrightarrow> d \<in> set (all_objs c) \<Longrightarrow> o_parent d = None \<and> o_cached d = None"
  by (induction c arbitrary: d) (fastforce simp: list_all_iff)

lemma load_children_new:
  assumes "\<And>k t n. (k, t) \<in> set ts \<Longrightarrow> \<exists>c m. load_node n (save_node t) = Inr (c, m) \<and> node_of c = t"
    and "distinct (map fst ts)" "fst ` set cs \<inter> fst ` set ts = {}"
  shows "\<exists>ds m. load_children n cs (map (\<lambda>(k, c). (k, save_node c)) ts) = Inr (ds, m) \<and> node_map_of ds = node_map_of cs @ ts"
  using assms
proof (induction ts arbitrary: n cs)
  case (Cons x ts)
  obtain k t where x: "x = (k, t)" by fastforce
  obtain c m where c: "load_node n (save_node t) = Inr (c, m)" "node_of c = t"
    using Cons.prems(1) [of k t n] x by auto
  have "map_of cs k = None" using Cons.prems(3) x by (auto simp: map_of_eq_None_iff)
  then have e: "emplace k c cs = cs @ [(k, c)]" by (rule emplace_new)
  have "\<exists>ds j. load_children m (emplace k c cs) (map (\<lambda>(k, c). (k, save_node c)) ts) = Inr (ds, j) \<and>
      node_map_of ds = node_map_of (emplace k c cs) @ ts"
  proof (rule Cons.IH)
    fix k t n assume "(k, t) \<in> set ts"
    then show "\<exists>c m. load_node n (save_node t) = Inr (c, m) \<and> node_of c = t" using Cons.prems(1) [of k t n] by simp
  qed (use Cons.prems x in \<open>auto simp: e\<close>)
  then show ?case using c x by (auto simp: e)
qed simp

lemma load_saved: "map_wf (n_child_nodes t) \<Longrightarrow> \<exists>c m. load_node n (save_node t) = Inr (c, m) \<and> node_of c = t"
proof (induction t arbitrary: n)
  case (Path_node name cs host_path type v)
  have "\<exists>ds m. load_children (n + 1) [] (map (\<lambda>(k, c). (k, save_node c)) cs) = Inr (ds, m) \<and> node_map_of ds = node_map_of [] @ cs"
  proof (rule load_children_new)
    fix k t n
    assume t: "(k, t) \<in> set cs"
    then have "node_wf t" using Path_node.prems by (force simp: map_wf_def)
    then have "map_wf (n_child_nodes t)" by (cases t) (simp add: map_wf_def)
    with Path_node.IH [OF t, of t n] show "\<exists>c m. load_node n (save_node t) = Inr (c, m) \<and> node_of c = t" by simp
  qed (use Path_node.prems in \<open>simp_all add: map_wf_def\<close>)
  then show ?case by (auto simp: check_version_def file_share_path_node_version_def)
qed

section \<open>Properties\<close>

text \<open>C40: A mapping that is saved and read back is the same tree of nodes with the same forbidden paths.
  But the pointers to the parents are not in the archive and are not set again: every node that was
  read has an empty ancestor path, at whatever depth it is, until the node above is copied.\<close>

theorem archive_loses_parents:
  assumes "map_wf (n_child_nodes (fm_root_node m))"
  shows "\<exists>root. load_mapping n (save_mapping m) = Inr (root, fm_forbidden_paths m) \<and> node_of root = fm_root_node m \<and>
    (\<forall>d \<in> set (all_objs root). \<exists>objs. obj_ancestor_path (o_addr d) [root] = Some (Inr [], objs)) \<and>
    parents_ok (fst (copy_obj k root))"
proof -
  obtain root j where r: "load_node n (save_node (fm_root_node m)) = Inr (root, j)" "node_of root = fm_root_node m"
    using load_saved [OF assms] by blast
  have l: "no_parents root" "distinct (map o_addr (all_objs root))" using loaded_objects(1) [OF r(1)] by simp_all
  have "\<exists>objs. obj_ancestor_path (o_addr d) [root] = Some (Inr [], objs)" if d: "d \<in> set (all_objs root)" for d
  proof -
    have "lookup_obj [root] (o_addr d) = Some d" using l(2) d by (intro lookup_distinct) simp_all
    moreover have "ancestor_names [root] None = Some (Inr [])" by (subst ancestor_names.simps) simp
    ultimately show ?thesis using no_parents_all [OF l(1) d] by (simp add: obj_ancestor_path_def)
  qed
  then show ?thesis using r copy_parents(1)
    by (simp add: load_mapping_def save_mapping_def check_version_def file_share_file_mapping_version_def)
qed

definition shared_folder :: file_mapping where
  "shared_folder = \<lparr>fm_root_node = Path_node ''//fsp'' [(''a'', Path_node ''a'' [(''b'', Path_node ''b'' [] ''/b'' HOST_FILE VISIBLE)] []
     VIRTUAL VISIBLE)] [] VIRTUAL VISIBLE, fm_forbidden_paths = [''/root'']\<rparr>"

theorem archive_loses_parents_witness:
  "\<exists>root. load_mapping 0 (save_mapping shared_folder) = Inr (root, [''/root'']) \<and> node_of root = fm_root_node shared_folder \<and>
     (\<forall>d \<in> set (all_objs root). \<exists>objs. obj_ancestor_path (o_addr d) [root] = Some (Inr [], objs))"
proof -
  have "map_wf (n_child_nodes (fm_root_node shared_folder))"
    by (simp add: shared_folder_def map_wf_def is_name_def slash_def)
  from archive_loses_parents [OF this, of 0 0] show ?thesis by (fastforce simp: shared_folder_def)
qed

end
