(* ===== verification/Peer_Poll.thy ===== *)
theory Peer_Poll
  imports Peer_Base
begin

text \<open>
  What \<open>PeerBase::poll_requests\<close> does with the request parser of protocol version 0: which
  requests reach the handler, and what an exception of the handler leaves behind.
\<close>

lemma sample_drained: "drain parse_request sample_message blank_request = Inr ([sample_packet], [])"
  using drain_formatted [of "[sample_packet]" "[sample_message]" blank_request] sample_formatted
  by (simp add: named_codes_def) (simp add: sample_packet_def sample_message_def addressable_def received_request_def)

lemma sample_addressable: "addressable sample_message"
  by (simp add: sample_message_def addressable_def)

text \<open>C18: One poll of a connected socket, where \<open>new\<close> are the bytes that arrive: the messages at
  the front of the buffered and the new bytes go to the handler in order, as if it were called
  on each by itself, and what stays in the buffer is the incomplete message behind them. The
  handler decides alone whether the poll throws.
\<close>

theorem poll_hands_over:
  assumes "so_connected S (pb_socket p)" "so_read S (pb_socket p) = (Inr new, s)"
    and "addressable (pb_buffer p @ new)"
    and "drain parse_request (pb_buffer p @ new) out = Inr (rs, rest)"
    and "\<And>r. keeps_buffer (authorize r)"
    and "act_each authorize rs (p\<lparr>pb_socket := s, pb_buffer := pb_buffer p @ new\<rparr>) = (Inr (), q)"
  shows "poll_requests S (\<lambda>v r. act_lift (parse_request v r)) authorize out p =
    (Inr (), q\<lparr>pb_buffer := rest\<rparr>)"
  using request_frames.poll_requests_drain [where authorize = authorize, OF assms(1-5)] assms(6)
  by (simp add: act_simps)

theorem poll_hands_over_witness:
  "pb_socket (snd (poll_requests tape_ops (\<lambda>v r. act_lift (parse_request v r)) (\<lambda>r. pb_write tape_ops [req_message_id r])
     blank_request (tape_peer (take 10 sample_message) [drop 10 sample_message]))) =
   \<lparr>tp_in = [], tp_out = [[9]], tp_open = True\<rparr>"
  using poll_hands_over [of tape_ops "tape_peer (take 10 sample_message) [drop 10 sample_message]"
      "drop 10 sample_message" "\<lparr>tp_in = [], tp_out = [], tp_open = True\<rparr>" blank_request "[sample_packet]" "[]"
      "\<lambda>r. pb_write tape_ops [req_message_id r]"]
  by (simp add: tape_peer_def sample_drained sample_addressable keeps_buffer_write)
    (simp add: tape_ops_def act_simps act_then_def pb_write_def sample_packet_def)

text \<open>C36: When the handler throws on one of the messages, the poll throws the same, and the buffer
  still holds all the bytes: a later poll that reads nothing new hands the same messages to the
  handler again, those it had already handled included (the \<open>TODO\<close> of the source).
\<close>

theorem poll_repeats_after_throw:
  assumes "so_connected S (pb_socket p)" "so_read S (pb_socket p) = (Inr new, s)"
    and "addressable (pb_buffer p @ new)"
    and "drain parse_request (pb_buffer p @ new) out = Inr (rs, rest)"
    and "\<And>r. keeps_buffer (authorize r)"
    and "act_each authorize rs (p\<lparr>pb_socket := s, pb_buffer := pb_buffer p @ new\<rparr>) = (Inl e, q)"
    and "so_connected S (pb_socket q)" "so_read S (pb_socket q) = (Inr [], s')"
  shows "poll_requests S (\<lambda>v r. act_lift (parse_request v r)) authorize out p = (Inl e, q) \<and>
    poll_requests S (\<lambda>v r. act_lift (parse_request v r)) authorize out q =
      act_then (act_each authorize rs) (\<lambda>_. act_modify (\<lambda>p. p\<lparr>pb_buffer := rest\<rparr>)) (q\<lparr>pb_socket := s'\<rparr>)"
proof
  show "poll_requests S (\<lambda>v r. act_lift (parse_request v r)) authorize out p = (Inl e, q)"
    using request_frames.poll_requests_drain [where authorize = authorize, OF assms(1-5)] assms(6)
    by (simp add: act_simps)
  have b: "pb_buffer q = pb_buffer p @ new"
    using keeps_bufferD [OF keeps_buffer_each [where f = authorize, OF assms(5)] assms(6)] by simp
  then have "addressable (pb_buffer q @ [])" "drain parse_request (pb_buffer q @ []) out = Inr (rs, rest)"
    using assms(3,4) by simp_all
  moreover have "q\<lparr>pb_socket := s', pb_buffer := pb_buffer q @ []\<rparr> = q\<lparr>pb_socket := s'\<rparr>" by simp
  ultimately show "poll_requests S (\<lambda>v r. act_lift (parse_request v r)) authorize out q =
      act_then (act_each authorize rs) (\<lambda>_. act_modify (\<lambda>p. p\<lparr>pb_buffer := rest\<rparr>)) (q\<lparr>pb_socket := s'\<rparr>)"
    using request_frames.poll_requests_drain [where authorize = authorize, OF assms(7,8) _ _ assms(5)] by metis
qed

theorem poll_repeats_after_throw_witness:
  "poll_requests tape_ops (\<lambda>v r. act_lift (parse_request v r)) (\<lambda>r. act_lift (Inl Out_of_range))
     blank_request (tape_peer [] [sample_message]) =
   (Inl Out_of_range, tape_peer sample_message [])"
  using poll_repeats_after_throw [of tape_ops "tape_peer [] [sample_message]"
      sample_message "\<lparr>tp_in = [], tp_out = [], tp_open = True\<rparr>" blank_request "[sample_packet]" "[]"
      "\<lambda>r. act_lift (Inl Out_of_range)" Out_of_range "tape_peer sample_message []" "\<lparr>tp_in = [], tp_out = [], tp_open = True\<rparr>"]
  by (simp add: tape_peer_def sample_drained sample_addressable keeps_buffer_def act_simps act_then_def)
    (simp add: tape_ops_def)

end
