(* ===== verification/File_Hash.thy ===== *)
theory File_Hash
  imports Protocol_Defs
begin

text \<open>
  \<open>Utils/FileHash.cpp\<close>: the hash of a file, read in blocks. The digest is OpenSSL's: a context
  that is made and fed block by block and asked for the result. The contents are what the system
  reads of the file; a read error ends them like the end of the file, since \<open>ret < 0\<close> is never true.
\<close>

record 'd digest =
  dg_fetch :: "string \<Rightarrow> bool"
  dg_init :: "string \<Rightarrow> 'd option"
  dg_update :: "'d \<Rightarrow> bytes \<Rightarrow> 'd option"
  dg_final :: "'d \<Rightarrow> bytes option"

definition READ_SIZE :: nat where
  "READ_SIZE = 0x8000"

function hash_loop :: "'d digest \<Rightarrow> 'd \<Rightarrow> bytes \<Rightarrow> 'd result" where
  "hash_loop D ctx rest =
     (let buff = take READ_SIZE rest; ret = length buff in
      if ret = 0 then Inr ctx
      else case dg_update D ctx buff of
          None \<Rightarrow> Inl (Runtime_error ''Failed to hash file data'')
        | Some ctx \<Rightarrow> if ret = READ_SIZE then hash_loop D ctx (drop READ_SIZE rest) else Inr ctx)"
  by pat_completeness auto

termination hash_loop
  by (relation "measure (\<lambda>(D, ctx, rest). length rest)") (auto simp: READ_SIZE_def)

declare hash_loop.simps [simp del]

definition file_hash :: "'d digest \<Rightarrow> hash_algorithm \<Rightarrow> bytes option \<Rightarrow> bytes result" where
  "file_hash D algo content =
     try_then (algo_to_string algo) (\<lambda>name.
     case content of
       None \<Rightarrow> Inl (Runtime_error ''failed to open file'')
     | Some content \<Rightarrow>
         try_then (throw_if (\<not> dg_fetch D name) (Runtime_error ''Failed to intialize the hash context'')) (\<lambda>_.
         case dg_init D name of
           None \<Rightarrow> Inl (Runtime_error ''Failed to init the digest context'')
         | Some ctx \<Rightarrow>
             try_then (hash_loop D ctx content) (\<lambda>ctx.
             case dg_final D ctx of
               None \<Rightarrow> Inl (Runtime_error ''Failed to compute the file hash'')
             | Some output \<Rightarrow>
                 try_then (algo_hash_size algo) (\<lambda>size.
                 try_then (throw_if (of_nat (length output) \<noteq> size) (Runtime_error ''Hash size is not what was expected''))
                   (\<lambda>_. Inr output)))))"

section \<open>The blocks do not matter\<close>

lemma hash_loop_eq:
  assumes "\<And>ctx. dg_update D ctx [] = Some ctx"
    and "\<And>ctx a b. dg_update D ctx (a @ b) = Option.bind (dg_update D ctx a) (\<lambda>ctx. dg_update D ctx b)"
  shows "hash_loop D ctx rest =
    (case dg_update D ctx rest of None \<Rightarrow> Inl (Runtime_error ''Failed to hash file data'') | Some ctx \<Rightarrow> Inr ctx)"
proof (induction "length rest" arbitrary: ctx rest rule: less_induct)
  case less
  show ?case
  proof (cases "length rest < READ_SIZE")
    case True
    then show ?thesis
      using assms(1) by (subst hash_loop.simps) (auto simp: Let_def split: option.split)
  next
    case False
    then have l: "length (take READ_SIZE rest) = READ_SIZE" "length (drop READ_SIZE rest) < length rest"
      by (auto simp: READ_SIZE_def)
    have "dg_update D ctx rest =
        Option.bind (dg_update D ctx (take READ_SIZE rest)) (\<lambda>ctx. dg_update D ctx (drop READ_SIZE rest))"
      using assms(2) [of ctx "take READ_SIZE rest" "drop READ_SIZE rest"] by simp
    moreover have "take READ_SIZE rest \<noteq> []" using l(1) by (auto simp: READ_SIZE_def)
    ultimately show ?thesis
      using l(1) less [OF l(2)] by (subst hash_loop.simps) (auto simp: Let_def split: option.split)
  qed
qed

text \<open>C31: When feeding a digest two pieces is the same as feeding it what they make together, the hash
  of a file does not depend on the blocks it is read in: it is the digest of the whole contents, and
  has the size that belongs to the algorithm.\<close>

theorem file_hash_whole:
  assumes "\<And>ctx. dg_update D ctx [] = Some ctx"
    and "\<And>ctx a b. dg_update D ctx (a @ b) = Option.bind (dg_update D ctx a) (\<lambda>ctx. dg_update D ctx b)"
  shows "file_hash D algo (Some content) = Inr h \<longleftrightarrow>
    (\<exists>name ctx ctx'. algo_to_string algo = Inr name \<and> dg_fetch D name \<and> dg_init D name = Some ctx \<and>
       dg_update D ctx content = Some ctx' \<and> dg_final D ctx' = Some h \<and>
       algo_hash_size algo = Inr (of_nat (length h)))"
proof (cases "algo_to_string algo")
  case (Inr name)
  show ?thesis
  proof (cases "dg_init D name")
    case (Some ctx)
    note init = this
    show ?thesis
    proof (cases "dg_update D ctx content")
      case (Some ctx')
      with Inr init show ?thesis
        by (cases "dg_final D ctx'") (auto simp: file_hash_def hash_loop_eq [OF assms] try_then_eq_Inr throw_if_def)
    qed (use Inr init in \<open>auto simp: file_hash_def hash_loop_eq [OF assms] try_then_eq_Inr\<close>)
  qed (use Inr in \<open>auto simp: file_hash_def try_then_eq_Inr\<close>)
qed (simp add: file_hash_def)

text \<open>A digest that keeps the sum of the bytes.\<close>

definition sum_digest :: "byte digest" where
  "sum_digest = \<lparr>dg_fetch = (\<lambda>name. name = ''md5''), dg_init = (\<lambda>name. Some 0),
     dg_update = (\<lambda>ctx b. Some (ctx + sum_list b)), dg_final = (\<lambda>ctx. Some (replicate 16 ctx))\<rparr>"

theorem file_hash_whole_witness: "file_hash sum_digest MD5 (Some [1, 2, 3]) = Inr (replicate 16 6)"
  using file_hash_whole [of sum_digest MD5 "[1, 2, 3]" "replicate 16 6"]
  by (simp add: sum_digest_def ac_simps)

end
