(* ===== verification/Transfer_Steps.thy ===== *)
theory Transfer_Steps
  imports Peer_Laws
begin

text \<open>
  What the two ends of the transfer of a file do with each message of it: the receiver with the
  packets, in the order they were sent, the sender with the answers. The peers are those of
  \<open>Peer\<close>, on the tape socket; \<open>Two_Peers\<close> puts them together.
\<close>

section \<open>Polling on a tape\<close>

text \<open>A poll of a peer whose handler does not touch the buffer.\<close>

lemma pr_poll_run:
  assumes "p_handler (pr_protocol p) = Some Handler_v0_0_0" "so_connected W (pb_socket p)" "so_read W (pb_socket p) = (Inr new, s)"
    and "addressable (pb_buffer p @ new)" "drain parse_request (pb_buffer p @ new) out = Inr (rs, rest)"
    and "act_each (pr_authorize_request W) rs (p\<lparr>pb_socket := s, pb_buffer := pb_buffer p @ new\<rparr>) = (Inr (), q)"
    and "pb_buffer q = pb_buffer p @ new"
  shows "pr_poll_requests W out p = (Inr (), q\<lparr>pb_buffer := rest\<rparr>)"
proof -
  have "pr_poll_requests W out p = poll_requests W (\<lambda>v r. act_lift (parse_request v r)) (pr_authorize_request W) out p"
    unfolding pr_poll_requests_def
  proof (rule poll_requests_cong [where I = "same_peer p"])
    show "pr_parse_bytes v r p' = act_lift (parse_request v r) p'" if "same_peer p p'" for v r p'
      using that assms(1) by (simp add: pr_parse_bytes_def act_then_def act_simps handler_parse_request_def same_peer_def)
    show "act_keeps (same_peer p) (pr_authorize_request W r)" for r by (rule config.keeps_authorize) simp
  qed (simp_all add: act_keeps_basic same_peer_def)
  with request_frames.poll_requests_run [OF assms(2-7)] show ?thesis by simp
qed

section \<open>One message at a time\<close>

text \<open>What the theorems below rely on of the socket: it is the tape of the examples.\<close>

definition on_tape :: "tape peer_world \<Rightarrow> bool" where
  "on_tape W \<longleftrightarrow> so_connected W = so_connected tape_ops \<and> so_read W = so_read tape_ops \<and> so_write W = so_write tape_ops"

text \<open>A peer of protocol version 0 on an open tape, and what it has written.\<close>

definition wired :: "tape peer \<Rightarrow> bool" where
  "wired p \<longleftrightarrow> p_handler (pr_protocol p) = Some Handler_v0_0_0 \<and> tp_open (pb_socket p)"

abbreviation written :: "tape peer \<Rightarrow> bytes list" where
  "written p \<equiv> tp_out (pb_socket p)"

text \<open>A peer after it has written \<open>ms\<close> and its queue has become \<open>q\<close>.\<close>

definition after_writing :: "message_queue \<Rightarrow> bytes list \<Rightarrow> tape peer \<Rightarrow> tape peer" where
  "after_writing q ms p = p\<lparr>pr_queue := q, pb_socket := (pb_socket p)\<lparr>tp_out := tp_out (pb_socket p) @ ms\<rparr>\<rparr>"

lemma send_reply_writes:
  assumes "on_tape W" "wired p" "mq_incoming (pr_queue p) i = Some m"
  shows "pr_send_reply W i st p = (Inr (), after_writing
    ((pr_queue p)\<lparr>mq_incoming := (mq_incoming (pr_queue p))(i \<mapsto> m\<lparr>msg_status := Some st\<rparr>)\<rparr>) [format_response i st] p)"
  using assms
  by (simp add: pr_send_reply_def act_then_def act_simps handler_format_response_def queue_send_reply_def on_queue_def
      mq_send_reply_def pb_write_def on_tape_def wired_def tape_ops_def after_writing_def)

lemma send_request_writes:
  assumes "on_tape W" "wired p" "queue_inv (pr_queue p)" "card (busy (pr_queue p)) < 255"
    and "\<And>j. format_request \<lparr>req_code = c, req_data = d, req_message_id = j\<rparr> = Inr (m j)"
  shows "\<exists>j q. pr_send_request W c d p = (Inr j, after_writing q [m j] p) \<and> queue_inv q \<and> j \<notin> busy (pr_queue p) \<and>
    busy q = insert j (busy (pr_queue p)) \<and> mq_incoming q = mq_incoming (pr_queue p) \<and>
    mq_outgoing q = (mq_outgoing (pr_queue p))(j \<mapsto>
      \<lparr>msg_request = \<lparr>req_code = c, req_data = d, req_message_id = j\<rparr>, msg_status = None\<rparr>)"
proof -
  let ?r = "\<lparr>req_code = c, req_data = d, req_message_id = 0\<rparr>"
  have "mq_slots (pr_queue p) \<noteq> 0" using assms(3,4) by (auto simp: queue_inv_def)
  from inv_returns [OF assms(3) this, of ?r] obtain j q where q: "mq_send_request ?r (pr_queue p) = Inr (j, q)" by blast
  note f = send_request_Inr [OF q] inv_send [OF assms(3) q]
  have "pr_send_request W c d p = (Inr j, after_writing q [m j] p)"
    using assms(1,2,5) q
    by (simp add: pr_send_request_def act_then_def act_simps handler_format_request_def on_queue_def pb_write_def
        on_tape_def wired_def tape_ops_def after_writing_def Let_def)
  with f show ?thesis by (intro exI [of _ j] exI [of _ q]) simp
qed


section \<open>A transfer\<close>

record transfer =
  tf_id :: byte
  tf_request :: send_file_data
  tf_content :: bytes
  tf_dest :: path

definition tf_size :: "transfer \<Rightarrow> nat" where
  "tf_size t = unat (sf_packet_size (tf_request t))"

text \<open>The packets that are announced, and those that are sent.\<close>

definition tf_announced :: "transfer \<Rightarrow> nat" where
  "tf_announced t = length (chunks (tf_size t) (tf_content t))"

definition tf_sends :: "transfer \<Rightarrow> bytes list" where
  "tf_sends t = sends (tf_size t) (tf_content t)"

definition tf_packet :: "transfer \<Rightarrow> nat \<Rightarrow> byte \<Rightarrow> request" where
  "tf_packet t x j = \<lparr>req_code = DATA_PACKET, req_data = Some (DataPacketData (data_packet (tf_id t) x (tf_sends t ! x))),
     req_message_id = j\<rparr>"

definition tf_status :: "transfer \<Rightarrow> nat \<Rightarrow> status_code" where
  "tf_status t x = (if x < tf_announced t then STATUS_OK else INVALID_REQUEST_ID)"

definition transferable :: "hasher \<Rightarrow> transfer \<Rightarrow> bool" where
  "transferable file_hash t \<longleftrightarrow> 0 < tf_size t \<and> tf_size t < 2 ^ 48 \<and> tf_content t \<noteq> [] \<and> length (tf_content t) < 2 ^ 48 \<and>
     sf_total_packets (tf_request t) = of_nat (tf_announced t) \<and>
     file_hash (sf_hash_algorithm (tf_request t)) (Some (tf_content t)) = Inr (sf_filehash (tf_request t))"

text \<open>The receiver of a transfer, when it has handled \<open>x\<close> packets.\<close>

definition receiving :: "transfer \<Rightarrow> disk \<Rightarrow> nat \<Rightarrow> tape peer \<Rightarrow> bool" where
  "receiving t disk x p \<longleftrightarrow> wired p \<and>
     (if x < tf_announced t then
        \<exists>d. pr_downloads p (tf_id t) = Some d \<and> received_so_far d x (concat (take x (tf_sends t))) \<and>
          sf_packet_size (dl_request d) = sf_packet_size (tf_request t) \<and>
          sf_total_packets (dl_request d) = sf_total_packets (tf_request t) \<and>
          sf_hash_algorithm (dl_request d) = sf_hash_algorithm (tf_request t) \<and>
          sf_filehash (dl_request d) = sf_filehash (tf_request t) \<and>
          dl_filename d = tf_dest t \<and> dl_temp_filename d = tf_dest t @ ''.fsdownload'' \<and> \<not> dl_keep d \<and> pr_disk p = disk
      else pr_downloads p (tf_id t) = None \<and>
        pr_disk p = (disk(tf_dest t \<mapsto> tf_content t))(tf_dest t @ ''.fsdownload'' := None))"

lemma dl_keep_fill: "dl_keep (fill_missing n i d) = dl_keep d"
  by (induction n arbitrary: i d) simp_all

lemma dl_keep_receive: "dl_receive_packet file_hash data d disk = (res, d', disk') \<Longrightarrow> dl_keep d' = dl_keep d"
  by (auto simp: dl_receive_packet_def Let_def finish_transfer_def close_file_def dl_keep_fill split: if_splits sum.splits)

lemma length_chunks_le: "0 < n \<Longrightarrow> length (chunks n c) \<le> length c"
proof (induction n c rule: chunks.induct)
  case (1 n c)
  show ?case
  proof (cases "c = []")
    case False
    then have "length c - n < length c" using 1(2) by simp
    with 1 False show ?thesis by (subst chunks.simps) (simp add: Suc_le_eq order_le_less_trans)
  qed simp
qed

lemma announced_sends:
  assumes "transferable file_hash t"
  shows "0 < tf_announced t" "tf_announced t \<le> length (tf_sends t)" "tf_announced t < 2 ^ 48"
    "concat (take (tf_announced t) (tf_sends t)) = tf_content t"
    "length (tf_sends t) \<le> Suc (tf_announced t)"
    "Suc x < tf_announced t \<Longrightarrow> length (tf_sends t ! x) = tf_size t"
proof -
  have n: "0 < tf_size t" "tf_content t \<noteq> []" "length (tf_content t) < 2 ^ 48" using assms by (auto simp: transferable_def)
  have s: "tf_sends t = chunks (tf_size t) (tf_content t) @ (if length (tf_content t) mod tf_size t = 0 then [[]] else [])"
    by (simp add: tf_sends_def sends_def)
  show "0 < tf_announced t" using n by (simp add: tf_announced_def chunks.simps [of "tf_size t" "tf_content t"])
  show "tf_announced t \<le> length (tf_sends t)" "length (tf_sends t) \<le> Suc (tf_announced t)"
    "concat (take (tf_announced t) (tf_sends t)) = tf_content t"
    by (simp_all add: s tf_announced_def concat_chunks [OF n(1)])
  show "tf_announced t < 2 ^ 48"
    using length_chunks_le [of "tf_size t" "tf_content t"] n by (simp add: tf_announced_def)
  show "length (tf_sends t ! x) = tf_size t" if "Suc x < tf_announced t"
  proof -
    have "tf_sends t ! x = butlast (chunks (tf_size t) (tf_content t)) ! x"
      using that by (simp add: s nth_append nth_butlast tf_announced_def)
    moreover have "\<dots> \<in> set (butlast (chunks (tf_size t) (tf_content t)))"
      using that by (intro nth_mem) (simp add: tf_announced_def)
    ultimately show ?thesis using chunks_full [OF n(1), of "tf_content t"] by simp
  qed
qed


text \<open>The destination, once it is there, or the download, one packet further.\<close>

lemma receive_packet_step:
  assumes t: "transferable file_hash t" and x: "x < tf_announced t"
    and d: "received_so_far d x (concat (take x (tf_sends t)))"
      "sf_packet_size (dl_request d) = sf_packet_size (tf_request t)"
      "sf_total_packets (dl_request d) = sf_total_packets (tf_request t)"
      "sf_hash_algorithm (dl_request d) = sf_hash_algorithm (tf_request t)"
      "sf_filehash (dl_request d) = sf_filehash (tf_request t)"
      "dl_filename d = tf_dest t" "dl_temp_filename d = tf_dest t @ ''.fsdownload''" "\<not> dl_keep d"
  shows "\<exists>d' disk'. dl_receive_packet file_hash (data_packet i x (tf_sends t ! x)) d disk = (Inr (), d', disk') \<and>
    \<not> dl_keep d' \<and> (dl_finished d' \<longleftrightarrow> Suc x = tf_announced t) \<and>
    (if Suc x = tf_announced t then disk' = (disk(tf_dest t \<mapsto> tf_content t))(tf_dest t @ ''.fsdownload'' := None)
     else disk' = disk \<and> received_so_far d' (Suc x) (concat (take (Suc x) (tf_sends t))) \<and>
       dl_request d' = dl_request d \<and> dl_filename d' = dl_filename d \<and> dl_temp_filename d' = dl_temp_filename d)"
proof -
  note a = announced_sends [OF t]
  have take: "concat (take (Suc x) (tf_sends t)) = concat (take x (tf_sends t)) @ tf_sends t ! x"
    using x a(2) by (simp add: take_Suc_conv_app_nth)
  have total: "sf_total_packets (tf_request t) = of_nat (tf_announced t)"
    and hash: "file_hash (sf_hash_algorithm (tf_request t)) (Some (tf_content t)) = Inr (sf_filehash (tf_request t))"
    using t by (simp_all add: transferable_def)
  show ?thesis
  proof (cases "Suc x = tf_announced t")
    case True
    obtain d' where d': "dl_receive_packet file_hash (data_packet i x (tf_sends t ! x)) d disk =
        (Inr (), d', (disk(dl_filename d \<mapsto> concat (take x (tf_sends t)) @ tf_sends t ! x))(dl_temp_filename d := None))"
      "dl_finished d'"
      using receive_in_order_last [OF d(1), of file_hash "tf_sends t ! x" i disk] d(3-5) total hash take a(4) True by auto
    with dl_keep_receive [OF d'(1)] d(6-8) True take a(4) show ?thesis by auto
  next
    case False
    then have s: "Suc x < tf_announced t" using x by simp
    have "tf_announced t < 2 ^ 64" using a(3) by simp
    from receive_in_order_more [OF d(1) _ s this, of "tf_sends t ! x" file_hash i disk] d(2,3) total a(6) [OF s]
    obtain d' where d': "dl_receive_packet file_hash (data_packet i x (tf_sends t ! x)) d disk = (Inr (), d', disk)"
      "received_so_far d' (Suc x) (concat (take x (tf_sends t)) @ tf_sends t ! x)" "dl_request d' = dl_request d"
      "dl_filename d' = dl_filename d" "dl_temp_filename d' = dl_temp_filename d"
      by (auto simp: tf_size_def)
    from d'(2) have "\<not> dl_finished d'" by (simp add: received_so_far_def dl_finished_def)
    with d' dl_keep_receive [OF d'(1)] d(8) False show ?thesis unfolding take by auto
  qed
qed

text \<open>A peer that has written one message more.\<close>

definition has_written :: "bytes list \<Rightarrow> tape peer \<Rightarrow> tape peer \<Rightarrow> bool" where
  "has_written ms p q \<longleftrightarrow> pb_socket q = (pb_socket p)\<lparr>tp_out := written p @ ms\<rparr> \<and> pb_buffer q = pb_buffer p"

lemma has_written_after: "has_written ms p (after_writing q ms p)"
  by (simp add: has_written_def after_writing_def)

lemma receiver_step:
  assumes W: "on_tape W" and t: "transferable (w_file_hash W) t" and x: "x < length (tf_sends t)"
    and r: "receiving t disk x p"
  shows "\<exists>q. pr_authorize_request W (tf_packet t x j) p = (Inr (), q) \<and> receiving t disk (Suc x) q \<and>
    has_written [format_response j (tf_status t x)] p q"
proof -
  note a = announced_sends [OF t]
  obtain q where q: "mq_receive_request (tf_packet t x j) (pr_queue p) = (j, q)"
      "mq_incoming q j = Some \<lparr>msg_request = tf_packet t x j, msg_status = None\<rparr>"
    by (simp add: mq_receive_request_def tf_packet_def Let_def)
  have w: "wired p" using r by (simp add: receiving_def)
  show ?thesis
  proof (cases "x < tf_announced t")
    case True
    then obtain d where d: "pr_downloads p (tf_id t) = Some d" "received_so_far d x (concat (take x (tf_sends t)))"
        "sf_packet_size (dl_request d) = sf_packet_size (tf_request t)"
        "sf_total_packets (dl_request d) = sf_total_packets (tf_request t)"
        "sf_hash_algorithm (dl_request d) = sf_hash_algorithm (tf_request t)"
        "sf_filehash (dl_request d) = sf_filehash (tf_request t)"
        "dl_filename d = tf_dest t" "dl_temp_filename d = tf_dest t @ ''.fsdownload''" "\<not> dl_keep d" "pr_disk p = disk"
      using r by (auto simp: receiving_def)
    from receive_packet_step [OF t True d(2-9)] obtain d' disk' where
      d': "dl_receive_packet (w_file_hash W) (data_packet (tf_id t) x (tf_sends t ! x)) d disk = (Inr (), d', disk')"
        "\<not> dl_keep d'" "dl_finished d' \<longleftrightarrow> Suc x = tf_announced t"
        "if Suc x = tf_announced t then disk' = (disk(tf_dest t \<mapsto> tf_content t))(tf_dest t @ ''.fsdownload'' := None)
         else disk' = disk \<and> received_so_far d' (Suc x) (concat (take (Suc x) (tf_sends t))) \<and>
           dl_request d' = dl_request d \<and> dl_filename d' = dl_filename d \<and> dl_temp_filename d' = dl_temp_filename d"
      by blast
    let ?p = "p\<lparr>pr_queue := q, pr_downloads := (if dl_finished d' then (pr_downloads p)(tf_id t := None)
        else (pr_downloads p)(tf_id t \<mapsto> d')), pr_disk := disk'\<rparr>"
    have wp: "wired ?p" using w by (simp add: wired_def)
    have "pr_authorize_request W (tf_packet t x j) p = pr_send_reply W j STATUS_OK ?p"
      using d(1,10) d'(1,2) q
      by (simp add: pr_authorize_request_def respond_to_request_def answer_data_packet_def act_then_def act_simps
          queue_receive_request_def on_queue_def download_packet_def tf_packet_def data_packet_def)
    with send_reply_writes [OF W wp, of j _ STATUS_OK] q(2) show ?thesis
      using True d' d w Suc_lessI [OF True]
      by (auto simp: has_written_def tf_status_def receiving_def wired_def after_writing_def)
  next
    case False
    let ?p = "p\<lparr>pr_queue := q\<rparr>"
    have wp: "wired ?p" using w by (simp add: wired_def)
    have "pr_authorize_request W (tf_packet t x j) p = pr_send_reply W j INVALID_REQUEST_ID ?p"
      using q r False
      by (simp add: pr_authorize_request_def respond_to_request_def act_then_def act_simps receiving_def
          queue_receive_request_def on_queue_def tf_packet_def data_packet_def)
    with send_reply_writes [OF W wp, of j _ INVALID_REQUEST_ID] q(2) show ?thesis
      using False r
      by (auto simp: has_written_def tf_status_def receiving_def wired_def after_writing_def)
  qed
qed


primrec tf_packets :: "transfer \<Rightarrow> nat \<Rightarrow> byte list \<Rightarrow> request list" where
  "tf_packets t x [] = []"
| "tf_packets t x (j # js) = tf_packet t x j # tf_packets t (Suc x) js"

definition tf_reply :: "transfer \<Rightarrow> nat \<Rightarrow> byte \<Rightarrow> request" where
  "tf_reply t x j = \<lparr>req_code = RESPONSE, req_data = Some (ResponseData (tf_status t x)), req_message_id = j\<rparr>"

primrec tf_replies :: "transfer \<Rightarrow> nat \<Rightarrow> byte list \<Rightarrow> request list" where
  "tf_replies t x [] = []"
| "tf_replies t x (j # js) = tf_reply t x j # tf_replies t (Suc x) js"

text \<open>The bytes of a request that can be formatted.\<close>

definition message_of :: "request \<Rightarrow> bytes" where
  "message_of r = (case format_request r of Inr m \<Rightarrow> m)"

lemma message_of_simps [simp]:
  "format_request (tf_packet t x j) = Inr (message_of (tf_packet t x j))"
  "format_request (tf_reply t x j) = Inr (message_of (tf_reply t x j))"
  "message_of (tf_reply t x j) = format_response j (tf_status t x)"
  by (simp_all add: message_of_def format_request_def tf_packet_def tf_reply_def)

lemma has_written_trans: "has_written ms p q \<Longrightarrow> has_written ms' q r \<Longrightarrow> has_written (ms @ ms') p r"
  by (simp add: has_written_def)

lemma has_written_refl [simp]: "has_written [] p p"
  by (simp add: has_written_def)

lemma receiver_steps:
  assumes "on_tape W" "transferable (w_file_hash W) t"
  shows "receiving t disk x p \<Longrightarrow> x + length js \<le> length (tf_sends t) \<Longrightarrow>
    \<exists>q. act_each (pr_authorize_request W) (tf_packets t x js) p = (Inr (), q) \<and> receiving t disk (x + length js) q \<and>
      has_written (map message_of (tf_replies t x js)) p q"
proof (induction js arbitrary: x p)
  case (Cons j js)
  from receiver_step [OF assms _ Cons.prems(1), of j] Cons.prems(2) obtain q where
    q: "pr_authorize_request W (tf_packet t x j) p = (Inr (), q)" "receiving t disk (Suc x) q"
      "has_written [message_of (tf_reply t x j)] p q" by auto
  from Cons.IH [OF q(2)] Cons.prems(2) obtain r where
    "act_each (pr_authorize_request W) (tf_packets t (Suc x) js) q = (Inr (), r)" "receiving t disk (Suc x + length js) r"
    "has_written (map message_of (tf_replies t (Suc x) js)) q r" by auto
  with q has_written_trans [OF q(3)] show ?case by (auto simp: act_then_eval)
qed (simp add: act_simps)

section \<open>The sender\<close>

lemma sends_nth:
  "0 < n \<Longrightarrow> k < length (sends n c) \<Longrightarrow> sends n c ! k = take n (drop (k * n) c) \<and>
     (length (take n (drop (k * n) c)) < n \<longleftrightarrow> Suc k = length (sends n c))"
proof (induction k arbitrary: c)
  case 0
  have "sends n (drop n c) \<noteq> []" using sends_rec [OF 0(1), of "drop n c"] by simp
  then show ?case using 0 sends_rec [OF 0(1), of c] by auto
next
  case (Suc k)
  then have "\<not> length c < n" using sends_rec [OF Suc.prems(1), of c] by auto
  then have "sends n c = take n c # sends n (drop n c)" using sends_rec [OF Suc.prems(1), of c] by simp
  with Suc.IH [of "drop n c"] Suc.prems show ?case by (simp add: drop_drop add.commute)
qed

text \<open>The upload of a transfer, when \<open>k\<close> packets have been cut off.\<close>

definition uploads :: "transfer \<Rightarrow> nat \<Rightarrow> upload \<Rightarrow> bool" where
  "uploads t k u \<longleftrightarrow> up_request u = tf_request t \<and>
     (if k < length (tf_sends t) then uploading u k (drop (k * tf_size t) (tf_content t)) else \<not> up_open u)"

lemma upload_next_packet:
  assumes "transferable file_hash t" "uploads t k u" "k < length (tf_sends t)"
  shows "\<exists>u'. up_get_next_packet i u = Inr (Some (data_packet i k (tf_sends t ! k)), u') \<and> uploads t (Suc k) u'"
proof -
  have n: "0 < tf_size t" "tf_size t < 2 ^ 63" using assms(1) by (auto simp: transferable_def)
  note s = sends_nth [OF n(1) assms(3) [unfolded tf_sends_def], folded tf_sends_def]
  have u: "uploading u k (drop (k * tf_size t) (tf_content t))" "unat (sf_packet_size (up_request u)) = tf_size t"
    using assms(2,3) by (simp_all add: uploads_def tf_size_def)
  obtain u' where u': "up_get_next_packet i u = Inr (Some (data_packet i k (tf_sends t ! k)), u')"
      "up_open u' \<longleftrightarrow> Suc k \<noteq> length (tf_sends t)" "up_request u' = up_request u" "\<not> up_fail u'"
      "up_packet_id u' = of_nat (Suc k)"
      "drop (up_pos u') (up_content u') = drop (tf_size t) (drop (k * tf_size t) (tf_content t))"
    using up_step [OF u(2) n(2) u(1), of i] s by auto
  have "drop (tf_size t) (drop (k * tf_size t) (tf_content t)) = drop (Suc k * tf_size t) (tf_content t)"
    by (simp add: drop_drop add.commute)
  with u' assms(2,3) have "uploads t (Suc k) u'" by (auto simp: uploads_def uploading_def)
  with u'(1) show ?thesis by blast
qed

lemma upload_next_done: "uploads t k u \<Longrightarrow> length (tf_sends t) \<le> k \<Longrightarrow> up_get_next_packet i u = Inr (None, u)"
  by (simp add: uploads_def up_get_next_packet_def up_finished_def)

text \<open>The sender, when packets up to \<open>x\<close> are answered and those with the message ids \<open>js\<close> are not.\<close>

definition sending :: "transfer \<Rightarrow> byte list \<Rightarrow> nat \<Rightarrow> tape peer \<Rightarrow> bool" where
  "sending t js x p \<longleftrightarrow> wired p \<and> queue_inv (pr_queue p) \<and> busy (pr_queue p) = set js \<and> distinct js \<and>
     length js \<le> window_size \<and> x + length js \<le> length (tf_sends t) \<and>
     (length js = window_size \<or> x + length js = length (tf_sends t)) \<and>
     (\<forall>k < length js. mq_outgoing (pr_queue p) (js ! k) = Some \<lparr>msg_request = tf_packet t (x + k) (js ! k), msg_status = None\<rparr>) \<and>
     (x + length js = length (tf_sends t) \<and> pr_uploads p (tf_id t) = None \<or>
      x < tf_announced t \<and> (\<exists>u. pr_uploads p (tf_id t) = Some u \<and> uploads t (x + length js) u))"


text \<open>The next packet of the transfer, sent.\<close>

lemma send_next_packet:
  assumes W: "on_tape W" and t: "transferable file_hash t" and w: "wired p"
    and q: "queue_inv (pr_queue p)" "busy (pr_queue p) = set js" "distinct js" "length js < window_size"
      "\<And>k. k < length js \<Longrightarrow> mq_outgoing (pr_queue p) (js ! k) = Some \<lparr>msg_request = tf_packet t (x + k) (js ! k), msg_status = None\<rparr>"
    and k: "x + length js < length (tf_sends t)"
    and u: "pr_uploads p (tf_id t) = Some u" "uploads t (x + length js) u"
  shows "\<exists>j q. act_then (upload_next (tf_id t)) (\<lambda>packet. pr_send_request W DATA_PACKET (map_option DataPacketData packet)) p = (Inr j, q) \<and>
    has_written [message_of (tf_packet t (x + length js) j)] p q \<and> wired q \<and> queue_inv (pr_queue q) \<and>
    busy (pr_queue q) = set (js @ [j]) \<and> distinct (js @ [j]) \<and> mq_slots (pr_queue q) \<noteq> 0 \<and>
    (\<forall>k < length (js @ [j]). mq_outgoing (pr_queue q) ((js @ [j]) ! k) =
       Some \<lparr>msg_request = tf_packet t (x + k) ((js @ [j]) ! k), msg_status = None\<rparr>) \<and>
    (\<exists>u'. pr_uploads q (tf_id t) = Some u' \<and> uploads t (Suc (x + length js)) u')"
proof -
  let ?k = "x + length js"
  from upload_next_packet [OF t u(2) k, of "tf_id t"] obtain u' where
    u': "up_get_next_packet (tf_id t) u = Inr (Some (data_packet (tf_id t) ?k (tf_sends t ! ?k)), u')" "uploads t (Suc ?k) u'"
    by blast
  let ?p = "p\<lparr>pr_uploads := (pr_uploads p)(tf_id t \<mapsto> u')\<rparr>"
  have "card (busy (pr_queue ?p)) < 255" using q(2-4) by (simp add: distinct_card window_size_def)
  moreover have f: "format_request \<lparr>req_code = DATA_PACKET, req_data = map_option DataPacketData
      (Some (data_packet (tf_id t) ?k (tf_sends t ! ?k))), req_message_id = j\<rparr> = Inr (message_of (tf_packet t ?k j))" for j
    using message_of_simps(1) [of t ?k j] by (simp add: tf_packet_def)
  moreover have "wired ?p" using w by (simp add: wired_def)
  ultimately obtain j mq where r: "pr_send_request W DATA_PACKET (map_option DataPacketData
      (Some (data_packet (tf_id t) ?k (tf_sends t ! ?k)))) ?p = (Inr j, after_writing mq [message_of (tf_packet t ?k j)] ?p)"
      "queue_inv mq" "j \<notin> busy (pr_queue p)" "busy mq = insert j (busy (pr_queue p))"
      "mq_outgoing mq = (mq_outgoing (pr_queue p))(j \<mapsto> \<lparr>msg_request = tf_packet t ?k j, msg_status = None\<rparr>)"
    using send_request_writes [OF W, of ?p DATA_PACKET "map_option DataPacketData (Some (data_packet (tf_id t) ?k (tf_sends t ! ?k)))"
        "\<lambda>j. message_of (tf_packet t ?k j)"] q(1) by (auto simp: tf_packet_def)
  have "card (busy mq) < 7" using r(3,4) q(2-4) by (simp add: distinct_card window_size_def)
  then have "mq_slots mq \<noteq> 0" using r(2) by (auto simp: queue_inv_def)
  moreover have "mq_outgoing mq ((js @ [j]) ! k) = Some \<lparr>msg_request = tf_packet t (x + k) ((js @ [j]) ! k), msg_status = None\<rparr>"
    if "k < length (js @ [j])" for k
  proof (cases "k = length js")
    case False
    then have "k < length js" using that by simp
    then have "js ! k \<noteq> j" using r(3) q(2) nth_mem by fastforce
    with q(5) [of k] \<open>k < length js\<close> r(5) show ?thesis by (simp add: nth_append)
  qed (use r(5) in simp)
  ultimately show ?thesis
    using u u' r q(2,3) w
    by (intro exI [of _ j] exI [of _ "after_writing mq [message_of (tf_packet t ?k j)] ?p"])
      (auto simp: act_then_def upload_next_def after_writing_def has_written_def wired_def)
qed


text \<open>A packet's request in the queue gets its answer.\<close>

lemma answer_packet:
  assumes "queue_inv q" "busy q = set (j # js)" "distinct (j # js)" "mq_outgoing q j = Some \<lparr>msg_request = r, msg_status = None\<rparr>"
    and "st \<noteq> APPROVAL_PENDING"
  shows "\<exists>q'. mq_receive_reply j st q = Inr q' \<and> queue_inv q' \<and> busy q' = set js \<and>
    mq_outgoing q' = (mq_outgoing q)(j \<mapsto> \<lparr>msg_request = r, msg_status = Some st\<rparr>)"
proof -
  obtain q' where q': "mq_receive_reply j st q = Inr q'" "mq_outgoing q' = (mq_outgoing q)(j \<mapsto> \<lparr>msg_request = r, msg_status = Some st\<rparr>)"
    using assms(4) by (auto simp: mq_receive_reply_def Let_def)
  moreover have "queue_inv q'" using inv_receive_reply [OF assms(1) q'(1)] assms(5) by simp
  moreover have "busy q' = set js" using receive_reply_Inr [OF q'(1)] assms(2,3,5) by auto
  ultimately show ?thesis by blast
qed

lemma tf_packet_code [simp]: "req_code (tf_packet t x j) = DATA_PACKET"
  by (simp add: tf_packet_def)

lemma tf_status_not_pending: "tf_status t x \<noteq> APPROVAL_PENDING"
  by (simp add: tf_status_def)

lemma sender_step:
  assumes W: "on_tape W" and t: "transferable file_hash t" and s: "sending t (j # js) x p"
  shows "\<exists>q new. pr_authorize_request W (tf_reply t x j) p = (Inr (), q) \<and> sending t (js @ new) (Suc x) q \<and>
    has_written (map message_of (tf_packets t (Suc x + length js) new)) p q"
proof -
  let ?N = "length (tf_sends t)" and ?i = "tf_id t" and ?k = "Suc x + length js"
  note a = announced_sends [OF t]
  have w: "wired p" and q: "queue_inv (pr_queue p)" "busy (pr_queue p) = set (j # js)" "distinct (j # js)"
    and o': "\<And>k. k < length (j # js) \<Longrightarrow> mq_outgoing (pr_queue p) ((j # js) ! k) =
      Some \<lparr>msg_request = tf_packet t (x + k) ((j # js) ! k), msg_status = None\<rparr>"
    and le: "?k \<le> ?N" "length (j # js) \<le> window_size" "length (j # js) = window_size \<or> ?k = ?N"
    and u: "?k = ?N \<and> pr_uploads p ?i = None \<or> x < tf_announced t \<and> (\<exists>u. pr_uploads p ?i = Some u \<and> uploads t ?k u)"
    using s by (auto simp: sending_def)
  have o: "mq_outgoing (pr_queue p) j = Some \<lparr>msg_request = tf_packet t x j, msg_status = None\<rparr>" using o' [of 0] by simp
  obtain mq where mq: "mq_receive_reply j (tf_status t x) (pr_queue p) = Inr mq" "queue_inv mq" "busy mq = set js"
      "mq_outgoing mq = (mq_outgoing (pr_queue p))(j \<mapsto> \<lparr>msg_request = tf_packet t x j, msg_status = Some (tf_status t x)\<rparr>)"
    using answer_packet [OF q o, of "tf_status t x"] tf_status_not_pending by blast
  let ?p = "p\<lparr>pr_queue := mq\<rparr>"
  have wp: "wired ?p" using w by (simp add: wired_def)
  have left: "mq_outgoing mq (js ! k) = Some \<lparr>msg_request = tf_packet t (Suc x + k) (js ! k), msg_status = None\<rparr>"
    if "k < length js" for k
    using o' [of "Suc k"] that q(3) mq(4) by (auto simp: in_set_conv_nth)
  have reply: "pr_authorize_request W (tf_reply t x j) p =
      (if tf_status t x \<noteq> STATUS_OK then (Inr (), ?p) else reply_data_packet W (tf_packet t x j) ?p)"
    using o mq(1)
    by (cases "tf_status t x = STATUS_OK")
      (simp_all add: pr_authorize_request_def tf_reply_def act_then_def act_simps receive_reply_def effective_status_def
        Let_def queue_receive_reply_def on_queue_def)
  have idle: "sending t js (Suc x) r"
    if "?k = ?N" "pr_queue r = mq" "wired r" "pr_uploads r ?i = None" for r
    using that mq left le(2) q(3) by (auto simp: sending_def)
  show ?thesis
  proof (cases "x < tf_announced t")
    case False
    then have "?k = ?N" "pr_uploads ?p ?i = None" using u by auto
    with idle [of ?p] wp False reply show ?thesis
      by (intro exI [of _ ?p] exI [of _ "[]"]) (simp add: tf_status_def has_written_def)
  next
    case True
    then have ok: "tf_status t x = STATUS_OK" by (simp add: tf_status_def)
    show ?thesis
    proof (cases "pr_uploads p ?i")
      case None
      then have "reply_data_packet W (tf_packet t x j) ?p = (Inr (), ?p)"
        by (simp add: reply_data_packet_def Let_def act_then_def act_simps tf_packet_def data_packet_def)
      with idle [of ?p] wp None u reply ok show ?thesis
        by (intro exI [of _ ?p] exI [of _ "[]"]) (auto simp: has_written_def)
    next
      case (Some u0)
      then have u0: "uploads t ?k u0" using u by auto
      show ?thesis
      proof (cases "?k < ?N")
        case False
        let ?r = "?p\<lparr>pr_uploads := ((pr_uploads p)(?i \<mapsto> u0))(?i := None)\<rparr>"
        have "reply_data_packet W (tf_packet t x j) ?p = (Inr (), ?r)"
          using upload_next_done [OF u0] False Some
          by (simp add: reply_data_packet_def Let_def act_then_def act_simps upload_next_def tf_packet_def data_packet_def)
        moreover have "wired ?r" using w by (simp add: wired_def)
        ultimately show ?thesis
          using idle [of ?r] False le(1) reply ok
          by (intro exI [of _ ?r] exI [of _ "[]"]) (simp add: has_written_def)
      next
        case below: True
        have full: "length js = 4" using below le(3) by (simp add: window_size_def)
        have "Suc x < tf_announced t" using below full a(2,5) by (simp add: window_size_def)
        moreover obtain j' r where r: "act_then (upload_next ?i) (\<lambda>packet. pr_send_request W DATA_PACKET (map_option DataPacketData packet)) ?p = (Inr j', r)"
          "has_written [message_of (tf_packet t ?k j')] ?p r" "wired r" "queue_inv (pr_queue r)"
          "busy (pr_queue r) = set (js @ [j'])" "distinct (js @ [j'])"
          "\<forall>k < length (js @ [j']). mq_outgoing (pr_queue r) ((js @ [j']) ! k) =
             Some \<lparr>msg_request = tf_packet t (Suc x + k) ((js @ [j']) ! k), msg_status = None\<rparr>"
          "\<exists>u'. pr_uploads r ?i = Some u' \<and> uploads t (Suc ?k) u'"
          using send_next_packet [OF W t wp, of js "Suc x" u0] mq(2,3) q(3) le(2) left below Some u0 by auto
        moreover have "reply_data_packet W (tf_packet t x j) ?p = (Inr (), r)"
          using r(1) Some upload_next_packet [OF t u0 below, of ?i]
          by (auto simp: reply_data_packet_def Let_def act_then_def act_simps upload_next_def tf_packet_def data_packet_def
              split: prod.splits sum.splits)
        ultimately show ?thesis
          using reply ok le(1) below full
          by (intro exI [of _ r] exI [of _ "[j']"]) (auto simp: sending_def has_written_def window_size_def)
      qed
    qed
  qed
qed


lemma tf_packets_append: "tf_packets t x (js @ ks) = tf_packets t x js @ tf_packets t (x + length js) ks"
  by (induction js arbitrary: x) simp_all

lemma sender_steps:
  assumes "on_tape W" "transferable file_hash t"
  shows "sending t (ys @ zs) x p \<Longrightarrow>
    \<exists>q new. act_each (pr_authorize_request W) (tf_replies t x ys) p = (Inr (), q) \<and> sending t (zs @ new) (x + length ys) q \<and>
      has_written (map message_of (tf_packets t (x + length (ys @ zs)) new)) p q"
proof (induction ys arbitrary: x p zs)
  case Nil
  then show ?case by (intro exI [of _ p] exI [of _ "[]"]) (simp add: act_simps)
next
  case (Cons j ys)
  then have "sending t (j # ys @ zs) x p" by simp
  from sender_step [OF assms this] obtain q new where
    q: "pr_authorize_request W (tf_reply t x j) p = (Inr (), q)" "sending t (ys @ (zs @ new)) (Suc x) q"
      "has_written (map message_of (tf_packets t (Suc x + length (ys @ zs)) new)) p q" by auto
  from Cons.IH [OF q(2)] obtain r new' where
    r: "act_each (pr_authorize_request W) (tf_replies t (Suc x) ys) q = (Inr (), r)"
      "sending t ((zs @ new) @ new') (Suc x + length ys) r"
      "has_written (map message_of (tf_packets t (Suc x + length (ys @ zs @ new)) new')) q r" by blast
  have "has_written (map message_of (tf_packets t (x + length ((j # ys) @ zs)) (new @ new'))) p r"
    using has_written_trans [OF q(3) r(3)] by (simp add: tf_packets_append add_ac)
  with q(1) r show ?case
    by (intro exI [of _ r] exI [of _ "new @ new'"]) (simp add: act_then_eval)
qed

section \<open>The first packets\<close>

definition filling :: "transfer \<Rightarrow> byte list \<Rightarrow> tape peer \<Rightarrow> bool" where
  "filling t js p \<longleftrightarrow> wired p \<and> queue_inv (pr_queue p) \<and> busy (pr_queue p) = set js \<and> distinct js \<and> length js \<le> length (tf_sends t) \<and>
     (\<forall>k < length js. mq_outgoing (pr_queue p) (js ! k) = Some \<lparr>msg_request = tf_packet t k (js ! k), msg_status = None\<rparr>) \<and>
     (\<exists>u. pr_uploads p (tf_id t) = Some u \<and> uploads t (length js) u)"

lemma filling_window:
  assumes W: "on_tape W" and t: "transferable file_hash t"
  shows "filling t js p \<Longrightarrow> length js + n = window_size \<Longrightarrow>
    \<exists>q new. send_window W (tf_id t) n p = (Inr (), q) \<and> filling t (js @ new) q \<and>
      length (js @ new) \<le> window_size \<and> (length (js @ new) = window_size \<or> length (js @ new) = length (tf_sends t)) \<and>
      has_written (map message_of (tf_packets t (length js) new)) p q"
proof (induction n arbitrary: js p)
  case 0
  then show ?case by (intro exI [of _ p] exI [of _ "[]"]) (simp add: act_simps)
next
  case (Suc n)
  then have w: "wired p" and q: "queue_inv (pr_queue p)" "busy (pr_queue p) = set js" "distinct js"
    and le: "length js \<le> length (tf_sends t)"
    and o: "\<And>k. k < length js \<Longrightarrow> mq_outgoing (pr_queue p) (js ! k) = Some \<lparr>msg_request = tf_packet t (0 + k) (js ! k), msg_status = None\<rparr>"
    by (auto simp: filling_def)
  obtain u where u: "pr_uploads p (tf_id t) = Some u" "uploads t (0 + length js) u" using Suc.prems(1) by (auto simp: filling_def)
  have l: "length js < window_size" using Suc.prems(2) by simp
  then have "card (busy (pr_queue p)) < 255" using q(2,3) by (simp add: distinct_card window_size_def)
  then have slots: "mq_slots (pr_queue p) \<noteq> 0" using q(1) by (auto simp: queue_inv_def)
  have fin: "up_finished u \<longleftrightarrow> length js = length (tf_sends t)"
    using u(2) le
    by (cases "length js < length (tf_sends t)") (auto simp: uploads_def up_finished_def uploading_def)
  show ?case
  proof (cases "length js = length (tf_sends t)")
    case True
    with fin u(1) slots have "send_window W (tf_id t) (Suc n) p = (Inr (), p)"
      by (simp add: act_then_def act_simps)
    with True Suc.prems l show ?thesis by (intro exI [of _ p] exI [of _ "[]"]) simp
  next
    case False
    then have k: "0 + length js < length (tf_sends t)" using le by simp
    from send_next_packet [OF W t w q l o k u] obtain j r where
      r: "act_then (upload_next (tf_id t)) (\<lambda>packet. pr_send_request W DATA_PACKET (map_option DataPacketData packet)) p = (Inr j, r)"
        "has_written [message_of (tf_packet t (length js) j)] p r" "filling t (js @ [j]) r"
      using k by (fastforce simp: filling_def)
    from Suc.IH [OF r(3)] Suc.prems(2) obtain q' new where
      q': "send_window W (tf_id t) n r = (Inr (), q')" "filling t ((js @ [j]) @ new) q'"
        "length ((js @ [j]) @ new) \<le> window_size"
        "length ((js @ [j]) @ new) = window_size \<or> length ((js @ [j]) @ new) = length (tf_sends t)"
        "has_written (map message_of (tf_packets t (length (js @ [j])) new)) r q'" by auto
    have "send_window W (tf_id t) (Suc n) p = (Inr (), q')"
      using r(1) q'(1) u(1) slots fin False
      by (auto simp: act_then_def act_simps available_send_slots_def split: prod.splits sum.splits)
    with q' has_written_trans [OF r(2) q'(5)] show ?thesis
      by (intro exI [of _ q'] exI [of _ "j # new"]) simp
  qed
qed

end
