(* ===== verification/Links.thy ===== *)
theory Links
  imports Transfer_Steps
begin

text \<open>
  Two peers and the bytes on the way between them: each polls whenever bytes have arrived for it, and
  what a poll writes is on its way to the other side. Bytes keep their order, and the network cuts
  them as it likes; nothing else is assumed of the timing. The peers are those of the code, the network
  is the environment.
\<close>

section \<open>Messages on the way\<close>

text \<open>A message with the request it is parsed as, which is not always the one it was formatted from.\<close>

definition framed :: "bytes \<times> request \<Rightarrow> bool" where
  "framed mr \<longleftrightarrow> (\<exists>r. format_request r = Inr (fst mr) \<and> named_codes r \<and> snd mr = received_request r \<and> length (fst mr) < 2 ^ 56)"

lemma framed_parse:
  assumes "framed (m, r)" "addressable (m @ rest)"
  shows "parse_request (m @ rest) out = Inr (of_nat (length m), r)" "length m < 2 ^ 56" "m \<noteq> []"
proof -
  from assms(1) obtain r0 where r0: "format_request r0 = Inr m" "named_codes r0" "r = received_request r0" "length m < 2 ^ 56"
    by (auto simp: framed_def)
  then show "parse_request (m @ rest) out = Inr (of_nat (length m), r)" "length m < 2 ^ 56"
    using request_parse_format assms(2) by auto
  show "m \<noteq> []" using format_request_delivers [OF r0(1)] r0(2) by (auto simp: delivers_def message_header_def magic_bytes_def)
qed

text \<open>The first bytes of a stream of messages hold the first messages.\<close>

lemma drain_prefix:
  "list_all framed ps \<Longrightarrow> addressable (concat (map fst ps)) \<Longrightarrow> s @ t = concat (map fst ps) \<Longrightarrow>
     drain parse_request s out = Inr (rs, b) \<Longrightarrow>
     \<exists>k \<le> length ps. rs = map snd (take k ps) \<and> b @ t = concat (map fst (drop k ps))"
proof (induction ps arbitrary: s rs out)
  case Nil
  then have "s = []" "t = []" by simp_all
  then show ?case using Nil.prems(4) by (subst (asm) drain.simps) (simp add: parse_request_def base_header_size_def sv_size_def)
next
  case (Cons mr ps)
  obtain m r where mr: "mr = (m, r)" by fastforce
  have as: "addressable (s @ t)" using Cons.prems(2,3) by simp
  then have a: "addressable s" by (rule addressable_append [THEN conjunct1])
  from a Cons.prems(4) show ?case
  proof (cases rule: request_frames.drain_cases)
    case pending
    then show ?thesis using Cons.prems(3) by (intro exI [of _ 0]) simp
  next
    case (message n r' rs1)
    have e: "s @ t = m @ concat (map fst ps)" using Cons.prems(3) mr by simp
    have fr: "framed (m, r)" using Cons.prems(1) mr by simp
    note f = framed_parse [OF fr as [unfolded e]]
    have "parse_request (s @ t) out = Inr (n, r')"
      by (rule request_frames.parse_stable [OF as message(1,2)])
    then have n: "n = of_nat (length m)" "r' = r" using f(1) unfolding e by auto
    then have un: "unat n = length m" using f(2) by (simp add: unat_of_nat take_bit_nat_eq_self)
    have "unat n \<le> length s" by (rule request_frames.parse_bound [OF a message(1)])
    then have le: "length m \<le> length s" using un by simp
    have "drop k (s @ t) = drop k s @ t" if "k \<le> length s" for k using that by simp
    from this [OF le] have s: "drop (unat n) s @ t = concat (map fst ps)" unfolding un e by simp
    have "addressable (concat (map fst ps))" using Cons.prems(2) by (simp add: addressable_def)
    from Cons.IH [OF _ this s message(4)] Cons.prems(1) obtain k where
      "k \<le> length ps" "rs1 = map snd (take k ps)" "b @ t = concat (map fst (drop k ps))" by auto
    then show ?thesis using message(3) n(2) mr by (intro exI [of _ "Suc k"]) simp
  qed
qed

lemma drain_framed:
  "list_all framed ps \<Longrightarrow> addressable (concat (map fst ps)) \<Longrightarrow> drain parse_request (concat (map fst ps)) out = Inr (map snd ps, [])"
proof (induction ps arbitrary: out)
  case Nil
  show ?case by (subst drain.simps) (simp add: parse_request_def base_header_size_def sv_size_def)
next
  case (Cons mr ps)
  obtain m r where mr: "mr = (m, r)" by fastforce
  have a: "addressable (m @ concat (map fst ps))" using Cons.prems(2) mr by simp
  have fr: "framed (m, r)" using Cons.prems(1) mr by simp
  note f = framed_parse [OF fr a]
  have u: "unat (of_nat (length m) :: u64) = length m" using f(2) by (simp add: unat_of_nat take_bit_nat_eq_self)
  with f(3) have nz: "(of_nat (length m) :: u64) \<noteq> 0" by (metis length_0_conv unat_0)
  have "addressable (concat (map fst ps))" using a by (rule addressable_append [THEN conjunct2])
  with Cons.IH Cons.prems(1) have "drain parse_request (concat (map fst ps)) r = Inr (map snd ps, [])" by simp
  with request_frames.drain_step [OF a f(1) nz] u show ?case by (simp add: mr)
qed

text \<open>The messages behind the buffer of a peer, which holds none that is complete.\<close>

definition on_way :: "(bytes \<times> request) list \<Rightarrow> tape peer \<Rightarrow> bytes \<Rightarrow> bool" where
  "on_way ps p bs \<longleftrightarrow> pb_buffer p @ bs = concat (map fst ps) \<and> drain parse_request (pb_buffer p) blank_request = Inr ([], pb_buffer p)"

lemma nothing_on_way: "on_way ps p [] \<Longrightarrow> list_all framed ps \<Longrightarrow> addressable (concat (map fst ps)) \<Longrightarrow> ps = []"
  using drain_framed [of ps blank_request] by (auto simp: on_way_def)

definition reading :: "bytes \<Rightarrow> tape peer \<Rightarrow> tape peer" where
  "reading new p = p\<lparr>pb_socket := \<lparr>tp_in = [new], tp_out = [], tp_open = tp_open (pb_socket p)\<rparr>\<rparr>"

definition handling :: "bytes \<Rightarrow> tape peer \<Rightarrow> tape peer" where
  "handling new p = p\<lparr>pb_socket := \<lparr>tp_in = [], tp_out = [], tp_open = True\<rparr>, pb_buffer := pb_buffer p @ new\<rparr>"

lemma poll_on_way:
  assumes W: "on_tape W" and p: "wired p" and ps: "list_all framed ps" "addressable (concat (map fst ps))"
    and c: "on_way ps p bs" and d: "drain parse_request (pb_buffer p @ take n bs) blank_request = Inr d"
    and run: "\<And>k. k \<le> length ps \<Longrightarrow> \<exists>q. act_each (pr_authorize_request W) (map snd (take k ps)) (handling (take n bs) p) = (Inr (), q) \<and>
      pb_buffer q = pb_buffer (handling (take n bs) p) \<and> P k q"
  shows "\<exists>k q b. k \<le> length ps \<and> pr_poll_requests W blank_request (reading (take n bs) p) = (Inr (), q\<lparr>pb_buffer := b\<rparr>) \<and>
    P k q \<and> on_way (drop k ps) (q\<lparr>pb_buffer := b\<rparr>) (drop n bs)"
proof -
  obtain rs b where d': "drain parse_request (pb_buffer p @ take n bs) blank_request = Inr (rs, b)" using d by (cases d) simp
  have e: "(pb_buffer p @ take n bs) @ drop n bs = concat (map fst ps)" using c by (simp add: on_way_def)
  from drain_prefix [OF ps e d'] obtain k where
    k: "k \<le> length ps" "rs = map snd (take k ps)" "b @ drop n bs = concat (map fst (drop k ps))" by auto
  from run [OF k(1)] obtain q where q: "act_each (pr_authorize_request W) (map snd (take k ps)) (handling (take n bs) p) = (Inr (), q)"
    "pb_buffer q = pb_buffer (handling (take n bs) p)" "P k q" by blast
  have a: "addressable (pb_buffer p @ take n bs)"
    using ps(2) unfolding e [symmetric] by (rule addressable_append [THEN conjunct1])
  have "pr_poll_requests W blank_request (reading (take n bs) p) = (Inr (), q\<lparr>pb_buffer := b\<rparr>)"
    using pr_poll_run [of "reading (take n bs) p" W "take n bs" "\<lparr>tp_in = [], tp_out = [], tp_open = True\<rparr>" blank_request rs b q]
      W p a d' q k(2)
    by (simp add: reading_def handling_def wired_def on_tape_def tape_ops_def)
  moreover have "\<forall>out'. parse_request b out' = Inr (0, out')" using request_frames.drain_suffix [OF a d'] by blast
  then have "drain parse_request b blank_request = Inr ([], b)"
    using request_frames.drain_pending [of b] request_frames.drain_suffix [OF a d'] a addressable_append by metis
  ultimately show ?thesis using k q(3) by (auto simp: on_way_def)
qed

section \<open>Two peers and what is on the way between them\<close>

record link =
  lk_sender :: "tape peer"
  lk_receiver :: "tape peer"
  lk_out :: bytes
  lk_back :: bytes

text \<open>Which side polls, and how many bytes have arrived for it.\<close>

datatype turn = Sender_polls nat | Receiver_polls nat

fun link_turn :: "tape peer_world \<Rightarrow> tape peer_world \<Rightarrow> turn \<Rightarrow> link \<Rightarrow> unit result \<times> link" where
  "link_turn W V (Sender_polls n) l =
     (case pr_poll_requests W blank_request (reading (take n (lk_back l)) (lk_sender l)) of
        (res, p) \<Rightarrow> (res, l\<lparr>lk_sender := p, lk_back := drop n (lk_back l), lk_out := lk_out l @ concat (written p)\<rparr>))"
| "link_turn W V (Receiver_polls n) l =
     (case pr_poll_requests V blank_request (reading (take n (lk_out l)) (lk_receiver l)) of
        (res, p) \<Rightarrow> (res, l\<lparr>lk_receiver := p, lk_out := drop n (lk_out l), lk_back := lk_back l @ concat (written p)\<rparr>))"

text \<open>A read brings some bytes and does not end inside the size field of a message.\<close>

definition readable_up_to :: "nat \<Rightarrow> tape peer \<Rightarrow> bytes \<Rightarrow> bool" where
  "readable_up_to n p bs \<longleftrightarrow> 0 < n \<and> n \<le> length bs \<and>
     (case drain parse_request (pb_buffer p @ take n bs) blank_request of Inl _ \<Rightarrow> False | Inr _ \<Rightarrow> True)"

fun clean_turn :: "turn \<Rightarrow> link \<Rightarrow> bool" where
  "clean_turn (Sender_polls n) l = readable_up_to n (lk_sender l) (lk_back l)"
| "clean_turn (Receiver_polls n) l = readable_up_to n (lk_receiver l) (lk_out l)"

inductive link_run :: "tape peer_world \<Rightarrow> tape peer_world \<Rightarrow> link \<Rightarrow> nat \<Rightarrow> link \<Rightarrow> bool"
  for W V l where
  run_start: "link_run W V l 0 l"
| run_turn: "link_run W V l n m \<Longrightarrow> clean_turn t m \<Longrightarrow> link_turn W V t m = (Inr (), m') \<Longrightarrow> link_run W V l (Suc n) m'"

lemma on_way_readable:
  assumes "on_way ps p bs" "list_all framed ps" "addressable (concat (map fst ps))" "bs \<noteq> []"
  shows "readable_up_to (length bs) p bs"
  using drain_framed [OF assms(2,3), of blank_request] assms(1,4) by (simp add: on_way_def readable_up_to_def)

end
