(* ===== verification/Two_Peers.thy ===== *)
theory Two_Peers
  imports Links
begin

text \<open>
  The transfer of a file over a link: the invariant between turns, from the acceptance of the file to
  the answer to its last packet, and the bound on the number of turns.
\<close>

section \<open>Messages that are parsed as what was sent\<close>

definition sound :: "request \<Rightarrow> bool" where
  "sound r \<longleftrightarrow> format_request r = Inr (message_of r) \<and> named_codes r \<and> received_request r = r \<and> length (message_of r) < 2 ^ 56"

definition carries :: "request list \<Rightarrow> tape peer \<Rightarrow> bytes \<Rightarrow> bool" where
  "carries rs p bs \<longleftrightarrow> pb_buffer p @ bs = concat (map message_of rs) \<and> drain parse_request (pb_buffer p) blank_request = Inr ([], pb_buffer p)"

definition as_sent :: "request list \<Rightarrow> (bytes \<times> request) list" where
  "as_sent = map (\<lambda>r. (message_of r, r))"

lemma as_sent_simps [simp]:
  "map fst (as_sent rs) = map message_of rs" "map snd (as_sent rs) = rs" "length (as_sent rs) = length rs"
  "take k (as_sent rs) = as_sent (take k rs)" "drop k (as_sent rs) = as_sent (drop k rs)"
  "as_sent [] = []" "as_sent (r # rs) = (message_of r, r) # as_sent rs"
  by (simp_all add: as_sent_def comp_def take_map drop_map)

lemma carries_on_way: "carries rs p bs \<longleftrightarrow> on_way (as_sent rs) p bs"
  by (simp add: carries_def on_way_def)

lemma framed_sound: "list_all sound rs \<Longrightarrow> list_all framed (as_sent rs)"
  by (induction rs) (auto simp: framed_def sound_def)

lemma poll_carried:
  assumes W: "on_tape W" and p: "wired p" and rs: "list_all sound rs" "addressable (concat (map message_of rs))"
    and c: "carries rs p bs" and d: "drain parse_request (pb_buffer p @ take n bs) blank_request = Inr d"
    and run: "\<And>k. k \<le> length rs \<Longrightarrow> \<exists>q. act_each (pr_authorize_request W) (take k rs) (handling (take n bs) p) = (Inr (), q) \<and>
      pb_buffer q = pb_buffer (handling (take n bs) p) \<and> P k q"
  shows "\<exists>k q b. k \<le> length rs \<and> pr_poll_requests W blank_request (reading (take n bs) p) = (Inr (), q\<lparr>pb_buffer := b\<rparr>) \<and>
    P k q \<and> carries (drop k rs) (q\<lparr>pb_buffer := b\<rparr>) (drop n bs)"
  using poll_on_way [OF W p framed_sound [OF rs(1)] _ _ d, of P] rs(2) c run by (simp add: carries_on_way)

section \<open>What holds between turns\<close>

text \<open>The sender that has offered the file.\<close>

definition offering :: "transfer \<Rightarrow> tape peer \<Rightarrow> bool" where
  "offering t p \<longleftrightarrow> wired p \<and> queue_inv (pr_queue p) \<and> busy (pr_queue p) = {tf_id t} \<and>
     (\<exists>m. mq_outgoing (pr_queue p) (tf_id t) = Some m \<and> req_code (msg_request m) = SEND_FILE) \<and>
     (\<exists>u. pr_uploads p (tf_id t) = Some u \<and> uploads t 0 u)"

definition acceptance :: "transfer \<Rightarrow> request" where
  "acceptance t = \<lparr>req_code = RESPONSE, req_data = Some (ResponseData STATUS_OK), req_message_id = tf_id t\<rparr>"

definition packet_limit :: nat where
  "packet_limit = 2 ^ 49"

text \<open>
  Of the transfer \<open>x\<close> packets are answered; those with the ids \<open>ys\<close> have been received and their
  answers are on the way, and those with the ids \<open>zs\<close> are on the way themselves. \<open>left\<close> bounds the bytes
  that are still to be read on either side.
\<close>

definition linked :: "transfer \<Rightarrow> disk \<Rightarrow> nat \<Rightarrow> link \<Rightarrow> bool" where
  "linked t disk left l \<longleftrightarrow>
     (offering t (lk_sender l) \<and> receiving t disk 0 (lk_receiver l) \<and>
        carries [] (lk_receiver l) (lk_out l) \<and> carries [acceptance t] (lk_sender l) (lk_back l) \<and>
        left = length (lk_out l) + length (lk_back l) + packet_limit * length (tf_sends t) + 8 * length (tf_sends t)) \<or>
     (\<exists>x ys zs. sending t (ys @ zs) x (lk_sender l) \<and> receiving t disk (x + length ys) (lk_receiver l) \<and>
        carries (tf_packets t (x + length ys) zs) (lk_receiver l) (lk_out l) \<and>
        carries (tf_replies t x ys) (lk_sender l) (lk_back l) \<and>
        left = length (lk_out l) + length (lk_back l) + packet_limit * (length (tf_sends t) - (x + length (ys @ zs))) +
          8 * (length (tf_sends t) - (x + length ys)))"

lemma length_format_response: "length (format_response i st) = 8"
  by (simp add: format_response_def message_header_def magic_bytes_def varint_bytes_unfold varint_digits.simps)

lemma length_packet:
  assumes "transferable file_hash t" "x < length (tf_sends t)"
  shows "length (message_of (tf_packet t x j)) < packet_limit"
proof -
  have n: "0 < tf_size t" "tf_size t < 2 ^ 48" using assms(1) by (auto simp: transferable_def)
  have "length (tf_sends t ! x) \<le> tf_size t"
    using sends_nth [OF n(1) assms(2) [unfolded tf_sends_def], folded tf_sends_def] by simp
  moreover have "length (message_of (tf_packet t x j)) \<le> length (tf_sends t ! x) + 37"
    using varint_bytes_length [of "of_nat x"] varint_bytes_length [of "sv_size (tf_sends t ! x)"]
      varint_bytes_length [of "1 + byte_size (of_nat x) + byte_size (sv_size (tf_sends t ! x)) + sv_size (tf_sends t ! x)"]
    by (simp add: message_of_def format_request_def tf_packet_def format_data_packet_def data_packet_def message_header_def
        magic_bytes_def Let_def)
  ultimately show ?thesis using n(2) by (simp add: packet_limit_def)
qed

lemma message_of_acceptance: "message_of (acceptance t) = format_response (tf_id t) STATUS_OK"
  by (simp add: message_of_def acceptance_def format_request_def)

lemma sound_reply [simp]: "sound (tf_reply t x j)" "sound (acceptance t)"
  by (auto simp: sound_def tf_reply_def acceptance_def message_of_def format_request_def named_codes_def received_request_def
      length_format_response status_enum_def tf_status_def)

lemma sound_packet: "transferable file_hash t \<Longrightarrow> x < length (tf_sends t) \<Longrightarrow> sound (tf_packet t x j)"
  using length_packet [of file_hash t x j]
  by (simp add: sound_def packet_limit_def) (simp add: named_codes_def received_request_def tf_packet_def)


lemma offering_accepted:
  assumes W: "on_tape W" and t: "transferable file_hash t" and o: "offering t p"
  shows "\<exists>q new. pr_authorize_request W (acceptance t) p = (Inr (), q) \<and> sending t new 0 q \<and>
    has_written (map message_of (tf_packets t 0 new)) p q"
proof -
  let ?i = "tf_id t"
  obtain m u where m: "mq_outgoing (pr_queue p) ?i = Some m" "req_code (msg_request m) = SEND_FILE"
    and u: "pr_uploads p ?i = Some u" "uploads t 0 u" and q: "wired p" "queue_inv (pr_queue p)" "busy (pr_queue p) = {?i}"
    using o by (auto simp: offering_def)
  obtain mq where mq: "mq_receive_reply ?i STATUS_OK (pr_queue p) = Inr mq"
    using m(1) by (cases "mq_receive_reply ?i STATUS_OK (pr_queue p)") (auto simp: mq_receive_reply_def Let_def split: if_splits)
  have inv: "queue_inv mq" using inv_receive_reply [OF q(2) mq] by simp
  have "busy mq = {}" using receive_reply_Inr [OF mq] q(3) by auto
  with inv u q(1) have f: "filling t [] (p\<lparr>pr_queue := mq\<rparr>)" by (simp add: filling_def wired_def)
  obtain r new where r: "send_window W ?i window_size (p\<lparr>pr_queue := mq\<rparr>) = (Inr (), r)" "filling t new r"
      "length new \<le> window_size" "length new = window_size \<or> length new = length (tf_sends t)"
      "has_written (map message_of (tf_packets t 0 new)) (p\<lparr>pr_queue := mq\<rparr>) r"
    using filling_window [OF W t f, of window_size] by auto
  have "pr_authorize_request W (acceptance t) p = (Inr (), r)"
    using m mq r(1) u(1)
    by (simp add: pr_authorize_request_def acceptance_def act_then_def act_simps receive_reply_def effective_status_def Let_def
        queue_receive_reply_def on_queue_def)
  moreover have "sending t new 0 r" using r(2-4) announced_sends(1) [OF t] by (auto simp: sending_def filling_def)
  ultimately show ?thesis using r(5) by (intro exI [of _ r] exI [of _ new]) (simp add: has_written_def)
qed

section \<open>A turn\<close>

lemma tf_replies_append: "tf_replies t x (js @ ks) = tf_replies t x js @ tf_replies t (x + length js) ks"
  by (induction js arbitrary: x) simp_all

lemma tf_length [simp]: "length (tf_packets t x js) = length js" "length (tf_replies t x js) = length js"
  by (induction js arbitrary: x) simp_all

lemma tf_split:
  assumes "k \<le> length js"
  shows "take k (tf_packets t x js) = tf_packets t x (take k js)" "drop k (tf_packets t x js) = tf_packets t (x + k) (drop k js)"
    "take k (tf_replies t x js) = tf_replies t x (take k js)" "drop k (tf_replies t x js) = tf_replies t (x + k) (drop k js)"
  using tf_packets_append [of t x "take k js" "drop k js"] tf_replies_append [of t x "take k js" "drop k js"] assms
  by (simp_all add: min_def)

lemma sound_replies: "list_all sound (tf_replies t x js)"
  by (induction js arbitrary: x) simp_all

lemma sound_packets:
  assumes "transferable file_hash t"
  shows "x + length js \<le> length (tf_sends t) \<Longrightarrow> list_all sound (tf_packets t x js)"
  using assms by (induction js arbitrary: x) (auto intro: sound_packet)

lemma length_replies: "length (concat (map message_of (tf_replies t x js))) = 8 * length js"
  by (induction js arbitrary: x) (simp_all add: length_format_response)

lemma length_packets:
  assumes "transferable file_hash t"
  shows "x + length js \<le> length (tf_sends t) \<Longrightarrow> length (concat (map message_of (tf_packets t x js))) \<le> packet_limit * length js"
proof (induction js arbitrary: x)
  case (Cons j js)
  have "length (concat (map message_of (tf_packets t (Suc x) js))) \<le> packet_limit * length js"
    by (rule Cons.IH) (use Cons.prems in simp)
  moreover have "length (message_of (tf_packet t x j)) < packet_limit"
    by (rule length_packet [OF assms]) (use Cons.prems in simp)
  ultimately show ?case by simp
qed simp

text \<open>Neither end looks at its socket, as long as it is open, or at the buffer.\<close>

lemma ends_move [simp]:
  "tp_open s \<Longrightarrow> wired p \<Longrightarrow> wired (p\<lparr>pb_socket := s\<rparr>)" "wired (p\<lparr>pb_buffer := b\<rparr>) = wired p"
  "tp_open s \<Longrightarrow> sending t js x p \<Longrightarrow> sending t js x (p\<lparr>pb_socket := s\<rparr>)" "sending t js x (p\<lparr>pb_buffer := b\<rparr>) = sending t js x p"
  "tp_open s \<Longrightarrow> offering t p \<Longrightarrow> offering t (p\<lparr>pb_socket := s\<rparr>)" "offering t (p\<lparr>pb_buffer := b\<rparr>) = offering t p"
  "tp_open s \<Longrightarrow> receiving t disk x p \<Longrightarrow> receiving t disk x (p\<lparr>pb_socket := s\<rparr>)"
  "receiving t disk x (p\<lparr>pb_buffer := b\<rparr>) = receiving t disk x p"
  by (auto simp: wired_def sending_def offering_def receiving_def)

lemma handling_sel [simp]: "pb_buffer (handling new p) = pb_buffer p @ new" "written (handling new p) = []"
  by (simp_all add: handling_def)

lemma written_handling: "has_written ms (handling new p) q \<Longrightarrow> written q = ms \<and> pb_buffer q = pb_buffer p @ new"
  by (simp add: has_written_def handling_def)

lemma readable_drain: "readable_up_to n p bs \<Longrightarrow> 0 < n \<and> n \<le> length bs \<and>
    (\<exists>d. drain parse_request (pb_buffer p @ take n bs) blank_request = Inr d)"
  by (auto simp: readable_up_to_def split: sum.splits)


lemma addressable_stream:
  assumes "transferable file_hash t" "x + length js \<le> length (tf_sends t)" "length js \<le> window_size"
  shows "addressable (concat (map message_of (tf_packets t x js)))"
proof -
  have "packet_limit * length js \<le> packet_limit * 5" using assms(3) by (simp add: window_size_def packet_limit_def)
  with length_packets [OF assms(1,2)] show ?thesis by (simp add: addressable_def packet_limit_def)
qed

lemma sender_turn:
  assumes W: "on_tape W" and t: "transferable file_hash t" and s: "sending t (ys @ zs) x p"
    and c: "carries (tf_replies t x ys) p bs" and d: "readable_up_to n p bs"
  shows "\<exists>k q new. k \<le> length ys \<and> pr_poll_requests W blank_request (reading (take n bs) p) = (Inr (), q) \<and>
    sending t (drop k ys @ zs @ new) (x + k) q \<and> written q = map message_of (tf_packets t (x + length (ys @ zs)) new) \<and>
    carries (tf_replies t (x + k) (drop k ys)) q (drop n bs)"
proof -
  let ?P = "\<lambda>k q. \<exists>new. sending t (drop k ys @ zs @ new) (x + k) q \<and>
    written q = map message_of (tf_packets t (x + length (ys @ zs)) new)"
  have run: "\<exists>q. act_each (pr_authorize_request W) (take k (tf_replies t x ys)) (handling (take n bs) p) = (Inr (), q) \<and>
      pb_buffer q = pb_buffer (handling (take n bs) p) \<and> ?P k q" if "k \<le> length (tf_replies t x ys)" for k
  proof -
    have k: "length (take k ys) = k" "length (take k ys @ drop k ys @ zs) = length (ys @ zs)" using that by simp_all
    have "sending t (take k ys @ (drop k ys @ zs)) x (handling (take n bs) p)"
      using s by (simp add: handling_def flip: append_assoc)
    from sender_steps [OF W t this] obtain q new where
      "act_each (pr_authorize_request W) (tf_replies t x (take k ys)) (handling (take n bs) p) = (Inr (), q)"
      "sending t ((drop k ys @ zs) @ new) (x + k) q"
      "has_written (map message_of (tf_packets t (x + length (ys @ zs)) new)) (handling (take n bs) p) q"
      unfolding k by blast
    then show ?thesis using that tf_split(3) [of k ys t x] written_handling by (intro exI [of _ q]) auto
  qed
  have a: "addressable (concat (map message_of (tf_replies t x ys)))"
    using s by (simp add: addressable_def length_replies sending_def window_size_def)
  obtain d' where d': "drain parse_request (pb_buffer p @ take n bs) blank_request = Inr d'" using readable_drain [OF d] by blast
  have w: "wired p" using s by (simp add: sending_def)
  from poll_carried [OF W w sound_replies a c d' run] show ?thesis
    using tf_split(4) by (force simp del: append_assoc)
qed

lemma offering_turn:
  assumes W: "on_tape W" and t: "transferable file_hash t" and s: "offering t p"
    and c: "carries [acceptance t] p bs" and d: "readable_up_to n p bs"
  shows "\<exists>q. pr_poll_requests W blank_request (reading (take n bs) p) = (Inr (), q) \<and>
    (offering t q \<and> written q = [] \<and> carries [acceptance t] q (drop n bs) \<or>
     (\<exists>new. sending t new 0 q \<and> written q = map message_of (tf_packets t 0 new) \<and> carries [] q (drop n bs)))"
proof -
  let ?P = "\<lambda>k q. k = 0 \<and> offering t q \<and> written q = [] \<or>
    k = 1 \<and> (\<exists>new. sending t new 0 q \<and> written q = map message_of (tf_packets t 0 new))"
  have h: "offering t (handling (take n bs) p)" using s by (simp add: handling_def)
  have run: "\<exists>q. act_each (pr_authorize_request W) (take k [acceptance t]) (handling (take n bs) p) = (Inr (), q) \<and>
      pb_buffer q = pb_buffer (handling (take n bs) p) \<and> ?P k q" if "k \<le> length [acceptance t]" for k
  proof (cases k)
    case 0
    then show ?thesis using h by (simp add: act_simps)
  next
    case (Suc k')
    then have "k = 1" using that by simp
    obtain q new where q: "pr_authorize_request W (acceptance t) (handling (take n bs) p) = (Inr (), q)" "sending t new 0 q"
        "has_written (map message_of (tf_packets t 0 new)) (handling (take n bs) p) q"
      using offering_accepted [OF W t h] by blast
    with written_handling [OF q(3)] \<open>k = 1\<close> show ?thesis
      by (intro exI [of _ q]) (auto simp: act_then_def act_simps)
  qed
  obtain d' where d': "drain parse_request (pb_buffer p @ take n bs) blank_request = Inr d'" using readable_drain [OF d] by blast
  have w: "wired p" using s by (simp add: offering_def)
  have "list_all sound [acceptance t]" "addressable (concat (map message_of [acceptance t]))"
    by (simp_all add: addressable_def message_of_acceptance length_format_response)
  from poll_carried [OF W w this c d' run] show ?thesis by fastforce
qed

lemma receiver_turn:
  assumes W: "on_tape W" and t: "transferable (w_file_hash W) t" and r: "receiving t disk x p"
    and zs: "x + length zs \<le> length (tf_sends t)" "length zs \<le> window_size"
    and c: "carries (tf_packets t x zs) p bs" and d: "readable_up_to n p bs"
  shows "\<exists>k q. k \<le> length zs \<and> pr_poll_requests W blank_request (reading (take n bs) p) = (Inr (), q) \<and>
    receiving t disk (x + k) q \<and> written q = map message_of (tf_replies t x (take k zs)) \<and>
    carries (tf_packets t (x + k) (drop k zs)) q (drop n bs)"
proof -
  let ?P = "\<lambda>k q. receiving t disk (x + k) q \<and> written q = map message_of (tf_replies t x (take k zs))"
  have run: "\<exists>q. act_each (pr_authorize_request W) (take k (tf_packets t x zs)) (handling (take n bs) p) = (Inr (), q) \<and>
      pb_buffer q = pb_buffer (handling (take n bs) p) \<and> ?P k q" if "k \<le> length (tf_packets t x zs)" for k
  proof -
    have "receiving t disk x (handling (take n bs) p)" using r by (simp add: handling_def)
    moreover have k: "length (take k zs) = k" using that by simp
    moreover have "x + length (take k zs) \<le> length (tf_sends t)" using that zs(1) by simp
    ultimately obtain q where
      "act_each (pr_authorize_request W) (tf_packets t x (take k zs)) (handling (take n bs) p) = (Inr (), q)"
      "receiving t disk (x + k) q" "has_written (map message_of (tf_replies t x (take k zs))) (handling (take n bs) p) q"
      using receiver_steps [OF W t] by metis
    then show ?thesis using that tf_split(1) [of k zs t x] written_handling by (intro exI [of _ q]) auto
  qed
  obtain d' where d': "drain parse_request (pb_buffer p @ take n bs) blank_request = Inr d'" using readable_drain [OF d] by blast
  have w: "wired p" using r by (simp add: receiving_def)
  from poll_carried [OF W w sound_packets [OF t zs(1)] addressable_stream [OF t zs] c d' run] show ?thesis
    using tf_split(2) by force
qed


section \<open>The whole run\<close>

lemma bytes_left:
  assumes "transferable file_hash t" "k + length new \<le> length (tf_sends t)"
  shows "length (concat (map message_of (tf_packets t k new))) + packet_limit * (length (tf_sends t) - (k + length new))
    \<le> packet_limit * (length (tf_sends t) - k)"
proof -
  have "packet_limit * length new + packet_limit * (length (tf_sends t) - (k + length new)) = packet_limit * (length (tf_sends t) - k)"
    using assms(2) by (simp flip: distrib_left)
  with length_packets [OF assms] show ?thesis by linarith
qed

lemma linked_running:
  "sending t (ys @ zs) x (lk_sender l) \<Longrightarrow> receiving t disk (x + length ys) (lk_receiver l) \<Longrightarrow>
     carries (tf_packets t (x + length ys) zs) (lk_receiver l) (lk_out l) \<Longrightarrow> carries (tf_replies t x ys) (lk_sender l) (lk_back l) \<Longrightarrow>
     linked t disk (length (lk_out l) + length (lk_back l) + packet_limit * (length (tf_sends t) - (x + length (ys @ zs))) +
       8 * (length (tf_sends t) - (x + length ys))) l"
  unfolding linked_def by blast

lemma linked_sender_turn:
  assumes W: "on_tape W" and t: "transferable file_hash t" and l: "linked t disk left l"
    and d: "readable_up_to n (lk_sender l) (lk_back l)"
  shows "\<exists>l'. link_turn W V (Sender_polls n) l = (Inr (), l') \<and> (\<exists>left' < left. linked t disk left' l')"
proof -
  let ?N = "length (tf_sends t)" and ?bs = "drop n (lk_back l)" and ?l = "\<lambda>q. l\<lparr>lk_sender := q, lk_back := drop n (lk_back l), lk_out := lk_out l @ concat (written q)\<rparr>"
  have n: "0 < n" "n \<le> length (lk_back l)" using readable_drain [OF d] by auto
  from l consider
      (offered) "offering t (lk_sender l)" "receiving t disk 0 (lk_receiver l)" "carries [] (lk_receiver l) (lk_out l)"
        "carries [acceptance t] (lk_sender l) (lk_back l)"
        "left = length (lk_out l) + length (lk_back l) + packet_limit * ?N + 8 * ?N"
    | (running) x ys zs where "sending t (ys @ zs) x (lk_sender l)" "receiving t disk (x + length ys) (lk_receiver l)"
        "carries (tf_packets t (x + length ys) zs) (lk_receiver l) (lk_out l)" "carries (tf_replies t x ys) (lk_sender l) (lk_back l)"
        "left = length (lk_out l) + length (lk_back l) + packet_limit * (?N - (x + length (ys @ zs))) + 8 * (?N - (x + length ys))"
    unfolding linked_def by blast
  then show ?thesis
  proof cases
    case offered
    from offering_turn [OF W t offered(1,4) d] obtain q where
      q: "pr_poll_requests W blank_request (reading (take n (lk_back l)) (lk_sender l)) = (Inr (), q)"
        "offering t q \<and> written q = [] \<and> carries [acceptance t] q ?bs \<or>
         (\<exists>new. sending t new 0 q \<and> written q = map message_of (tf_packets t 0 new) \<and> carries [] q ?bs)" by blast
    have "\<exists>left' < left. linked t disk left' (?l q)"
      using q(2)
    proof
      assume "offering t q \<and> written q = [] \<and> carries [acceptance t] q ?bs"
      with offered n have "linked t disk (left - n) (?l q)" by (auto simp: linked_def)
      with n offered(5) show ?thesis by (intro exI [of _ "left - n"]) simp
    next
      assume "\<exists>new. sending t new 0 q \<and> written q = map message_of (tf_packets t 0 new) \<and> carries [] q ?bs"
      then obtain new where s: "sending t new 0 q" "written q = map message_of (tf_packets t 0 new)" "carries [] q ?bs" by blast
      let ?left = "length (lk_out l @ concat (written q)) + length ?bs + packet_limit * (?N - length new) + 8 * ?N"
      have new: "0 + length new \<le> ?N" using s(1) by (simp add: sending_def)
      have "carries (tf_packets t 0 new) (lk_receiver l) (lk_out l @ concat (written q))"
        using offered(3) s(2) by (auto simp: carries_def)
      with s offered(2) have "linked t disk ?left (?l q)"
        using linked_running [of t "[]" new 0 "?l q" disk] by simp
      moreover have "?left < left" using bytes_left [OF t new] n s(2) offered(5) by simp
      ultimately show ?thesis by blast
    qed
    with q(1) show ?thesis by simp
  next
    case running
    from sender_turn [OF W t running(1,4) d] obtain k q new where
      k: "k \<le> length ys" and q: "pr_poll_requests W blank_request (reading (take n (lk_back l)) (lk_sender l)) = (Inr (), q)"
      and s: "sending t (drop k ys @ zs @ new) (x + k) q" "written q = map message_of (tf_packets t (x + length (ys @ zs)) new)"
        "carries (tf_replies t (x + k) (drop k ys)) q ?bs" by blast
    let ?left = "length (lk_out l @ concat (written q)) + length ?bs + packet_limit * (?N - (x + length (ys @ zs) + length new)) +
      8 * (?N - (x + length ys))"
    have new: "x + length (ys @ zs) + length new \<le> ?N" using s(1) k by (simp add: sending_def)
    have "carries (tf_packets t (x + length ys) (zs @ new)) (lk_receiver l) (lk_out l @ concat (written q))"
      using running(3) s(2) by (simp add: carries_def tf_packets_append add.assoc)
    with s(1,3) running(2) k have "linked t disk ?left (?l q)"
      using linked_running [of t "drop k ys" "zs @ new" "x + k" "?l q" disk] by (simp add: add_ac)
    moreover have "?left < left" using bytes_left [OF t new] n s(2) running(5) by simp
    ultimately show ?thesis using q by auto
  qed
qed

lemma linked_receiver_turn:
  assumes V: "on_tape V" and t: "transferable (w_file_hash V) t" and l: "linked t disk left l"
    and d: "readable_up_to n (lk_receiver l) (lk_out l)"
  shows "\<exists>l'. link_turn W V (Receiver_polls n) l = (Inr (), l') \<and> (\<exists>left' < left. linked t disk left' l')"
proof -
  let ?N = "length (tf_sends t)" and ?bs = "drop n (lk_out l)" and ?l = "\<lambda>q. l\<lparr>lk_receiver := q, lk_out := drop n (lk_out l), lk_back := lk_back l @ concat (written q)\<rparr>"
  have n: "0 < n" "n \<le> length (lk_out l)" using readable_drain [OF d] by auto
  then have "\<not> carries [] (lk_receiver l) (lk_out l)" by (auto simp: carries_def)
  with l obtain x ys zs where running: "sending t (ys @ zs) x (lk_sender l)" "receiving t disk (x + length ys) (lk_receiver l)"
      "carries (tf_packets t (x + length ys) zs) (lk_receiver l) (lk_out l)" "carries (tf_replies t x ys) (lk_sender l) (lk_back l)"
      "left = length (lk_out l) + length (lk_back l) + packet_limit * (?N - (x + length (ys @ zs))) + 8 * (?N - (x + length ys))"
    unfolding linked_def by blast
  have zs: "x + length ys + length zs \<le> ?N" "length zs \<le> window_size" using running(1) by (simp_all add: sending_def)
  from receiver_turn [OF V t running(2) zs running(3) d] obtain k q where
    k: "k \<le> length zs" and q: "pr_poll_requests V blank_request (reading (take n (lk_out l)) (lk_receiver l)) = (Inr (), q)"
    and s: "receiving t disk (x + length ys + k) q" "written q = map message_of (tf_replies t (x + length ys) (take k zs))"
      "carries (tf_packets t (x + length ys + k) (drop k zs)) q ?bs" by blast
  let ?left = "length ?bs + length (lk_back l @ concat (written q)) + packet_limit * (?N - (x + length (ys @ zs))) + 8 * (?N - (x + length ys + k))"
  have "carries (tf_replies t x (ys @ take k zs)) (lk_sender l) (lk_back l @ concat (written q))"
    using running(4) s(2) by (simp add: carries_def tf_replies_append)
  with s(1,3) running(1) k have "linked t disk ?left (?l q)"
    using linked_running [of t "ys @ take k zs" "drop k zs" x "?l q" disk] by (simp add: add_ac)
  moreover have "?left < left" using n s(2) running(5) k zs(1) by (simp add: length_replies)
  ultimately show ?thesis using q by auto
qed

lemma linked_turn:
  assumes "on_tape W" "on_tape V" "transferable (w_file_hash V) t" "linked t disk left l" "clean_turn u l"
  shows "\<exists>l'. link_turn W V u l = (Inr (), l') \<and> (\<exists>left' < left. linked t disk left' l')"
  using linked_sender_turn [OF assms(1,3,4)] linked_receiver_turn [OF assms(2-4)] assms(5) by (cases u) auto

lemma linked_run:
  assumes "on_tape W" "on_tape V" "transferable (w_file_hash V) t" "linked t disk left l"
  shows "link_run W V l n m \<Longrightarrow> \<exists>left'. left' + n \<le> left \<and> linked t disk left' m"
proof (induction rule: link_run.induct)
  case run_start
  then show ?case using assms(4) by auto
next
  case (run_turn n m u m')
  then obtain left' where l: "left' + n \<le> left" "linked t disk left' m" by blast
  from linked_turn [OF assms(1-3) l(2) run_turn(2)] run_turn(3) obtain left'' where "left'' < left'" "linked t disk left'' m'" by auto
  with l(1) show ?case by (intro exI [of _ left'']) simp
qed


lemma carries_nothing: "carries rs p [] \<Longrightarrow> list_all sound rs \<Longrightarrow> addressable (concat (map message_of rs)) \<Longrightarrow> rs = []"
  using nothing_on_way [of "as_sent rs" p] framed_sound [of rs] by (simp add: carries_on_way) (simp add: as_sent_def)

lemma carries_readable:
  "carries rs p bs \<Longrightarrow> list_all sound rs \<Longrightarrow> addressable (concat (map message_of rs)) \<Longrightarrow> bs \<noteq> [] \<Longrightarrow>
     readable_up_to (length bs) p bs"
  using on_way_readable [of "as_sent rs" p bs] framed_sound [of rs] by (simp add: carries_on_way)

lemma addressable_replies: "length js \<le> window_size \<Longrightarrow> addressable (concat (map message_of (tf_replies t x js)))"
  by (simp add: addressable_def length_replies window_size_def)

lemma addressable_acceptance: "addressable (concat (map message_of [acceptance t]))"
  by (simp add: addressable_def message_of_acceptance length_format_response)

text \<open>Between turns either the other side has something to read, or all is done.\<close>

lemma linked_progress:
  assumes t: "transferable file_hash t" and l: "linked t disk left l"
  shows "if lk_out l = [] \<and> lk_back l = []
    then pr_disk (lk_receiver l) = (disk(tf_dest t \<mapsto> tf_content t))(tf_dest t @ ''.fsdownload'' := None) \<and>
      pr_downloads (lk_receiver l) (tf_id t) = None \<and> pr_uploads (lk_sender l) (tf_id t) = None
    else \<exists>u. clean_turn u l"
proof -
  let ?N = "length (tf_sends t)"
  from l consider
      (offered) "carries [] (lk_receiver l) (lk_out l)" "carries [acceptance t] (lk_sender l) (lk_back l)"
    | (running) x ys zs where "sending t (ys @ zs) x (lk_sender l)" "receiving t disk (x + length ys) (lk_receiver l)"
        "carries (tf_packets t (x + length ys) zs) (lk_receiver l) (lk_out l)" "carries (tf_replies t x ys) (lk_sender l) (lk_back l)"
    unfolding linked_def by blast
  then show ?thesis
  proof cases
    case offered
    have "list_all sound [acceptance t]" by simp
    note a = this addressable_acceptance [of t]
    have "lk_out l = []" using offered(1) by (simp add: carries_def)
    moreover have "lk_back l \<noteq> []" using carries_nothing [OF _ a] offered(2) by auto
    moreover have "clean_turn (Sender_polls (length (lk_back l))) l"
      using carries_readable [OF offered(2) a] calculation(2) by simp
    ultimately show ?thesis by (simp add: exI [of _ "Sender_polls (length (lk_back l))"])
  next
    case running
    have w: "x + length ys + length zs \<le> ?N" "length zs \<le> window_size" "length ys \<le> window_size"
      using running(1) by (simp_all add: sending_def)
    note b = sound_replies [of t x ys] addressable_replies [OF w(3), of t x]
    note o = sound_packets [OF t w(1)] addressable_stream [OF t w(1,2)]
    consider (answers) "lk_back l \<noteq> []" | (packets) "lk_out l \<noteq> []" | (quiet) "lk_out l = []" "lk_back l = []" by blast
    then show ?thesis
    proof cases
      case answers
      then have "clean_turn (Sender_polls (length (lk_back l))) l" using carries_readable [OF running(4) b] by simp
      with answers show ?thesis by (simp add: exI [of _ "Sender_polls (length (lk_back l))"])
    next
      case packets
      then have "clean_turn (Receiver_polls (length (lk_out l))) l" using carries_readable [OF running(3) o] by simp
      with packets show ?thesis by (simp add: exI [of _ "Receiver_polls (length (lk_out l))"])
    next
      case quiet
      have "tf_packets t (x + length ys) zs = []" "tf_replies t x ys = []"
        using carries_nothing [OF _ o] carries_nothing [OF _ b] running(3,4) quiet by auto
      then have "zs = []" "ys = []" by (simp_all flip: length_0_conv)
      with running(1) have "x = ?N" "sending t [] x (lk_sender l)" by (auto simp: sending_def window_size_def)
      with announced_sends(2) [OF t] running(2) quiet \<open>ys = []\<close> show ?thesis by (auto simp: sending_def receiving_def)
    qed
  qed
qed


section \<open>The beginning\<close>

text \<open>A peer that waits for nothing.\<close>

definition idle :: "tape peer \<Rightarrow> bool" where
  "idle p \<longleftrightarrow> wired p \<and> queue_inv (pr_queue p) \<and> busy (pr_queue p) = {} \<and> pb_buffer p = [] \<and> written p = []"

lemma idle_wired: "idle p \<Longrightarrow> wired p"
  by (simp add: idle_def)

lemma create_upload_offers:
  assumes W: "on_tape W" and p': "wired p" "queue_inv (pr_queue p)" "busy (pr_queue p) = {}" and p: "pr_uploads p = Map.empty"
    and c: "create_upload W (upload_new source path (tf_request t) 0) p = (Inr (tf_id t), q)"
    and src: "source path = Some (tf_content t)" and n: "0 < tf_size t"
  shows "offering t q \<and> pb_buffer q = pb_buffer p"
proof -
  let ?u = "upload_new source path (tf_request t) 0" and ?i = "tf_id t"
  have u: "up_request ?u = tf_request t" by (simp add: upload_new_def src Let_def)
  let ?r = "\<lambda>j. \<lparr>req_code = SEND_FILE, req_data = Some (SendFileData (tf_request t)), req_message_id = j\<rparr>"
  obtain q1 where s: "pr_send_request W SEND_FILE (Some (SendFileData (tf_request t))) p = (Inr ?i, q1)"
    and q: "q = q1\<lparr>pr_uploads := map_emplace ?i ?u (pr_uploads q1)\<rparr>"
    using c u by (auto simp: create_upload_def act_then_Inr act_simps)
  obtain mq where m: "mq_send_request (?r 0) (pr_queue p) = Inr (?i, mq)"
    using s by (auto simp: pr_send_request_def act_then_Inr act_simps on_queue_def Let_def split: sum.splits)
  have q1: "pr_queue q1 = mq" "pr_uploads q1 = pr_uploads p" "pb_buffer q1 = pb_buffer p" "wired q1"
    using s m W p'(1)
    by (auto simp: pr_send_request_def act_then_Inr act_simps on_queue_def Let_def pb_write_def wired_def
        on_tape_def tape_ops_def split: sum.splits)
  note f = send_request_Inr [OF m] inv_send [OF p'(2) m]
  have "0 < length (tf_sends t)" using sends_rec [OF n, of "tf_content t"] by (simp add: tf_sends_def)
  then have "uploads t 0 ?u"
    using u by (simp add: uploads_def uploading_def upload_new_def src Let_def)
  then show ?thesis using q q1 f p p' by (simp add: offering_def map_emplace_def wired_def)
qed

lemma respond_accepts:
  assumes V: "on_tape V" and t: "transferable file_hash t" and p: "wired p" "pr_downloads p (tf_id t) = None"
    and d: "sf_packet_size d = sf_packet_size (tf_request t)" "sf_total_packets d = sf_total_packets (tf_request t)"
      "sf_hash_algorithm d = sf_hash_algorithm (tf_request t)" "sf_filehash d = sf_filehash (tf_request t)"
      "download_destination p d = tf_dest t"
    and disk: "pr_disk p (tf_dest t) = None" "pr_disk p (tf_dest t @ ''.fsdownload'') = None" "w_can_open V (tf_dest t @ ''.fsdownload'')"
  shows "\<exists>q. respond_to_request V \<lparr>req_code = SEND_FILE, req_data = Some (SendFileData d), req_message_id = tf_id t\<rparr> STATUS_OK p = (Inr (), q) \<and>
    receiving t ((pr_disk p)(tf_dest t @ ''.fsdownload'' \<mapsto> [])) 0 q \<and> has_written [message_of (acceptance t)] p q"
proof -
  let ?i = "tf_id t" and ?r = "\<lparr>req_code = SEND_FILE, req_data = Some (SendFileData d), req_message_id = tf_id t\<rparr>"
  let ?disk = "(pr_disk p)(tf_dest t @ ''.fsdownload'' \<mapsto> [])"
  let ?d = "\<lparr>dl_filename = tf_dest t, dl_temp_filename = tf_dest t @ ''.fsdownload'', dl_request = d, dl_missing_ids = [],
      dl_expected_id = 0, dl_file = \<lparr>of_content = [], of_pos = 0, of_open = True, of_fail = False\<rparr>,
      dl_transferred_size = 0, dl_keep = False\<rparr>"
  obtain mq where mq: "mq_receive_request ?r (pr_queue p) = (?i, mq)"
      "mq_incoming mq ?i = Some \<lparr>msg_request = ?r, msg_status = None\<rparr>"
    by (simp add: mq_receive_request_def Let_def)
  let ?p = "p\<lparr>pr_queue := mq, pr_downloads := (pr_downloads p)(?i \<mapsto> ?d), pr_disk := ?disk\<rparr>"
  have new: "download_new (w_file_hash V) (w_can_open V) (tf_dest t) d (pr_disk p) = Inr (?d, ?disk)"
    using disk by (simp add: download_new_def Let_def)
  have wp: "wired ?p" using p(1) by (simp add: wired_def)
  have "download_destination (p\<lparr>pr_queue := mq\<rparr>) d = tf_dest t" using d(5) by (simp add: download_destination_def)
  then have "respond_to_request V ?r STATUS_OK p = pr_send_reply V ?i STATUS_OK ?p"
    using new mq(1) p(2) disk
    by (simp add: respond_to_request_def act_then_def act_simps queue_receive_request_def on_queue_def create_download_def map_emplace_def)
  with send_reply_writes [OF V wp, of ?i _ STATUS_OK] mq(2) show ?thesis
    using p(1) d announced_sends(1) [OF t]
    by (auto simp: receiving_def wired_def after_writing_def received_so_far_def message_of_acceptance has_written_def)
qed


definition sample_offer :: send_file_data where
  "sample_offer = \<lparr>sf_filepath = path_a, sf_hash_algorithm = SHA512, sf_filehash = replicate 64 3, sf_last_updated = 0,
     sf_packet_size = 2, sf_total_packets = 2\<rparr>"

definition sample_received :: send_file_data where
  "sample_received = sample_offer\<lparr>sf_last_updated := trunc_seconds (epoch_diff * 10 ^ 9)\<rparr>"

definition empty_peer :: "tape peer" where
  "empty_peer = (tape_trusted [] [])\<lparr>pr_disk := Map.empty\<rparr>"

lemma empty_idle: "idle empty_peer"
  by (simp add: idle_def empty_peer_def wired_def tape_trusted_def protocol_v0_def queue_new_inv)


end
