(* ===== verification/Asked_Transfer.thy ===== *)
theory Asked_Transfer
  imports Two_Peers
begin

text \<open>
  The transfer of a file that was asked for: from the request of the peer that wants it, over its
  answer and the offer of the file, which the other side sends at once, to the packets. The offer is
  accepted without the user because it answers a request. From there on the transfer is that of
  \<open>Two_Peers\<close>.
\<close>

section \<open>The owner of the file\<close>

definition ask_for_file :: "bytes \<Rightarrow> byte \<Rightarrow> request" where
  "ask_for_file path i = \<lparr>req_code = RECEIVE_FILE,
     req_data = Some (ReceiveFileData \<lparr>rf_filepath = path, rf_packet_size = packet_size_constant, rf_packet_start = 0\<rparr>), req_message_id = i\<rparr>"

text \<open>What is announced of a file that is asked for, and the offer.\<close>

definition announcement :: "bytes \<Rightarrow> bytes \<Rightarrow> bytes \<Rightarrow> file_time \<Rightarrow> send_file_data" where
  "announcement path content hash time = \<lparr>sf_filepath = path, sf_hash_algorithm = SHA512, sf_filehash = hash,
     sf_last_updated = time, sf_packet_size = packet_size_constant, sf_total_packets = of_nat (length (chunks 4096 content))\<rparr>"

definition offer :: "send_file_data \<Rightarrow> byte \<Rightarrow> request" where
  "offer d j = \<lparr>req_code = SEND_FILE, req_data = Some (SendFileData d), req_message_id = j\<rparr>"

text \<open>A peer that shares the file under a virtual path.\<close>

definition shares :: "tape peer_world \<Rightarrow> bytes \<Rightarrow> bytes \<Rightarrow> bytes \<Rightarrow> file_time \<Rightarrow> tape peer \<Rightarrow> bool" where
  "shares W path content hash time p \<longleftrightarrow>
     (\<exists>host. virtual_to_host (pr_file_mapping p) (path_of_bytes path) = Inr host \<and> host \<noteq> [] \<and>
        \<not> is_forbidden (w_set_contains W) (pr_file_mapping p) host \<and> pr_disk p host = Some content \<and>
        w_last_write_time W host = Inr time) \<and>
     w_file_hash W SHA512 (Some content) = Inr hash"

lemma total_packets:
  assumes "length c < 2 ^ 48"
  shows "sv_size c div 4096 + (if sv_size c mod 4096 = 0 then 0 else 1) = (of_nat (length (chunks 4096 c)) :: u64)"
proof -
  have u: "unat (sv_size c) = length c" using assms by (simp add: sv_size_def unat_of_nat take_bit_nat_eq_self)
  have "unat (sv_size c div 4096) = length c div 4096" "unat (sv_size c mod 4096) = length c mod 4096"
    by (simp_all add: unat_div_distrib unat_mod_distrib u)
  then have "sv_size c div 4096 = of_nat (length c div 4096)" "sv_size c mod 4096 = of_nat (length c mod 4096)"
    by (metis of_nat_unat ucast_id)+
  moreover have "(of_nat (length c mod 4096) :: u64) = 0 \<longleftrightarrow> length c mod 4096 = 0"
    using \<open>unat (sv_size c mod 4096) = length c mod 4096\<close> calculation(2) by (metis unat_eq_zero)
  ultimately show ?thesis by (simp add: length_chunks)
qed

lemma prepare_shared:
  assumes s: "shares W path content hash time p" and c: "content \<noteq> []" "length content < 2 ^ 48"
    and v: "virtual_to_host (pr_file_mapping p) (path_of_bytes path) = Inr host"
  shows "pr_disk p host = Some content"
    "prepare_upload W host path packet_size_constant 0 p =
       Inr (Some (upload_new (pr_disk p) host (announcement path content hash time) 0), STATUS_OK)"
  using s v total_packets [OF c(2)]
  by (auto simp: shares_def prepare_upload_def packet_size_constant_def announcement_def Let_def)

text \<open>The owner answers the request and offers the file.\<close>

lemma owner_step:
  assumes W: "on_tape W" and p: "wired p" "queue_inv (pr_queue p)" "busy (pr_queue p) = {}" "pr_uploads p = Map.empty"
    and s: "shares W path content hash time p" and c: "content \<noteq> []" "length content < 2 ^ 48"
    and m: "\<And>j. format_request (offer (announcement path content hash time) j) = Inr (m j)"
  shows "\<exists>j q. pr_authorize_request W (ask_for_file path i) p = (Inr (), q) \<and>
    has_written [format_response i STATUS_OK, m j] p q \<and>
    (\<forall>dest. offering \<lparr>tf_id = j, tf_request = announcement path content hash time, tf_content = content, tf_dest = dest\<rparr> q)"
proof -
  let ?d = "announcement path content hash time"
  obtain host where v: "virtual_to_host (pr_file_mapping p) (path_of_bytes path) = Inr host" using s by (auto simp: shares_def)
  note u = prepare_shared [OF s c v]
  let ?u = "upload_new (pr_disk p) host ?d 0"
  obtain mq where mq: "mq_receive_request (ask_for_file path i) (pr_queue p) = (i, mq)"
      "mq_incoming mq i = Some \<lparr>msg_request = ask_for_file path i, msg_status = None\<rparr>"
      "mq_outgoing mq = mq_outgoing (pr_queue p)" "mq_slots mq = mq_slots (pr_queue p)"
    by (simp add: mq_receive_request_def ask_for_file_def Let_def)
  let ?p = "p\<lparr>pr_queue := mq\<rparr>"
  have wp: "wired ?p" using p(1) by (simp add: wired_def)
  obtain mq' where r: "pr_send_reply W i STATUS_OK ?p = (Inr (), after_writing mq' [format_response i STATUS_OK] ?p)"
      "mq_outgoing mq' = mq_outgoing (pr_queue p)" "mq_slots mq' = mq_slots (pr_queue p)"
    using send_reply_writes [OF W wp, of i _ STATUS_OK] mq(2-4) by force
  let ?r = "after_writing mq' [format_response i STATUS_OK] ?p"
  have rr: "wired ?r" "queue_inv (pr_queue ?r)" "busy (pr_queue ?r) = {}" "pr_uploads ?r = Map.empty"
    using p r(2,3) by (simp_all add: after_writing_def wired_def queue_inv_def busy_def)
  obtain j mq2 where w: "pr_send_request W SEND_FILE (Some (SendFileData ?d)) ?r = (Inr j, after_writing mq2 [m j] ?r)"
    using send_request_writes [OF W rr(1,2), of SEND_FILE "Some (SendFileData ?d)" m] rr(3) m by (auto simp: offer_def)
  have ud: "up_request ?u = ?d" by (simp add: upload_new_def Let_def split: option.split)
  obtain q where q: "create_upload W ?u ?r = (Inr j, q)" "has_written [m j] ?r q"
    using w ud by (auto simp: create_upload_def act_then_def act_simps has_written_def after_writing_def)
  have "0 < tf_size \<lparr>tf_id = j, tf_request = ?d, tf_content = content, tf_dest = dest\<rparr>" for dest
    by (simp add: tf_size_def announcement_def packet_size_constant_def)
  with create_upload_offers [OF W rr, of "pr_disk p" host] q(1) u(1) have
    "offering \<lparr>tf_id = j, tf_request = ?d, tf_content = content, tf_dest = dest\<rparr> q" for dest by simp
  moreover have "shares W path content hash time ?p" "virtual_to_host (pr_file_mapping ?p) (path_of_bytes path) = Inr host"
    using s v by (simp_all add: shares_def)
  from prepare_shared(2) [OF this(1) c this(2)] have "pr_authorize_request W (ask_for_file path i) p = (Inr (), q)"
    using mq(1) r(1) q(1) v
    by (simp add: pr_authorize_request_def ask_for_file_def respond_to_request_def answer_receive_file_def act_then_def act_simps
        queue_receive_request_def on_queue_def)
  moreover have "has_written [format_response i STATUS_OK, m j] p q"
    using q(2) by (simp add: has_written_def after_writing_def)
  ultimately show ?thesis by blast
qed

section \<open>The peer that asks\<close>

text \<open>
  It has asked for the file under the id \<open>i\<close>, and what it receives of the owner goes to \<open>dest\<close>.
\<close>

definition asks_with_data :: "(byte \<Rightarrow> message option) \<Rightarrow> bool" where
  "asks_with_data outgoing \<longleftrightarrow>
     (\<forall>k m. outgoing k = Some m \<longrightarrow> req_code (msg_request m) = RECEIVE_FILE \<longrightarrow> cast_receive_file (req_data (msg_request m)) \<noteq> None)"

definition asking :: "bytes \<Rightarrow> byte \<Rightarrow> disk \<Rightarrow> path \<Rightarrow> tape peer \<Rightarrow> bool" where
  "asking path i disk dest p \<longleftrightarrow> wired p \<and> pr_downloads p = Map.empty \<and> pr_disk p = disk \<and>
     path_append (path_append (pr_downloads_folder p) (path_of_bytes (pb_device_uuid p))) (relative_path (path_of_bytes path)) = dest \<and>
     asks_with_data (mq_outgoing (pr_queue p)) \<and>
     (\<exists>m d. mq_outgoing (pr_queue p) i = Some m \<and> req_code (msg_request m) = RECEIVE_FILE \<and>
        cast_receive_file (req_data (msg_request m)) = Some d \<and> rf_filepath d = path)"

lemma find_original_finds:
  assumes "asks_with_data outgoing" "outgoing i = Some m" "req_code (msg_request m) = RECEIVE_FILE"
    "cast_receive_file (req_data (msg_request m)) = Some d" "rf_filepath d = sf_filepath data"
  shows "i \<in> set is \<Longrightarrow> \<exists>k. find_original_request is outgoing (Some data) = Inr (Some k) \<and> outgoing k \<noteq> None"
proof (induction "is")
  case (Cons k ks)
  show ?case
  proof (cases "k = i")
    case False
    then have IH: "\<exists>k. find_original_request ks outgoing (Some data) = Inr (Some k) \<and> outgoing k \<noteq> None" using Cons by simp
    show ?thesis
    proof (cases "outgoing k")
      case (Some mk)
      then have "req_code (msg_request mk) = RECEIVE_FILE \<Longrightarrow> \<exists>d. cast_receive_file (req_data (msg_request mk)) = Some d"
        using assms(1) by (auto simp: asks_with_data_def)
      with IH Some show ?thesis by (cases "req_code (msg_request mk) = RECEIVE_FILE") auto
    qed (use IH in simp)
  qed (use assms in simp)
qed simp

text \<open>A status is no part of what is asked for.\<close>

lemma asking_kept:
  assumes p: "asking path i disk dest p" and m: "mq_outgoing (pr_queue p) i = Some m"
    and mq: "\<And>k. mq_outgoing mq k = mq_outgoing (pr_queue p) k \<or> k = i \<and> mq_outgoing mq k = Some (m\<lparr>msg_status := st\<rparr>)"
  shows "asks_with_data (mq_outgoing mq)"
    "\<exists>m d. mq_outgoing mq i = Some m \<and> req_code (msg_request m) = RECEIVE_FILE \<and>
       cast_receive_file (req_data (msg_request m)) = Some d \<and> rf_filepath d = path"
proof -
  show "\<exists>m d. mq_outgoing mq i = Some m \<and> req_code (msg_request m) = RECEIVE_FILE \<and>
      cast_receive_file (req_data (msg_request m)) = Some d \<and> rf_filepath d = path"
    using p m mq [of i] by (auto simp: asking_def)
  show "asks_with_data (mq_outgoing mq)"
    unfolding asks_with_data_def
  proof (intro allI impI)
    fix k n
    assume n: "mq_outgoing mq k = Some n" "req_code (msg_request n) = RECEIVE_FILE"
    have "mq_outgoing (pr_queue p) k = Some n \<or> k = i \<and> n = m\<lparr>msg_status := st\<rparr>" using mq [of k] n(1) by auto
    with n(2) p m show "cast_receive_file (req_data (msg_request n)) \<noteq> None"
      by (auto simp: asking_def asks_with_data_def)
  qed
qed

text \<open>The answer only shows that the request is being looked at: the file is still to be offered.\<close>

lemma asker_answered:
  assumes p: "asking path i disk dest p"
  shows "\<exists>q. pr_authorize_request V \<lparr>req_code = RESPONSE, req_data = Some (ResponseData STATUS_OK), req_message_id = i\<rparr> p = (Inr (), q) \<and>
    asking path i disk dest q \<and> has_written [] p q"
proof -
  obtain m d where m: "mq_outgoing (pr_queue p) i = Some m" "req_code (msg_request m) = RECEIVE_FILE"
    "cast_receive_file (req_data (msg_request m)) = Some d" "rf_filepath d = path" using p by (auto simp: asking_def)
  obtain mq where mq: "mq_receive_reply i APPROVAL_PENDING (pr_queue p) = Inr mq"
      "\<And>k. mq_outgoing mq k = mq_outgoing (pr_queue p) k \<or> k = i \<and> mq_outgoing mq k = Some (m\<lparr>msg_status := Some APPROVAL_PENDING\<rparr>)"
    using m(1) by (cases "msg_status m = Some APPROVAL_PENDING") (auto simp: mq_receive_reply_def Let_def)
  have "pr_authorize_request V \<lparr>req_code = RESPONSE, req_data = Some (ResponseData STATUS_OK), req_message_id = i\<rparr> p = (Inr (), p\<lparr>pr_queue := mq\<rparr>)"
    using m mq(1)
    by (simp add: pr_authorize_request_def act_then_def act_simps receive_reply_def effective_status_def Let_def
        queue_receive_reply_def on_queue_def)
  moreover have "asking path i disk dest (p\<lparr>pr_queue := mq\<rparr>)"
    using p asking_kept [OF p m(1) mq(2)] by (simp add: asking_def wired_def)
  ultimately show ?thesis by (intro exI [of _ "p\<lparr>pr_queue := mq\<rparr>"]) (simp add: has_written_def)
qed


text \<open>The transfer that is offered under the id \<open>j\<close>.\<close>

definition asked_transfer :: "send_file_data \<Rightarrow> bytes \<Rightarrow> path \<Rightarrow> byte \<Rightarrow> transfer" where
  "asked_transfer d content dest j = \<lparr>tf_id = j, tf_request = d, tf_content = content, tf_dest = dest\<rparr>"

text \<open>The offer of the file that was asked for is accepted.\<close>

lemma asker_offered:
  assumes V: "on_tape V" "\<And>m. set (w_order V m) = dom m" and p: "asking path i disk dest p"
    and t: "transferable file_hash (asked_transfer d content dest j)" "sf_filepath d = path"
    and disk: "disk dest = None" "disk (dest @ ''.fsdownload'') = None" "w_can_open V (dest @ ''.fsdownload'')"
  shows "\<exists>q. pr_authorize_request V (received_request (offer d j)) p = (Inr (), q) \<and>
    receiving (asked_transfer d content dest j) (disk(dest @ ''.fsdownload'' \<mapsto> [])) 0 q \<and>
    has_written [message_of (acceptance (asked_transfer d content dest j))] p q"
proof -
  let ?t = "asked_transfer d content dest j" and ?d = "d\<lparr>sf_last_updated := trunc_seconds (sf_last_updated d + epoch_diff * 10 ^ 9)\<rparr>"
  let ?r = "\<lparr>req_code = SEND_FILE, req_data = Some (SendFileData ?d), req_message_id = j\<rparr>"
  obtain m o' where m: "mq_outgoing (pr_queue p) i = Some m" "req_code (msg_request m) = RECEIVE_FILE"
    "cast_receive_file (req_data (msg_request m)) = Some o'" "rf_filepath o' = path" using p by (auto simp: asking_def)
  have "i \<in> set (w_order V (mq_outgoing (pr_queue p)))" using V(2) m(1) by auto
  moreover have "asks_with_data (mq_outgoing (pr_queue p))" "rf_filepath o' = sf_filepath ?d" using p m(4) t(2) by (simp_all add: asking_def)
  ultimately obtain k n where
    k: "find_original_request (w_order V (mq_outgoing (pr_queue p))) (mq_outgoing (pr_queue p)) (Some ?d) = Inr (Some k)"
      "mq_outgoing (pr_queue p) k = Some n" using find_original_finds [of "mq_outgoing (pr_queue p)" i m o' ?d] m(1-3) by blast
  obtain mq where mq: "mq_receive_reply k STATUS_OK (pr_queue p) = Inr mq"
    using k(2) by (cases "mq_receive_reply k STATUS_OK (pr_queue p)") (auto simp: mq_receive_reply_def Let_def split: if_splits)
  let ?p = "p\<lparr>pr_queue := mq\<rparr>"
  have "pr_authorize_request V (received_request (offer d j)) p = respond_to_request V ?r STATUS_OK ?p"
    using k(1) mq
    by (simp add: pr_authorize_request_def received_request_def offer_def authorize_send_file_def act_then_def act_simps
        queue_receive_reply_def on_queue_def)
  moreover have "wired ?p" "pr_downloads ?p (tf_id ?t) = None" "pr_disk ?p = disk" "download_destination ?p ?d = dest" "tf_dest ?t = dest"
    "tf_id ?t = j" "tf_request ?t = d"
    using p t(2) by (auto simp: asking_def wired_def download_destination_def asked_transfer_def)
  ultimately show ?thesis
    using respond_accepts [OF V(1) t(1), of ?p ?d] disk by (auto simp: has_written_def)
qed


section \<open>The messages on the way\<close>

definition owning :: "tape peer_world \<Rightarrow> bytes \<Rightarrow> bytes \<Rightarrow> bytes \<Rightarrow> file_time \<Rightarrow> tape peer \<Rightarrow> bool" where
  "owning W path content hash time p \<longleftrightarrow> wired p \<and> queue_inv (pr_queue p) \<and> busy (pr_queue p) = {} \<and> pr_uploads p = Map.empty \<and>
     shares W path content hash time p"

text \<open>What the peer that asks can take.\<close>

definition acceptable :: "tape peer_world \<Rightarrow> bytes \<Rightarrow> bytes \<Rightarrow> bytes \<Rightarrow> file_time \<Rightarrow> path \<Rightarrow> disk \<Rightarrow> bool" where
  "acceptable V path content hash time dest disk \<longleftrightarrow> content \<noteq> [] \<and> length content < 2 ^ 48 \<and> length path < 2 ^ 32 \<and> length hash = 64 \<and>
     (\<exists>e. to_epoch time = Inr e) \<and> w_file_hash V SHA512 (Some content) = Inr hash \<and>
     disk dest = None \<and> disk (dest @ ''.fsdownload'') = None \<and> w_can_open V (dest @ ''.fsdownload'')"

lemma asked_transferable:
  assumes "acceptable V path content hash time dest disk"
  shows "transferable (w_file_hash V) (asked_transfer (announcement path content hash time) content dest j)"
  using assms
  by (simp add: acceptable_def transferable_def asked_transfer_def announcement_def tf_size_def tf_announced_def packet_size_constant_def)

definition answers :: "byte \<Rightarrow> send_file_data \<Rightarrow> byte \<Rightarrow> (bytes \<times> request) list" where
  "answers i d j =
     [(format_response i STATUS_OK, \<lparr>req_code = RESPONSE, req_data = Some (ResponseData STATUS_OK), req_message_id = i\<rparr>),
      (message_of (offer d j), received_request (offer d j))]"

lemma framed_request:
  assumes "length path < 2 ^ 32"
  shows "list_all framed [(message_of (ask_for_file path i), ask_for_file path i)]"
    "addressable (concat (map fst [(message_of (ask_for_file path i), ask_for_file path i)]))"
proof -
  have "length (message_of (ask_for_file path i)) < 2 ^ 33"
    using assms varint_bytes_length [of packet_size_constant] varint_bytes_length [of 0] varint_bytes_length [of "sv_size path"]
      varint_bytes_length [of "byte_size (sv_size path) + sv_size path + byte_size packet_size_constant + byte_size 0"]
    by (simp add: message_of_def format_request_def ask_for_file_def format_receive_file_def message_header_def magic_bytes_def Let_def)
  then show "list_all framed [(message_of (ask_for_file path i), ask_for_file path i)]"
    "addressable (concat (map fst [(message_of (ask_for_file path i), ask_for_file path i)]))"
    by (auto simp: framed_def addressable_def message_of_def format_request_def ask_for_file_def named_codes_def received_request_def
        intro!: exI [of _ "ask_for_file path i"])
qed

lemma format_offer:
  assumes "acceptable V path content hash time dest disk"
  shows "format_request (offer (announcement path content hash time) j) = Inr (message_of (offer (announcement path content hash time) j))"
    "length (message_of (offer (announcement path content hash time) j)) < 2 ^ 33"
proof -
  let ?d = "announcement path content hash time"
  obtain e where e: "to_epoch time = Inr e" "length hash = 64" "length path < 2 ^ 32" using assms by (auto simp: acceptable_def)
  have n: "sv_size hash = 64" using e(2) by (simp add: sv_size_def)
  then obtain m where m: "format_request (offer ?d j) = Inr m"
    using e by (simp add: format_request_def offer_def format_send_file_def announcement_def Let_def)
  then show "format_request (offer ?d j) = Inr (message_of (offer ?d j))" by (simp add: message_of_def)
  have "length (serialize_u64 e) = 8" by (simp add: serialize_u64_def)
  with m e n show "length (message_of (offer ?d j)) < 2 ^ 33"
    using varint_bytes_length [of packet_size_constant] varint_bytes_length [of "of_nat (length (chunks 4096 content))"]
      varint_bytes_length [of "sv_size path"]
      varint_bytes_length [of "byte_size (sv_size path) + sv_size path + 1 + 64 + 8 +
             byte_size packet_size_constant + byte_size (of_nat (length (chunks 4096 content)))"]
    by (auto simp: message_of_def format_request_def offer_def format_send_file_def announcement_def message_header_def magic_bytes_def Let_def)
qed

lemma framed_answers:
  assumes "acceptable V path content hash time dest disk"
  shows "list_all framed (answers i (announcement path content hash time) j)"
    "addressable (concat (map fst (answers i (announcement path content hash time) j)))"
proof -
  let ?d = "announcement path content hash time"
  let ?r = "\<lparr>req_code = RESPONSE, req_data = Some (ResponseData STATUS_OK), req_message_id = i\<rparr>"
  have "framed (format_response i STATUS_OK, ?r)"
    unfolding framed_def
    by (rule exI [of _ ?r]) (simp add: format_request_def named_codes_def received_request_def length_format_response status_enum_def)
  moreover have "framed (message_of (offer ?d j), received_request (offer ?d j))"
    unfolding framed_def
    by (rule exI [of _ "offer ?d j"]) (use format_offer [OF assms, of j] in \<open>simp add: named_codes_def offer_def\<close>)
  ultimately show "list_all framed (answers i ?d j)" by (simp add: answers_def)
  show "addressable (concat (map fst (answers i ?d j)))"
    using format_offer(2) [OF assms, of j] by (simp add: answers_def addressable_def length_format_response)
qed


section \<open>A turn\<close>

lemma asked_move [simp]:
  "tp_open s \<Longrightarrow> owning W path content hash time p \<Longrightarrow> owning W path content hash time (p\<lparr>pb_socket := s\<rparr>)"
  "owning W path content hash time (p\<lparr>pb_buffer := b\<rparr>) = owning W path content hash time p"
  "tp_open s \<Longrightarrow> asking path i disk dest p \<Longrightarrow> asking path i disk dest (p\<lparr>pb_socket := s\<rparr>)"
  "asking path i disk dest (p\<lparr>pb_buffer := b\<rparr>) = asking path i disk dest p"
  by (auto simp: owning_def shares_def asking_def wired_def)

lemma owner_turn:
  assumes W: "on_tape W" and a: "acceptable V path content hash time dest disk" and p: "owning W path content hash time p"
    and c: "on_way [(message_of (ask_for_file path i), ask_for_file path i)] p bs" and d: "readable_up_to n p bs"
  shows "\<exists>q. pr_poll_requests W blank_request (reading (take n bs) p) = (Inr (), q) \<and>
    (owning W path content hash time q \<and> written q = [] \<and>
       on_way [(message_of (ask_for_file path i), ask_for_file path i)] q (drop n bs) \<or>
     (\<exists>j. offering (asked_transfer (announcement path content hash time) content dest j) q \<and>
        written q = map fst (answers i (announcement path content hash time) j) \<and> on_way [] q (drop n bs)))"
proof -
  let ?d = "announcement path content hash time" and ?ps = "[(message_of (ask_for_file path i), ask_for_file path i)]"
  let ?P = "\<lambda>k q. k = 0 \<and> owning W path content hash time q \<and> written q = [] \<or>
    k = 1 \<and> (\<exists>j. offering (asked_transfer ?d content dest j) q \<and> written q = map fst (answers i ?d j))"
  have h: "owning W path content hash time (handling (take n bs) p)" using p by (simp add: handling_def)
  have run: "\<exists>q. act_each (pr_authorize_request W) (map snd (take k ?ps)) (handling (take n bs) p) = (Inr (), q) \<and>
      pb_buffer q = pb_buffer (handling (take n bs) p) \<and> ?P k q" if "k \<le> length ?ps" for k
  proof (cases k)
    case 0
    then show ?thesis using h by (simp add: act_simps)
  next
    case (Suc k')
    then have k: "k = 1" using that by simp
    have ac: "content \<noteq> []" "length content < 2 ^ 48" using a by (auto simp: acceptable_def)
    obtain j q where q: "pr_authorize_request W (ask_for_file path i) (handling (take n bs) p) = (Inr (), q)"
        "has_written [format_response i STATUS_OK, message_of (offer ?d j)] (handling (take n bs) p) q"
        "offering (asked_transfer ?d content dest j) q"
      using owner_step [OF W _ _ _ _ _ ac format_offer(1) [OF a], of "handling (take n bs) p" i] h
      unfolding owning_def asked_transfer_def by blast
    with written_handling [OF q(2)] k show ?thesis
      by (intro exI [of _ q]) (auto simp: act_then_def act_simps answers_def)
  qed
  obtain d' where d': "drain parse_request (pb_buffer p @ take n bs) blank_request = Inr d'" using readable_drain [OF d] by blast
  have w: "wired p" "length path < 2 ^ 32" using p a by (simp_all add: owning_def acceptable_def)
  from poll_on_way [OF W w(1) framed_request [OF w(2)] c d' run] obtain k q b where
    "pr_poll_requests W blank_request (reading (take n bs) p) = (Inr (), q\<lparr>pb_buffer := b\<rparr>)" "?P k q"
    "on_way (drop k ?ps) (q\<lparr>pb_buffer := b\<rparr>) (drop n bs)" by blast
  then show ?thesis by (intro exI [of _ "q\<lparr>pb_buffer := b\<rparr>"]) auto
qed

text \<open>The peer that asks, when it has handled \<open>k\<close> of the answer and the offer.\<close>

definition answered :: "transfer \<Rightarrow> bytes \<Rightarrow> byte \<Rightarrow> disk \<Rightarrow> nat \<Rightarrow> bytes list \<Rightarrow> tape peer \<Rightarrow> bool" where
  "answered t path i disk k ms p \<longleftrightarrow>
     (if k < 2 then asking path i disk (tf_dest t) p \<and> ms = []
      else k = 2 \<and> receiving t (disk(tf_dest t @ ''.fsdownload'' \<mapsto> [])) 0 p \<and> ms = [message_of (acceptance t)])"

lemma answered_move [simp]:
  "answered t path i disk k ms (p\<lparr>pb_buffer := b\<rparr>) = answered t path i disk k ms p"
  by (simp add: answered_def)

lemma asker_steps:
  assumes V: "on_tape V" "\<And>m. set (w_order V m) = dom m" and a: "acceptable V path content hash time dest disk"
    and p: "asking path i disk dest p" and k: "k0 < 2" "k \<le> length (drop k0 (answers i (announcement path content hash time) j))"
  shows "\<exists>q ms. act_each (pr_authorize_request V) (map snd (take k (drop k0 (answers i (announcement path content hash time) j)))) p = (Inr (), q) \<and>
    answered (asked_transfer (announcement path content hash time) content dest j) path i disk (k0 + k) ms q \<and> has_written ms p q"
proof -
  let ?d = "announcement path content hash time"
  let ?r = "\<lparr>req_code = RESPONSE, req_data = Some (ResponseData STATUS_OK), req_message_id = i\<rparr>"
  have dest: "tf_dest (asked_transfer ?d content dest j) = dest" by (simp add: asked_transfer_def)
  have "sf_filepath ?d = path" by (simp add: announcement_def)
  note offered = asker_offered [OF V _ asked_transferable [OF a] this, of i disk]
  have disk: "disk dest = None" "disk (dest @ ''.fsdownload'') = None" "w_can_open V (dest @ ''.fsdownload'')"
    using a by (simp_all add: acceptable_def)
  obtain q where q: "pr_authorize_request V ?r p = (Inr (), q)" "asking path i disk dest q" "has_written [] p q"
    using asker_answered [OF p] by blast
  from offered [OF p disk, of j] obtain r where r: "pr_authorize_request V (received_request (offer ?d j)) p = (Inr (), r)"
    "answered (asked_transfer ?d content dest j) path i disk 2 [message_of (acceptance (asked_transfer ?d content dest j))] r"
    "has_written [message_of (acceptance (asked_transfer ?d content dest j))] p r" by (auto simp: answered_def dest)
  from offered [OF q(2) disk, of j] obtain s where s: "pr_authorize_request V (received_request (offer ?d j)) q = (Inr (), s)"
    "answered (asked_transfer ?d content dest j) path i disk 2 [message_of (acceptance (asked_transfer ?d content dest j))] s"
    "has_written [message_of (acceptance (asked_transfer ?d content dest j))] q s" by (auto simp: answered_def dest)
  have "has_written [message_of (acceptance (asked_transfer ?d content dest j))] p s" using has_written_trans [OF q(3) s(3)] by simp
  note facts = p q r(1,2,3) s(1,2) this dest
  have n: "length (answers i ?d j) = 2" by (simp add: answers_def)
  with k consider "k = 0" | "k0 = 0" "k = 1" | "k0 = 0" "k = 2" | "k0 = 1" "k = 1" by fastforce
  then show ?thesis
  proof cases
    case 1
    then show ?thesis using k(1) p dest by (intro exI [of _ p] exI [of _ "[]"]) (simp add: act_simps answered_def)
  next
    case 2
    then show ?thesis using q dest by (intro exI [of _ q] exI [of _ "[]"]) (simp add: act_simps act_then_def answered_def answers_def)
  next
    case 3
    then show ?thesis using facts
      by (intro exI [of _ s] exI [of _ "[message_of (acceptance (asked_transfer ?d content dest j))]"])
        (simp add: act_simps act_then_def answers_def numeral_2_eq_2)
  next
    case 4
    then show ?thesis using facts
      by (intro exI [of _ r] exI [of _ "[message_of (acceptance (asked_transfer ?d content dest j))]"])
        (simp add: act_simps act_then_def answers_def numeral_2_eq_2)
  qed
qed

lemma asker_turn:
  assumes V: "on_tape V" "\<And>m. set (w_order V m) = dom m" and a: "acceptable V path content hash time dest disk"
    and p: "asking path i disk dest p" and k: "k0 < 2"
    and c: "on_way (drop k0 (answers i (announcement path content hash time) j)) p bs" and d: "readable_up_to n p bs"
  shows "\<exists>q k. pr_poll_requests V blank_request (reading (take n bs) p) = (Inr (), q) \<and>
    answered (asked_transfer (announcement path content hash time) content dest j) path i disk k (written q) q \<and>
    on_way (drop k (answers i (announcement path content hash time) j)) q (drop n bs)"
proof -
  let ?d = "announcement path content hash time" and ?ps = "drop k0 (answers i (announcement path content hash time) j)"
  let ?P = "\<lambda>k q. answered (asked_transfer ?d content dest j) path i disk (k0 + k) (written q) q"
  have h: "asking path i disk dest (handling (take n bs) p)" using p by (simp add: handling_def)
  have run: "\<exists>q. act_each (pr_authorize_request V) (map snd (take k ?ps)) (handling (take n bs) p) = (Inr (), q) \<and>
      pb_buffer q = pb_buffer (handling (take n bs) p) \<and> ?P k q" if "k \<le> length ?ps" for k
    using asker_steps [OF V a h k that] by (auto simp: has_written_def)
  obtain d' where d': "drain parse_request (pb_buffer p @ take n bs) blank_request = Inr d'" using readable_drain [OF d] by blast
  have w: "wired p" using p by (simp add: asking_def)
  note f = framed_answers [OF a, of i j]
  have "list_all framed ?ps" using f(1) by (auto simp: list_all_iff dest: in_set_dropD)
  moreover have "addressable (concat (map fst ?ps))"
    using f(2) k by (auto simp: addressable_def answers_def less_2_cases_iff)
  ultimately obtain k q b where "pr_poll_requests V blank_request (reading (take n bs) p) = (Inr (), q\<lparr>pb_buffer := b\<rparr>)" "?P k q"
    "on_way (drop k ?ps) (q\<lparr>pb_buffer := b\<rparr>) (drop n bs)"
    using poll_on_way [OF V(1) w _ _ c d' run] by blast
  then show ?thesis by (intro exI [of _ "q\<lparr>pb_buffer := b\<rparr>"] exI [of _ "k0 + k"]) (simp add: add.commute)
qed


section \<open>What holds between turns\<close>

definition packets_cost :: "bytes \<Rightarrow> nat" where
  "packets_cost content = packet_limit * length (sends 4096 content) + 8 * length (sends 4096 content)"

text \<open>
  The request is on its way back, or the answer and the offer are on the way out, at least the offer,
  or the transfer is running. \<open>left\<close> bounds the bytes that are still to be read on either side.
\<close>

definition requested :: "tape peer_world \<Rightarrow> bytes \<Rightarrow> bytes \<Rightarrow> bytes \<Rightarrow> file_time \<Rightarrow> path \<Rightarrow> disk \<Rightarrow> byte \<Rightarrow> nat \<Rightarrow> link \<Rightarrow> bool" where
  "requested W path content hash time dest disk i left l \<longleftrightarrow>
     (let d = announcement path content hash time; t = asked_transfer d content dest in
      (owning W path content hash time (lk_sender l) \<and> asking path i disk dest (lk_receiver l) \<and>
         on_way [] (lk_receiver l) (lk_out l) \<and> on_way [(message_of (ask_for_file path i), ask_for_file path i)] (lk_sender l) (lk_back l) \<and>
         left = length (lk_out l) + length (lk_back l) + 2 ^ 34 + 8 + packets_cost content) \<or>
      (\<exists>j k. offering (t j) (lk_sender l) \<and> asking path i disk dest (lk_receiver l) \<and> k < 2 \<and>
         on_way (drop k (answers i d j)) (lk_receiver l) (lk_out l) \<and> on_way [] (lk_sender l) (lk_back l) \<and>
         left = length (lk_out l) + length (lk_back l) + 8 + packets_cost content) \<or>
      (\<exists>j. linked (t j) (disk(dest @ ''.fsdownload'' \<mapsto> [])) left l))"

lemma asked_fields [simp]:
  "tf_dest (asked_transfer d content dest j) = dest" "tf_content (asked_transfer d content dest j) = content"
  "tf_sends (asked_transfer (announcement path content hash time) content dest j) = sends 4096 content"
  by (simp_all add: asked_transfer_def tf_sends_def tf_size_def announcement_def packet_size_constant_def)

lemma on_way_nil: "on_way [] p bs \<longleftrightarrow> pb_buffer p = [] \<and> bs = [] \<and> drain parse_request [] blank_request = Inr ([], [])"
  by (auto simp: on_way_def)

lemma on_way_none: "on_way [] p bs \<longleftrightarrow> carries [] p bs"
  by (simp add: carries_on_way)

lemma on_way_written: "on_way [] p bs \<Longrightarrow> on_way ps p (bs @ concat (map fst ps))"
  by (auto simp: on_way_def)

lemma linked_offered:
  "offering t (lk_sender l) \<Longrightarrow> receiving t disk 0 (lk_receiver l) \<Longrightarrow> on_way [] (lk_receiver l) (lk_out l) \<Longrightarrow>
     on_way [] (lk_sender l) bs \<Longrightarrow> lk_back l = bs @ message_of (acceptance t) \<Longrightarrow>
     linked t disk (length (lk_out l) + length (lk_back l) + packet_limit * length (tf_sends t) + 8 * length (tf_sends t)) l"
  unfolding linked_def by (rule disjI1) (auto simp: on_way_def carries_def)

lemma requested_owner_turn:
  assumes W: "on_tape W" and a: "acceptable V path content hash time dest disk"
    and l: "owning W path content hash time (lk_sender l)" "asking path i disk dest (lk_receiver l)" "on_way [] (lk_receiver l) (lk_out l)"
      "on_way [(message_of (ask_for_file path i), ask_for_file path i)] (lk_sender l) (lk_back l)"
    and d: "readable_up_to n (lk_sender l) (lk_back l)"
  shows "\<exists>l'. link_turn W V (Sender_polls n) l = (Inr (), l') \<and>
    (\<exists>left' < length (lk_out l) + length (lk_back l) + 2 ^ 34 + 8 + packets_cost content. requested W path content hash time dest disk i left' l')"
proof -
  let ?d = "announcement path content hash time" and ?ps = "[(message_of (ask_for_file path i), ask_for_file path i)]"
  let ?l = "\<lambda>q. l\<lparr>lk_sender := q, lk_back := drop n (lk_back l), lk_out := lk_out l @ concat (written q)\<rparr>"
  have n: "0 < n" "n \<le> length (lk_back l)" using readable_drain [OF d] by auto
  from owner_turn [OF W a l(1,4) d] obtain q where
    q: "pr_poll_requests W blank_request (reading (take n (lk_back l)) (lk_sender l)) = (Inr (), q)"
    and cases: "owning W path content hash time q \<and> written q = [] \<and> on_way ?ps q (drop n (lk_back l)) \<or>
     (\<exists>j. offering (asked_transfer ?d content dest j) q \<and> written q = map fst (answers i ?d j) \<and> on_way [] q (drop n (lk_back l)))"
    by blast
  from cases have "\<exists>left' < length (lk_out l) + length (lk_back l) + 2 ^ 34 + 8 + packets_cost content.
      requested W path content hash time dest disk i left' (?l q)"
  proof
    assume c: "owning W path content hash time q \<and> written q = [] \<and> on_way ?ps q (drop n (lk_back l))"
    let ?left = "length (lk_out l) + length (drop n (lk_back l)) + 2 ^ 34 + 8 + packets_cost content"
    have "requested W path content hash time dest disk i ?left (?l q)"
      unfolding requested_def Let_def by (rule disjI1) (use c l(2,3) in simp)
    moreover have "?left < length (lk_out l) + length (lk_back l) + 2 ^ 34 + 8 + packets_cost content" using n by simp
    ultimately show ?thesis by blast
  next
    assume "\<exists>j. offering (asked_transfer ?d content dest j) q \<and> written q = map fst (answers i ?d j) \<and> on_way [] q (drop n (lk_back l))"
    then obtain j where c: "offering (asked_transfer ?d content dest j) q" "written q = map fst (answers i ?d j)" "on_way [] q (drop n (lk_back l))"
      by blast
    let ?left = "length (lk_out l @ concat (written q)) + length (drop n (lk_back l)) + 8 + packets_cost content"
    have "requested W path content hash time dest disk i ?left (?l q)"
      unfolding requested_def Let_def
      by (rule disjI2, rule disjI1, rule exI [of _ j], rule exI [of _ 0]) (use c l(2) on_way_written [OF l(3)] in simp)
    moreover have "?left < length (lk_out l) + length (lk_back l) + 2 ^ 34 + 8 + packets_cost content"
      using format_offer(2) [OF a, of j] n c(2) by (simp add: answers_def length_format_response)
    ultimately show ?thesis by blast
  qed
  with q show ?thesis by simp
qed

lemma requested_asker_turn:
  assumes V: "on_tape V" "\<And>m. set (w_order V m) = dom m" and a: "acceptable V path content hash time dest disk"
    and l: "offering (asked_transfer (announcement path content hash time) content dest j) (lk_sender l)" "asking path i disk dest (lk_receiver l)"
      "k < 2" "on_way (drop k (answers i (announcement path content hash time) j)) (lk_receiver l) (lk_out l)" "on_way [] (lk_sender l) (lk_back l)"
    and d: "readable_up_to n (lk_receiver l) (lk_out l)"
  shows "\<exists>l'. link_turn W V (Receiver_polls n) l = (Inr (), l') \<and>
    (\<exists>left' < length (lk_out l) + length (lk_back l) + 8 + packets_cost content. requested W path content hash time dest disk i left' l')"
proof -
  let ?d = "announcement path content hash time" let ?t = "asked_transfer ?d content dest j"
  let ?l = "\<lambda>q. l\<lparr>lk_receiver := q, lk_out := drop n (lk_out l), lk_back := lk_back l @ concat (written q)\<rparr>"
  have n: "0 < n" "n \<le> length (lk_out l)" using readable_drain [OF d] by auto
  from asker_turn [OF V a l(2,3,4) d] obtain q k' where
    q: "pr_poll_requests V blank_request (reading (take n (lk_out l)) (lk_receiver l)) = (Inr (), q)"
      "answered ?t path i disk k' (written q) q" "on_way (drop k' (answers i ?d j)) q (drop n (lk_out l))" by blast
  have "\<exists>left' < length (lk_out l) + length (lk_back l) + 8 + packets_cost content. requested W path content hash time dest disk i left' (?l q)"
  proof (cases "k' < 2")
    case True
    let ?left = "length (drop n (lk_out l)) + length (lk_back l) + 8 + packets_cost content"
    have w: "asking path i disk dest q" "written q = []" using q(2) True by (simp_all add: answered_def)
    have "requested W path content hash time dest disk i ?left (?l q)"
      unfolding requested_def Let_def
      by (rule disjI2, rule disjI1, rule exI [of _ j], rule exI [of _ k']) (use True w q(3) l(1,5) in simp)
    moreover have "?left < length (lk_out l) + length (lk_back l) + 8 + packets_cost content" using n by simp
    ultimately show ?thesis by blast
  next
    case False
    then have w: "receiving ?t (disk(dest @ ''.fsdownload'' \<mapsto> [])) 0 q" "written q = [message_of (acceptance ?t)]" "k' = 2"
      using q(2) by (simp_all add: answered_def)
    let ?left = "length (drop n (lk_out l)) + length (lk_back l @ concat (written q)) + packets_cost content"
    have "linked ?t (disk(dest @ ''.fsdownload'' \<mapsto> [])) ?left (?l q)"
      using linked_offered [of ?t "?l q" "disk(dest @ ''.fsdownload'' \<mapsto> [])" "lk_back l"] w q(3) l(1,5)
      by (simp add: answers_def packets_cost_def numeral_2_eq_2 add.assoc)
    then have "requested W path content hash time dest disk i ?left (?l q)" unfolding requested_def Let_def by blast
    moreover have "?left < length (lk_out l) + length (lk_back l) + 8 + packets_cost content"
      using n w(2) by (simp add: message_of_acceptance length_format_response)
    ultimately show ?thesis by blast
  qed
  with q(1) show ?thesis by simp
qed

lemma nothing_readable: "on_way [] p bs \<Longrightarrow> \<not> readable_up_to n p bs"
  by (auto simp: on_way_nil readable_up_to_def)

lemma requested_turn:
  assumes W: "on_tape W" and V: "on_tape V" "\<And>m. set (w_order V m) = dom m" and a: "acceptable V path content hash time dest disk"
    and l: "requested W path content hash time dest disk i left l" and u: "clean_turn u l"
  shows "\<exists>l'. link_turn W V u l = (Inr (), l') \<and> (\<exists>left' < left. requested W path content hash time dest disk i left' l')"
proof -
  let ?d = "announcement path content hash time"
  from l [unfolded requested_def Let_def] show ?thesis
  proof (elim disjE exE conjE, goal_cases)
    case 1
    then obtain n where n: "u = Sender_polls n" "readable_up_to n (lk_sender l) (lk_back l)"
      using u nothing_readable by (cases u) auto
    from requested_owner_turn [OF W a 1(1-4) n(2)] 1(5) n(1) show ?case by simp
  next
    case (2 j k)
    then obtain n where n: "u = Receiver_polls n" "readable_up_to n (lk_receiver l) (lk_out l)"
      using u nothing_readable by (cases u) auto
    from requested_asker_turn [OF V a 2(1-5) n(2)] 2(6) n(1) show ?case by simp
  next
    case (3 j)
    from linked_turn [OF W V(1) asked_transferable [OF a] 3 u] show ?case
      unfolding requested_def Let_def by blast
  qed
qed

lemma requested_run:
  assumes "on_tape W" "on_tape V" "\<And>m. set (w_order V m) = dom m" "acceptable V path content hash time dest disk"
    and "requested W path content hash time dest disk i left l"
  shows "link_run W V l n m \<Longrightarrow> \<exists>left'. left' + n \<le> left \<and> requested W path content hash time dest disk i left' m"
proof (induction rule: link_run.induct)
  case run_start
  then show ?case using assms(5) by auto
next
  case (run_turn n m u m')
  then obtain left' where l: "left' + n \<le> left" "requested W path content hash time dest disk i left' m" by blast
  from requested_turn [OF assms(1-4) l(2) run_turn(2)] run_turn(3) obtain left'' where
    "left'' < left'" "requested W path content hash time dest disk i left'' m'" by auto
  with l(1) show ?case by (intro exI [of _ left'']) simp
qed

text \<open>Between turns either a side has something to read, or the file is there.\<close>

lemma requested_progress:
  assumes a: "acceptable V path content hash time dest disk" and l: "requested W path content hash time dest disk i left l"
  shows "if lk_out l = [] \<and> lk_back l = [] then pr_disk (lk_receiver l) = disk(dest \<mapsto> content) else \<exists>u. clean_turn u l"
proof -
  let ?d = "announcement path content hash time" and ?ps = "[(message_of (ask_for_file path i), ask_for_file path i)]"
  from l [unfolded requested_def Let_def] show ?thesis
  proof (elim disjE exE conjE, goal_cases)
    case 1
    have "length path < 2 ^ 32" using a by (simp add: acceptable_def)
    note f = framed_request [OF this, of i]
    have ne: "lk_back l \<noteq> []" using nothing_on_way [OF _ f] 1(4) by auto
    from on_way_readable [OF 1(4) f ne] have "clean_turn (Sender_polls (length (lk_back l))) l" by simp
    with ne show ?case by (simp add: exI [of _ "Sender_polls (length (lk_back l))"])
  next
    case (2 j k)
    note f = framed_answers [OF a, of i j]
    have f': "list_all framed (drop k (answers i ?d j))" using f(1) by (auto simp: list_all_iff dest: in_set_dropD)
    have a': "addressable (concat (map fst (drop k (answers i ?d j))))"
      using f(2) 2(3) by (auto simp: addressable_def answers_def less_2_cases_iff)
    have "drop k (answers i ?d j) \<noteq> []" using 2(3) by (simp add: answers_def)
    then have ne: "lk_out l \<noteq> []" using nothing_on_way [OF _ f' a'] 2(4) by auto
    from on_way_readable [OF 2(4) f' a' ne] have "clean_turn (Receiver_polls (length (lk_out l))) l" by simp
    with ne show ?case by (simp add: exI [of _ "Receiver_polls (length (lk_out l))"])
  next
    case (3 j)
    have "disk (dest @ ''.fsdownload'') = None" using a by (simp add: acceptable_def)
    then have "((disk(dest @ ''.fsdownload'' \<mapsto> []))(dest \<mapsto> content))(dest @ ''.fsdownload'' := None) = disk(dest \<mapsto> content)"
      by (auto simp: fun_eq_iff)
    with linked_progress [OF asked_transferable [OF a] 3] show ?case by (simp split: if_splits)
  qed
qed


section \<open>From the request to the file\<close>

text \<open>The request, written: the peer that asks waits for the answer.\<close>

lemma asked_start:
  assumes V: "on_tape V" and b: "idle b" "pr_downloads b = Map.empty" "asks_with_data (mq_outgoing (pr_queue b))"
    and ask: "pr_send_request V RECEIVE_FILE (Some (ReceiveFileData \<lparr>rf_filepath = path, rf_packet_size = x, rf_packet_start = 0\<rparr>)) b = (Inr i, b')"
  shows "asking path i (pr_disk b)
      (path_append (path_append (pr_downloads_folder b) (path_of_bytes (pb_device_uuid b))) (relative_path (path_of_bytes path))) b'"
    "written b' = [message_of (ask_for_file path i)]" "pb_buffer b' = []"
proof -
  let ?data = "Some (ReceiveFileData \<lparr>rf_filepath = path, rf_packet_size = x, rf_packet_start = 0\<rparr>)"
  have b0: "wired b" "queue_inv (pr_queue b)" "busy (pr_queue b) = {}" "pb_buffer b = []" "written b = []"
    using b(1) by (simp_all add: idle_def)
  have "format_request \<lparr>req_code = RECEIVE_FILE, req_data = ?data, req_message_id = j\<rparr> = Inr (message_of (ask_for_file path j))" for j
    by (simp add: format_request_def message_of_def ask_for_file_def format_receive_file_def)
  with send_request_writes [OF V b0(1,2), of RECEIVE_FILE ?data "\<lambda>j. message_of (ask_for_file path j)"] b0(3) ask obtain q where
    q: "b' = after_writing q [message_of (ask_for_file path i)] b" "mq_outgoing q = (mq_outgoing (pr_queue b))(i \<mapsto>
      \<lparr>msg_request = \<lparr>req_code = RECEIVE_FILE, req_data = ?data, req_message_id = i\<rparr>, msg_status = None\<rparr>)"
    by auto
  then show "asking path i (pr_disk b)
      (path_append (path_append (pr_downloads_folder b) (path_of_bytes (pb_device_uuid b))) (relative_path (path_of_bytes path))) b'"
    "written b' = [message_of (ask_for_file path i)]" "pb_buffer b' = []"
    using b b0 by (auto simp: asking_def asks_with_data_def after_writing_def wired_def)
qed


definition sharing_peer :: "tape peer" where
  "sharing_peer = tape_trusted [] []"

lemma tape_order: "set (w_order tape_world m) = dom m"
proof -
  have "i \<in> of_nat ` {0..<256}" for i :: byte
    using unsigned_less [of i] by (intro image_eqI [of _ _ "unat i"]) simp_all
  then show ?thesis by (auto simp: tape_world_def)
qed


end
