(* ===== verification/Debug_Strings.thy ===== *)
theory Debug_Strings
  imports Protocol_Defs Paths
begin

text \<open>
  How protocol values are written to and read from streams: \<open>debug_str\<close> of the payloads in
  \<open>Protocol/RequestData.cpp\<close>, \<open>Version::to_string\<close>, and the stream operators of \<open>Protocol.cpp\<close>. A
  stream is the text written to it, or still to be read from it.
\<close>

section \<open>Numbers\<close>

fun digits :: "nat \<Rightarrow> string" where
  "digits n = (if n < 10 then [] else digits (n div 10)) @ [char_of (48 + n mod 10)]"

declare digits.simps [simp del]

definition decimal :: "int \<Rightarrow> string" where
  "decimal i = (if i < 0 then [CHR 0x2D] else []) @ digits (nat \<bar>i\<bar>)"

section \<open>Versions\<close>

text \<open>A version has no stream operator of its own: it converts to the enumeration and that to its number.\<close>

definition version_put :: "version \<Rightarrow> string" where
  "version_put v = digits (unat (v_number v))"

definition version_to_string :: "version \<Rightarrow> string result" where
  "version_to_string v =
     (case map_of version_names (v_number v) of
        Some name \<Rightarrow> Inr name
      | None \<Rightarrow> Inl (Runtime_error (''Unkown Version: '' @ decimal (sint (v_number v)))))"

section \<open>Payloads\<close>

definition response_debug :: "status_code \<Rightarrow> string" where
  "response_debug status = ''ResponseData{'' @ ''status = '' @ status_to_str status @ ''}''"

definition supported_versions_debug :: "version list \<Rightarrow> string" where
  "supported_versions_debug versions =
     ''SupportedVersionsData{'' @ ''versions (count = '' @ digits (length versions) @ '') = ['' @
     concat (map (\<lambda>version. version_put version @ '', '') versions) @ '']}''"

definition selected_version_debug :: "version \<Rightarrow> string" where
  "selected_version_debug version = ''SelectedVersionData{'' @ ''version = '' @ version_put version @ ''}''"

definition data_packet_debug :: "data_packet_data \<Rightarrow> string" where
  "data_packet_debug d =
     ''DataPacketData{'' @ ''request_id = '' @ digits (unat (dp_request_id d)) @ '', packed_id = '' @ digits (unat (dp_packet_id d)) @
     '', data_size = '' @ digits (length (dp_data d)) @ ''}''"

definition file_list_debug :: "file_list_data \<Rightarrow> string" where
  "file_list_debug d =
     ''FileListData{'' @ ''request_id = '' @ digits (unat (fl_request_id d)) @ '', packet_id = '' @ digits (unat (fl_packet_id d)) @
     '', files (count = '' @ digits (length (fl_files d)) @ '') = ['' @
     concat (map (\<lambda>file. ''{ path = '' @ path_of_bytes (fi_path file) @ '', file_type = '' @
       decimal (sint (file_type_value (fi_file_type file))) @ '' }, '') (fl_files d)) @ '']}''"

definition list_files_debug :: "bytes \<Rightarrow> string" where
  "list_files_debug folderpath = ''ListFilesData{'' @ ''folderpath = '' @ path_of_bytes folderpath @ ''}''"

definition receive_file_debug :: "receive_file_data \<Rightarrow> string" where
  "receive_file_debug d =
     ''ReceiveFileData{'' @ ''filepath = '' @ path_of_bytes (rf_filepath d) @ '', packet_size = '' @ digits (unat (rf_packet_size d)) @
     '', packet_start = '' @ digits (unat (rf_packet_start d)) @ ''}''"

definition send_file_debug :: "send_file_data \<Rightarrow> string result" where
  "send_file_debug d =
     try_then (algo_to_string (sf_hash_algorithm d)) (\<lambda>hash_algo.
     try_then (to_epoch (sf_last_updated d)) (\<lambda>last_updated.
     Inr (''SendFileData{'' @ ''filepath = '' @ path_of_bytes (sf_filepath d) @ '', hash_algo = '' @ hash_algo @
       '', file_hash = '' @ path_of_bytes (sf_filehash d) @ '', last_updated = '' @ digits (unat last_updated) @
       '', packet_size = '' @ digits (unat (sf_packet_size d)) @ '', total_packets = '' @ digits (unat (sf_total_packets d)) @ ''}'')))"

definition ping_debug :: string where
  "ping_debug = ''PingData{}''"

text \<open>The payload of a command that is not used yet.\<close>

record approval_status_data =
  as_request_message_id :: byte
  as_status :: bool

definition approval_status_debug :: "approval_status_data \<Rightarrow> string" where
  "approval_status_debug d =
     ''ApprovalStatusData{'' @ ''request_message_id = '' @ digits (unat (as_request_message_id d)) @
     '', status = '' @ (if as_status d then ''1'' else ''0'') @ ''}''"

fun debug_str :: "request_data \<Rightarrow> string result" where
  "debug_str (ResponseData status) = Inr (response_debug status)"
| "debug_str (SupportedVersionsData versions) = Inr (supported_versions_debug versions)"
| "debug_str (SelectedVersionData version) = Inr (selected_version_debug version)"
| "debug_str (SendFileData d) = send_file_debug d"
| "debug_str (ReceiveFileData d) = Inr (receive_file_debug d)"
| "debug_str (ListFilesData folderpath) = Inr (list_files_debug folderpath)"
| "debug_str (FileListData d) = Inr (file_list_debug d)"
| "debug_str (DataPacketData d) = Inr (data_packet_debug d)"
| "debug_str PingData = Inr ping_debug"

section \<open>Stream operators\<close>

definition is_space :: "char \<Rightarrow> bool" where
  "is_space c \<longleftrightarrow> c \<in> set [CHR 0x20, CHR 0x09, CHR 0x0A, CHR 0x0B, CHR 0x0C, CHR 0x0D]"

text \<open>\<open>is >> str\<close>: a word, and the text behind it.\<close>

definition read_word :: "string \<Rightarrow> string \<times> string" where
  "read_word s = (let s = dropWhile is_space s in (takeWhile (Not \<circ> is_space) s, dropWhile (Not \<circ> is_space) s))"

definition status_put :: "status_code \<Rightarrow> string \<Rightarrow> string" where
  "status_put status os = os @ status_to_str status"

definition command_put :: "command_code \<Rightarrow> string \<Rightarrow> string" where
  "command_put command os = os @ command_to_str command"

definition file_type_put :: "file_type \<Rightarrow> string \<Rightarrow> string" where
  "file_type_put type os = os @ file_type_to_str type"

text \<open>An exception leaves the object as it was, and the word has been taken from the stream.\<close>

definition status_get :: "string \<Rightarrow> status_code result \<times> string" where
  "status_get is = (case read_word is of (str, is) \<Rightarrow> (str_to_status str, is))"

definition command_get :: "string \<Rightarrow> command_code result \<times> string" where
  "command_get is = (case read_word is of (str, is) \<Rightarrow> (str_to_command str, is))"

definition file_type_get :: "string \<Rightarrow> file_type result \<times> string" where
  "file_type_get is = (case read_word is of (str, is) \<Rightarrow> (str_to_file_type str, is))"

section \<open>Properties\<close>

definition digit_value :: "char \<Rightarrow> nat" where
  "digit_value c = of_char c - 48"

lemma digits_value: "foldl (\<lambda>a c. 10 * a + digit_value c) 0 (digits n) = n"
proof (induction n rule: digits.induct)
  case (1 n)
  have "of_char (char_of (48 + n mod 10) :: char) = (48 + n mod 10 :: nat)" by (simp add: take_bit_eq_mod)
  then have "digit_value (char_of (48 + n mod 10)) = n mod 10" by (simp add: digit_value_def)
  with 1 show ?case by (subst digits.simps) simp
qed

lemma digits_inject: "digits n = digits m \<longleftrightarrow> n = m"
  using digits_value by metis

lemma names_are_words:
  "\<forall>c \<in> set (status_to_str s). \<not> is_space c" "\<forall>c \<in> set (command_to_str k). \<not> is_space c"
  "\<forall>c \<in> set (file_type_to_str f). \<not> is_space c"
proof -
  show "\<forall>c \<in> set (status_to_str s). \<not> is_space c" by (cases s) (simp_all add: is_space_def)
  show "\<forall>c \<in> set (command_to_str k). \<not> is_space c" by (cases k) (simp_all add: is_space_def)
  show "\<forall>c \<in> set (file_type_to_str f). \<not> is_space c" by (cases f) (simp_all add: is_space_def)
qed

lemma names_not_empty: "status_to_str s \<noteq> []" "command_to_str k \<noteq> []" "file_type_to_str f \<noteq> []"
proof -
  show "status_to_str s \<noteq> []" by (cases s) simp_all
  show "command_to_str k \<noteq> []" by (cases k) simp_all
  show "file_type_to_str f \<noteq> []" by (cases f) simp_all
qed

lemma read_word_back:
  assumes "\<forall>c \<in> set w. \<not> is_space c" "w \<noteq> []" "is_space b" "\<forall>c \<in> set sp. is_space c"
  shows "read_word (sp @ w @ b # rest) = (w, b # rest)"
proof -
  have "dropWhile is_space (sp @ w @ b # rest) = w @ b # rest"
    using assms(1,2,4) by (cases w) (auto simp: dropWhile_append2 dropWhile_append3)
  then show ?thesis using assms(1,3) by (simp add: read_word_def Let_def takeWhile_append dropWhile_append comp_def)
qed

text \<open>C38: What a stream operator writes another one reads back, white space in front of it or behind
  it notwithstanding, for every command, status and file type with a name, except \<open>UNAUTHORIZED\<close>, which
  is written and then refused; the text behind the word stays in the stream.\<close>

theorem streams_roundtrip:
  assumes "\<forall>c \<in> set sp. is_space c" "is_space b"
  shows "status_get (status_put s sp @ b # rest) =
      (if s = UNAUTHORIZED \<or> (\<exists>v. s = UNNAMED_STATUS v) then Inl (Runtime_error ''Unknown status'') else Inr s, b # rest) \<and>
    command_get (command_put k sp @ b # rest) =
      (if k \<in> {SUPPORTED_VERSIONS, SELECTED_VERSION} \<or> (\<exists>v. k = UNNAMED_COMMAND v)
       then Inl (Runtime_error ''Unknown command'') else Inr k, b # rest) \<and>
    file_type_get (file_type_put f sp @ b # rest) =
      (if \<exists>v. f = UNNAMED_FILE_TYPE v then Inl (Runtime_error ''Unknown FileType'') else Inr f, b # rest)"
  using read_word_back [OF names_are_words(1) names_not_empty(1) assms(2,1)]
    read_word_back [OF names_are_words(2) names_not_empty(2) assms(2,1)]
    read_word_back [OF names_are_words(3) names_not_empty(3) assms(2,1)]
  by (simp add: status_get_def status_put_def command_get_def command_put_def file_type_get_def file_type_put_def
      str_status_roundtrip str_command_roundtrip str_file_type_roundtrip)

theorem streams_roundtrip_witness:
  "status_get '' FORBIDDEN x'' = (Inr FORBIDDEN, '' x'') \<and>
   status_get '' UNAUTHORIZED x'' = (Inl (Runtime_error ''Unknown status''), '' x'')"
  using streams_roundtrip [of "'' ''" "CHR 0x20" FORBIDDEN "''x''"] streams_roundtrip [of "'' ''" "CHR 0x20" UNAUTHORIZED "''x''"]
  by (simp add: is_space_def status_put_def)

text \<open>The text of a payload can be asked for whatever the payload is, with two exceptions, both of a
  \<open>SEND_FILE\<close>: a hash algorithm without a name throws, and a date whose conversion overflows is undefined.\<close>

theorem debug_str_throws:
  "debug_str d = Inl e \<longleftrightarrow> (\<exists>f. d = SendFileData f \<and>
     ((\<exists>v. sf_hash_algorithm f = UNNAMED_HASH v) \<and> e = Runtime_error ''Unknown hash algorithm value'' \<or>
      (\<forall>v. sf_hash_algorithm f \<noteq> UNNAMED_HASH v) \<and> \<not> in_i64 (sf_last_updated f + epoch_diff * 10 ^ 9) \<and> e = Undefined_behaviour))"
proof (cases d)
  case (SendFileData f)
  show ?thesis
    by (cases "sf_hash_algorithm f") (auto simp: SendFileData send_file_debug_def to_epoch_def checked_i64_def)
qed simp_all

end
