(* ===== verification/Ci_Strings.thy ===== *)
theory Ci_Strings
  imports Protocol_Defs "HOL-Library.List_Lexorder"
begin

text \<open>
  \<open>Utils/Strings.hpp\<close>: strings that ignore the case of ASCII letters, for \<open>char\<close>, which is signed
  on the usual platforms. Pointers with a length are lists with a length: reading behind the end of
  the list is undefined.
\<close>

section \<open>Character traits\<close>

text \<open>\<open>std::tolower\<close> in the default locale.\<close>

definition ci_to_lower :: "byte \<Rightarrow> byte" where
  "ci_to_lower c = (if 0x41 \<le> c \<and> c \<le> 0x5A then c + 0x20 else c)"

definition ci_eq :: "byte \<Rightarrow> byte \<Rightarrow> bool" where
  "ci_eq char1 char2 \<longleftrightarrow> ci_to_lower char1 = ci_to_lower char2"

definition ci_ne :: "byte \<Rightarrow> byte \<Rightarrow> bool" where
  "ci_ne char1 char2 \<longleftrightarrow> ci_to_lower char1 \<noteq> ci_to_lower char2"

definition ci_lt :: "byte \<Rightarrow> byte \<Rightarrow> bool" where
  "ci_lt char1 char2 \<longleftrightarrow> sint (ci_to_lower char1) < sint (ci_to_lower char2)"

fun ci_compare :: "bytes \<Rightarrow> bytes \<Rightarrow> nat \<Rightarrow> int result" where
  "ci_compare str1 str2 0 = Inr 0"
| "ci_compare (c1 # str1) (c2 # str2) (Suc n) =
     (let char1 = sint (ci_to_lower c1); char2 = sint (ci_to_lower c2) in
      if char1 < char2 then Inr (-1)
      else if char1 > char2 then Inr 1
      else ci_compare str1 str2 n)"
| "ci_compare _ _ (Suc n) = Inl Undefined_behaviour"

text \<open>The pointer that is returned, as an offset. Nothing is null.\<close>

fun ci_find :: "bytes \<Rightarrow> nat \<Rightarrow> byte \<Rightarrow> nat result" where
  "ci_find str 0 chr = Inr 0"
| "ci_find (c # str) (Suc n) chr =
     (if ci_to_lower c \<noteq> ci_to_lower chr then try_then (ci_find str n chr) (\<lambda>i. Inr (Suc i)) else Inr 0)"
| "ci_find [] (Suc n) chr = Inl Undefined_behaviour"

section \<open>Strings\<close>

text \<open>\<open>basic_string::compare\<close> with these traits, by its sign, and \<open>operator==\<close>.\<close>

definition ci_string_compare :: "bytes \<Rightarrow> bytes \<Rightarrow> ordering" where
  "ci_string_compare lhs rhs =
     (case ci_compare lhs rhs (min (length lhs) (length rhs)) of
        Inl _ \<Rightarrow> Equal
      | Inr r \<Rightarrow>
          if r < 0 then Less else if r > 0 then Greater
          else if length lhs < length rhs then Less
          else if length rhs < length lhs then Greater
          else Equal)"

definition ci_string_eq :: "bytes \<Rightarrow> bytes \<Rightarrow> bool" where
  "ci_string_eq lhs rhs \<longleftrightarrow> length lhs = length rhs \<and> ci_compare lhs rhs (length lhs) = Inr 0"

datatype ci_string = Ci (ci_chars: bytes)

section \<open>The order\<close>

text \<open>The reference: the list of the signed lower case characters, in lexicographic order.\<close>

definition ci_key :: "bytes \<Rightarrow> int list" where
  "ci_key = map (\<lambda>c. sint (ci_to_lower c))"

lemma ci_key_simps [simp]: "ci_key [] = []" "ci_key (c # s) = sint (ci_to_lower c) # ci_key s" "length (ci_key s) = length s"
  by (simp_all add: ci_key_def)

lemma ci_key_inject: "ci_key s = ci_key t \<longleftrightarrow> map ci_to_lower s = map ci_to_lower t"
proof -
  have "inj (sint :: byte \<Rightarrow> int)" by (rule injI) (rule signed_word_eqI)
  then have "map sint (map ci_to_lower s) = map sint (map ci_to_lower t) \<longleftrightarrow> map ci_to_lower s = map ci_to_lower t"
    by (metis inj_map_eq_map)
  then show ?thesis by (simp add: ci_key_def comp_def)
qed

lemma ci_compare_key:
  "n \<le> length s \<Longrightarrow> n \<le> length t \<Longrightarrow> ci_compare s t n =
     Inr (if take n (ci_key s) < take n (ci_key t) then -1 else if take n (ci_key t) < take n (ci_key s) then 1 else 0)"
  by (induction s t n rule: ci_compare.induct) (auto simp: Let_def)

lemma take_less_append:
  fixes s t :: "int list"
  assumes "n = min (length s) (length t)"
  shows "s < t \<longleftrightarrow> take n s < take n t \<or> take n s = take n t \<and> length s < length t"
  using assms
proof (induction s arbitrary: t n)
  case Nil
  then show ?case by (cases t) auto
next
  case (Cons x s)
  show ?case
  proof (cases t)
    case (Cons y t')
    with Cons.IH [of "min (length s) (length t')" t'] Cons.prems show ?thesis by auto
  qed (use Cons.prems in simp)
qed

lemma ci_string_compare_key:
  "ci_string_compare s t = (if ci_key s < ci_key t then Less else if ci_key t < ci_key s then Greater else Equal)"
proof -
  let ?n = "min (length s) (length t)"
  have "?n = min (length (ci_key s)) (length (ci_key t))" "?n = min (length (ci_key t)) (length (ci_key s))" by auto
  note l = take_less_append [OF this(1)] take_less_append [OF this(2)]
  have c: "ci_compare s t ?n = Inr (if take ?n (ci_key s) < take ?n (ci_key t) then -1
      else if take ?n (ci_key t) < take ?n (ci_key s) then 1 else 0)"
    by (rule ci_compare_key) simp_all
  consider (less) "take ?n (ci_key s) < take ?n (ci_key t)" | (equal) "take ?n (ci_key s) = take ?n (ci_key t)"
    | (greater) "take ?n (ci_key t) < take ?n (ci_key s)" by (rule linorder_cases)
  then show ?thesis
  proof cases
    case less
    then have "ci_key s < ci_key t" using l(1) by blast
    moreover have "ci_compare s t ?n = Inr (-1)" using c less by (simp only: if_True)
    ultimately show ?thesis by (simp add: ci_string_compare_def)
  next
    case equal
    then have e: "ci_compare s t ?n = Inr 0" using c by (simp only: less_irrefl if_False)
    have "ci_key s < ci_key t \<longleftrightarrow> length s < length t" "ci_key t < ci_key s \<longleftrightarrow> length t < length s"
      using l equal by (metis ci_key_simps(3) less_irrefl)+
    with e show ?thesis by (simp only: ci_string_compare_def sum.case less_irrefl if_False)
  next
    case greater
    then have "ci_key t < ci_key s" using l(2) by blast
    moreover have "ci_compare s t ?n = Inr 1" using c greater less_not_sym [OF greater] by (simp only: if_True if_False)
    ultimately show ?thesis using less_not_sym [of "ci_key t" "ci_key s"] by (simp add: ci_string_compare_def)
  qed
qed

lemma ci_string_eq_key: "ci_string_eq s t \<longleftrightarrow> ci_key s = ci_key t"
proof (cases "length s = length t")
  case True
  then show ?thesis using ci_compare_key [of "length s" s t] by (auto simp: ci_string_eq_def)
next
  case False
  then have "ci_key s \<noteq> ci_key t" by (metis ci_key_simps(3))
  with False show ?thesis by (simp add: ci_string_eq_def)
qed

instantiation ci_string :: preorder
begin

definition less_eq_ci_string :: "ci_string \<Rightarrow> ci_string \<Rightarrow> bool" where
  "s \<le> t \<longleftrightarrow> ci_string_compare (ci_chars s) (ci_chars t) \<noteq> Greater"

definition less_ci_string :: "ci_string \<Rightarrow> ci_string \<Rightarrow> bool" where
  "s < t \<longleftrightarrow> ci_string_compare (ci_chars s) (ci_chars t) = Less"

instance
  by standard (auto simp: less_eq_ci_string_def less_ci_string_def ci_string_compare_key split: if_splits)

end

section \<open>Properties\<close>

text \<open>C33: The comparison of strings is the lexicographic order of their lower case characters as signed
  bytes, and so a total preorder; two strings are equal when their lower case letters are the same,
  and that is when neither is less.\<close>

theorem ci_strings_ordered:
  "ci_string_compare s t = (if ci_key s < ci_key t then Less else if ci_key t < ci_key s then Greater else Equal) \<and>
   (ci_string_eq s t \<longleftrightarrow> map ci_to_lower s = map ci_to_lower t) \<and>
   (ci_string_eq s t \<longleftrightarrow> Ci s \<le> Ci t \<and> Ci t \<le> Ci s) \<and> (Ci s \<le> Ci t \<or> Ci t \<le> Ci s)"
  unfolding ci_key_inject [symmetric] by (auto simp: less_eq_ci_string_def ci_string_compare_key ci_string_eq_key)

text \<open>A character that is not in the string is reported behind its end, and not as missing.\<close>

theorem ci_find_never_missing:
  "n \<le> length s \<Longrightarrow> \<exists>i \<le> n. ci_find s n c = Inr i \<and> (\<forall>j < i. ci_ne (s ! j) c) \<and> (i = n \<or> ci_eq (s ! i) c)"
proof (induction s n c rule: ci_find.induct)
  case (2 a s n c)
  show ?case
  proof (cases "ci_to_lower a = ci_to_lower c")
    case True
    then show ?thesis by (intro exI [of _ 0]) (simp add: ci_eq_def)
  next
    case False
    with 2 obtain i where i: "i \<le> n" "ci_find s n c = Inr i" "\<forall>j < i. ci_ne (s ! j) c" "i = n \<or> ci_eq (s ! i) c" by auto
    with False show ?thesis
      by (intro exI [of _ "Suc i"]) (auto simp: ci_ne_def nth_Cons split: nat.splits)
  qed
qed simp_all

end
