(* ===== verification/File_Handles.thy ===== *)
theory File_Handles
  imports Actions
begin

text \<open>
  \<open>Utils/FileDescriptor.cpp\<close>: the owners of a descriptor and of a C stream, on a system with
  descriptors. The system hands out handles, here numbers, that stay open until they are closed; what
  its calls answer is in the record \<open>handle_world\<close>, and what is written to \<open>std::cerr\<close> is kept.
\<close>

section \<open>The system\<close>

record system_state =
  sy_open :: "int list"
  sy_cerr :: "string list"

text \<open>\<open>None\<close> is \<open>-1\<close> or a null pointer; \<open>hw_close\<close> is whether closing reports success, which it does
  or not after the handle is gone.\<close>

record handle_world =
  hw_open :: "string \<Rightarrow> int option"
  hw_close :: "int \<Rightarrow> bool"
  hw_fileno :: "int \<Rightarrow> int option"
  hw_strerror :: string

section \<open>Operations\<close>

definition report_error :: "handle_world \<Rightarrow> string \<Rightarrow> string \<Rightarrow> bool \<Rightarrow> (system_state, unit) action" where
  "report_error H filename action raise =
     (let oss = ''failed to '' @ action @ '' file'' @
        (if filename \<noteq> [] then [CHR 0x20, CHR 0x27] @ filename @ [CHR 0x27] else []) @ '': '' @ hw_strerror H
      in if raise then act_lift (Inl (Runtime_error oss)) else act_modify (\<lambda>s. s\<lparr>sy_cerr := sy_cerr s @ [oss]\<rparr>))"

record file_descriptor =
  fd_filename :: string
  fd_fd :: int

record file_handle =
  fh_filename :: string
  fh_fd :: int
  fh_file :: "int option"

text \<open>\<open>open\<close> and \<open>fopen\<close>; the handle is open from then on.\<close>

definition system_open :: "handle_world \<Rightarrow> string \<Rightarrow> (system_state, int option) action" where
  "system_open H filename =
     (case hw_open H filename of
        None \<Rightarrow> act_return None
      | Some h \<Rightarrow> act_then (act_modify (\<lambda>s. s\<lparr>sy_open := h # sy_open s\<rparr>)) (\<lambda>_. act_return (Some h)))"

definition system_close :: "handle_world \<Rightarrow> int \<Rightarrow> (system_state, bool) action" where
  "system_close H h = act_then (act_modify (\<lambda>s. s\<lparr>sy_open := remove1 h (sy_open s)\<rparr>)) (\<lambda>_. act_return (hw_close H h))"

definition file_descriptor_of :: "handle_world \<Rightarrow> int \<Rightarrow> string \<Rightarrow> (system_state, file_descriptor) action" where
  "file_descriptor_of H fd filename =
     act_then (if fd < 0 then report_error H filename ''open'' True else act_return ()) (\<lambda>_.
     act_return \<lparr>fd_filename = filename, fd_fd = fd\<rparr>)"

definition file_descriptor_new :: "handle_world \<Rightarrow> string \<Rightarrow> (system_state, file_descriptor) action" where
  "file_descriptor_new H filename =
     act_then (system_open H filename) (\<lambda>h. file_descriptor_of H (case h of None \<Rightarrow> -1 | Some h \<Rightarrow> h) filename)"

definition file_descriptor_destroy :: "handle_world \<Rightarrow> file_descriptor \<Rightarrow> (system_state, unit) action" where
  "file_descriptor_destroy H d =
     (if fd_fd d = -1 then act_return ()
      else act_then (system_close H (fd_fd d)) (\<lambda>ok. if ok then act_return () else report_error H (fd_filename d) ''close'' False))"

definition file_handle_of :: "handle_world \<Rightarrow> int option \<Rightarrow> string \<Rightarrow> (system_state, file_handle) action" where
  "file_handle_of H stream filename =
     act_then (if stream = None then report_error H filename ''open'' True else act_return ()) (\<lambda>_.
     act_return \<lparr>fh_filename = filename, fh_fd = -1, fh_file = stream\<rparr>)"

definition file_handle_new :: "handle_world \<Rightarrow> string \<Rightarrow> (system_state, file_handle) action" where
  "file_handle_new H filename = act_then (system_open H filename) (\<lambda>stream. file_handle_of H stream filename)"

definition file_handle_destroy :: "handle_world \<Rightarrow> file_handle \<Rightarrow> (system_state, unit) action" where
  "file_handle_destroy H f =
     (case fh_file f of
        None \<Rightarrow> act_return ()
      | Some h \<Rightarrow> act_then (system_close H h) (\<lambda>ok. if ok then act_return () else report_error H (fh_filename f) ''close'' False))"

text \<open>The descriptor of the stream, asked for once; the object is part of the result.\<close>

definition file_handle_fd :: "handle_world \<Rightarrow> bool \<Rightarrow> file_handle \<Rightarrow> (system_state, int \<times> file_handle) action" where
  "file_handle_fd H raise f =
     (if fh_fd f \<noteq> -1 then act_return (fh_fd f, f)
      else
        (case fh_file f of
           None \<Rightarrow> act_lift (Inl Undefined_behaviour)
         | Some h \<Rightarrow>
             let fd = (case hw_fileno H h of None \<Rightarrow> -1 | Some fd \<Rightarrow> fd) in
             act_then (if fd = -1 then report_error H (fh_filename f) ''fetch file desctriptor from'' raise else act_return ()) (\<lambda>_.
             act_return (fd, f\<lparr>fh_fd := fd\<rparr>))))"

section \<open>Properties\<close>

lemmas handle_defs = file_descriptor_new_def file_descriptor_of_def file_descriptor_destroy_def file_handle_new_def
  file_handle_of_def file_handle_destroy_def system_open_def system_close_def report_error_def

text \<open>
  An owner that is made and destroyed: either it opens its file or it throws and has changed nothing,
  and in the end what was open before is open, with at most one line more in the log.
\<close>

definition scoped :: "bool \<Rightarrow> (system_state, 'a) action \<Rightarrow> ('a \<Rightarrow> (system_state, unit) action) \<Rightarrow> system_state \<Rightarrow> bool" where
  "scoped opens new destroy s \<longleftrightarrow>
     (case new s of
        (Inl e, s') \<Rightarrow> \<not> opens \<and> s' = s
      | (Inr d, s') \<Rightarrow>
          opens \<and> fst (destroy d s') = Inr () \<and> sy_open (snd (destroy d s')) = sy_open s \<and>
          length (sy_cerr (snd (destroy d s'))) \<le> Suc (length (sy_cerr s)) \<and>
          take (length (sy_cerr s)) (sy_cerr (snd (destroy d s'))) = sy_cerr s)"



text \<open>The descriptor of a stream is asked for until it is there, and then kept.\<close>

lemma file_handle_fd_cached:
  assumes "file_handle_fd H raise f s = (Inr (fd, f'), s')" "fd \<noteq> -1"
  shows "file_handle_fd K raise' f' t = (Inr (fd, f'), t)"
  using assms by (auto simp: file_handle_fd_def act_then_def act_simps report_error_def Let_def split: if_splits option.splits)

end
