(* ===== verification/Certificates.thy ===== *)
theory Certificates
  imports Server_Setup
begin

text \<open>
  The subject that \<open>Server::initialize_private_key\<close> puts into the certificate of a device, against
  what the other side asks of it: \<open>verify_callback\<close> during the handshake of TLS and
  \<open>PeerBase::read_peer_certificate\<close> behind it.
\<close>

datatype entry_nid = Checked subject_nid | NID_userId

definition org_name :: bytes where
  "org_name = bytes_of_path ''FileShare''"

definition org_unit_name :: bytes where
  "org_unit_name = bytes_of_path ''FileShare Self-Signed Device Certificate''"

text \<open>The entries, in the order they are added.\<close>

definition certificate_subject :: "server_config \<Rightarrow> (entry_nid \<times> bytes) list" where
  "certificate_subject c =
     (let uuid = bytes_of_path (sc_uuid c); device_name = bytes_of_path (sc_device_name c) in
      [(Checked NID_organizationName, org_name),
       (Checked NID_organizationalUnitName, org_unit_name),
       (NID_userId, bytes_of_path ''TODO-PUT-USER-ID-HERE''),
       (Checked NID_subject_commonName, uuid),
       (Checked NID_subject_dnQualifier, device_name)])"

definition subject_entry :: "(entry_nid \<times> bytes) list \<Rightarrow> subject_nid \<Rightarrow> bytes option" where
  "subject_entry subject nid = map_of subject (Checked nid)"

fun subject_of_nid :: "nid \<Rightarrow> subject_nid" where
  "subject_of_nid NID_dnQualifier = NID_subject_dnQualifier"
| "subject_of_nid NID_commonName = NID_subject_commonName"

text \<open>The certificate of a device with that configuration and key, as the other side gets it.\<close>

definition certificate_of :: "server_config \<Rightarrow> bytes \<Rightarrow> peer_cert" where
  "certificate_of c public_key = \<lparr>pc_verify = True,
     pc_subject_entry = (\<lambda>nid. case subject_entry (certificate_subject c) (subject_of_nid nid) of None \<Rightarrow> [] | Some e \<Rightarrow> e),
     pc_pubkey_pem = Some public_key\<rparr>"

lemma read_own_certificate:
  assumes "so_peer_cert S (pb_socket p) = Some (certificate_of c public_key)"
  shows "read_peer_certificate S p = (Inr (), p\<lparr>pb_public_key := public_key,
    pb_device_uuid := bytes_of_path (sc_device_name c), pb_device_name := bytes_of_path (sc_uuid c)\<rparr>)"
  using assms
  by (simp add: read_peer_certificate_def certificate_of_def subject_entry_def certificate_subject_def Let_def)

text \<open>C32: The certificate a device makes for itself passes the check of the other side, but its two names
  are read crosswise: the peer takes the device name for the id and the id for the name. So two
  devices with the same device name, the empty one of a new configuration included, are one device to
  the store of known peers: once one of them is trusted, the other, with its other key, makes the
  look-up throw.\<close>

theorem device_name_is_identity:
  assumes "so_peer_cert S (pb_socket p) = Some (certificate_of c k)" "so_peer_cert S (pb_socket q) = Some (certificate_of d l)"
    and "sc_device_name c = sc_device_name d" "k \<noteq> l"
    and "known_insert (pb_device_uuid (snd (read_peer_certificate S p))) (pb_public_key (snd (read_peer_certificate S p))) store = Inr store'"
  shows "verify_callback ok DEPTH_ZERO_SELF_SIGNED_CERT (subject_entry (certificate_subject c)) = (1, X509_V_OK) \<and>
    pb_device_uuid (snd (read_peer_certificate S p)) = bytes_of_path (sc_device_name c) \<and>
    pb_device_name (snd (read_peer_certificate S p)) = bytes_of_path (sc_uuid c) \<and>
    known_contains (pb_device_uuid (snd (read_peer_certificate S q))) (pb_public_key (snd (read_peer_certificate S q))) store' =
      Inl key_conflict"
proof -
  have "verify_callback ok DEPTH_ZERO_SELF_SIGNED_CERT (subject_entry (certificate_subject c)) = (1, X509_V_OK)"
    by (simp add: verify_callback_def subject_entry_def certificate_subject_def org_name_def org_unit_name_def
        org_name_cmp_def org_unit_name_cmp_def Let_def)
  with assms(3-5) show ?thesis
    by (auto simp: read_own_certificate [OF assms(1)] read_own_certificate [OF assms(2)] known_insert_def known_contains_def
        throw_if_def try_then_eq_Inr split: option.splits if_splits)
qed

definition new_device :: "string \<Rightarrow> server_config" where
  "new_device uuid = \<lparr>sc_filepath = [], sc_uuid = uuid, sc_device_name = [], sc_private_keys_dir = ''/k'',
     sc_private_key_name = ''file_share'', sc_disable_server = False\<rparr>"

text \<open>The two ends of the examples: an open and a closed tape.\<close>

definition two_devices :: "tape socket_ops" where
  "two_devices = tape_ops\<lparr>so_peer_cert := (\<lambda>t. Some (if tp_open t then certificate_of (new_device ''a'') [1] else certificate_of (new_device ''b'') [2]))\<rparr>"

definition second_device :: "tape peer_base" where
  "second_device = (tape_peer [] [])\<lparr>pb_socket := \<lparr>tp_in = [], tp_out = [], tp_open = False\<rparr>\<rparr>"

theorem device_name_is_identity_witness:
  "known_contains (pb_device_uuid (snd (read_peer_certificate two_devices second_device)))
     (pb_public_key (snd (read_peer_certificate two_devices second_device))) [[] \<mapsto> [1 :: byte]] = Inl key_conflict"
proof -
  have p: "so_peer_cert two_devices (pb_socket (tape_peer [] [])) = Some (certificate_of (new_device ''a'') [1])"
    and q: "so_peer_cert two_devices (pb_socket second_device) = Some (certificate_of (new_device ''b'') [2])"
    by (simp_all add: tape_peer_def two_devices_def second_device_def)
  have "known_insert (pb_device_uuid (snd (read_peer_certificate two_devices (tape_peer [] []))))
      (pb_public_key (snd (read_peer_certificate two_devices (tape_peer [] [])))) Map.empty = Inr [[] \<mapsto> [1]]"
    by (simp add: read_own_certificate [OF p] known_insert_def new_device_def bytes_of_path_def)
  from device_name_is_identity [OF p q _ _ this] show ?thesis by (simp add: new_device_def)
qed

end
