(* ===== verification/System_Utilities.thy ===== *)
theory System_Utilities
  imports Serialize "HOL-Library.Signed_Division"
begin

text \<open>
  \<open>Utils/Poll.cpp\<close>, the call of \<open>poll\<close> with the timeout of \<open>ppoll\<close>, and \<open>Utils/DebugPerf.cpp\<close>, the
  times that debug builds print: outside of them the class is empty.
\<close>

section \<open>Poll\<close>

record timespec =
  tv_sec :: int
  tv_nsec :: int

text \<open>Seconds and nanoseconds are \<open>long\<close>, the timeout of \<open>poll\<close> is an \<open>int\<close>: no pointer is no limit.\<close>

definition poll_timeout_ms :: "timespec option \<Rightarrow> int result" where
  "poll_timeout_ms timeout =
     (case timeout of
        None \<Rightarrow> Inr (- 1)
      | Some t \<Rightarrow>
          try_then (checked_i64 (tv_sec t * 1000)) (\<lambda>s.
          try_then (checked_i64 (s + tv_nsec t sdiv 1000000)) (\<lambda>ms.
          Inr (sint (of_int ms :: 32 word)))))"

text \<open>
  \<open>ppoll\<close> and \<open>poll\<close> are the system's: they give the number of descriptors that are ready, or -1, and
  the descriptors with their results.
\<close>

definition utils_poll :: "bool \<Rightarrow> ('f \<Rightarrow> timespec option \<Rightarrow> int \<times> 'f) \<Rightarrow> ('f \<Rightarrow> int \<Rightarrow> int \<times> 'f) \<Rightarrow>
    'f \<Rightarrow> timespec option \<Rightarrow> (int \<times> 'f) result" where
  "utils_poll os_linux ppoll poll fds timeout =
     (if os_linux then Inr (ppoll fds timeout)
      else try_then (poll_timeout_ms timeout) (\<lambda>timeout_ms. Inr (poll fds timeout_ms)))"

lemma sdiv_nonneg: "0 \<le> a \<Longrightarrow> 0 < b \<Longrightarrow> (a :: int) sdiv b = a div b"
  by (cases "a = 0") (simp_all add: signed_divide_int_def)

lemma sint_small: "- (2 ^ 31) \<le> x \<Longrightarrow> x < 2 ^ 31 \<Longrightarrow> sint (of_int x :: 32 word) = x"
  by (simp add: sint_sbintrunc' signed_take_bit_int_eq_self)

text \<open>
  Up to 24 days the timeout is the one that was asked for, in whole milliseconds, so that less than a
  millisecond is no wait at all. Beyond it wraps around: from 2147484 to 4294966 seconds it is negative, and
  \<open>poll\<close> waits without limit.
\<close>

lemma poll_timeout_exact:
  assumes "0 \<le> tv_sec t" "tv_sec t < 2147483" "0 \<le> tv_nsec t" "tv_nsec t < 10 ^ 9"
  shows "poll_timeout_ms (Some t) = Inr ((tv_sec t * 10 ^ 9 + tv_nsec t) div 10 ^ 6)"
proof -
  have n: "0 \<le> tv_nsec t div 1000000" "tv_nsec t div 1000000 < 1000" using assms(3,4) by auto
  have "(tv_sec t * 10 ^ 9 + tv_nsec t) div 10 ^ 6 = tv_sec t * 1000 + tv_nsec t div 1000000"
    using div_mult_self3 [of "1000000 :: int" "tv_sec t * 1000" "tv_nsec t"] by (simp add: mult.commute mult.left_commute)
  moreover have "sint (of_int (tv_sec t * 1000 + tv_nsec t div 1000000) :: 32 word) = tv_sec t * 1000 + tv_nsec t div 1000000"
    by (rule sint_small) (use n assms in simp_all)
  ultimately show ?thesis
    using n assms by (simp add: poll_timeout_ms_def checked_i64_def in_i64_def sdiv_nonneg)
qed

theorem poll_timeout_wraps:
  assumes "2147484 \<le> tv_sec t" "tv_sec t < 4294967" "0 \<le> tv_nsec t" "tv_nsec t < 10 ^ 9"
  shows "\<exists>ms < 0. poll_timeout_ms (Some t) = Inr ms"
proof -
  let ?x = "tv_sec t * 1000 + tv_nsec t div 1000000"
  have n: "0 \<le> tv_nsec t div 1000000" "tv_nsec t div 1000000 < 1000" using assms(3,4) by auto
  then have x: "2 ^ 31 \<le> ?x" "?x < 2 ^ 32" using assms(1,2) by auto
  have "(of_int ?x :: 32 word) = of_int (?x - 2 ^ 32)" by simp
  moreover have "sint (of_int (?x - 2 ^ 32) :: 32 word) = ?x - 2 ^ 32" by (rule sint_small) (use x in simp_all)
  ultimately have "sint (of_int ?x :: 32 word) = ?x - 2 ^ 32" by metis
  then show ?thesis
    using x n assms(1,2) by (simp add: poll_timeout_ms_def checked_i64_def in_i64_def sdiv_nonneg)
qed

section \<open>Times of scopes\<close>

text \<open>
  The object of a scope. \<open>m_parent\<close> of the object of an open scope is the object of the scope around it, and
  so is that of every copy of it.
\<close>

datatype perf = Perf (pf_name: string) (pf_start: int) (pf_end: int) (pf_childs: "perf list")

text \<open>The objects of a thread, \<open>m_current\<close> first, and what it has written to \<open>std::cerr\<close>.\<close>

record perf_thread =
  pt_frames :: "perf list"
  pt_err :: string

definition perf_new :: "string \<Rightarrow> int \<Rightarrow> perf_thread \<Rightarrow> perf_thread" where
  "perf_new name now th = th\<lparr>pt_frames := Perf name now 0 [] # pt_frames th\<rparr>"

text \<open>
  The arguments of \<open>std::string('\t', level)\<close> are the number of characters, 9, and the character. A
  duration in nanoseconds is printed as seconds by \<open>show_seconds\<close>.
\<close>

fun output_perf_results :: "(int \<Rightarrow> string) \<Rightarrow> nat \<Rightarrow> perf \<Rightarrow> string" where
  "output_perf_results show_seconds level (Perf name start end' childs) =
     (let level_str = replicate 9 (char_of level) in
      (if level = 0 then ''[DEBUG_PERF] '' else level_str) @ name @
      (if childs \<noteq> []
       then [CHR 0x0A] @ concat (map (output_perf_results show_seconds (level + 1)) childs) @ level_str
       else []) @
      '' -- '' @ show_seconds (end' - start) @ ''s'' @ [CHR 0x0A])"

text \<open>
  The destructor. A copy in a vector \<open>m_childs\<close> runs it as well, when the vector moves its elements to new
  storage (\<open>grows\<close> says at which lengths) or is destroyed: it then adds a copy of itself to the very vector that is
  being changed or destroyed, which is undefined.
\<close>

definition perf_destroy :: "(nat \<Rightarrow> bool) \<Rightarrow> (int \<Rightarrow> string) \<Rightarrow> int \<Rightarrow> perf_thread \<Rightarrow> perf_thread result" where
  "perf_destroy grows show_seconds now th =
     (case pt_frames th of
        [] \<Rightarrow> Inl Undefined_behaviour
      | p # rest \<Rightarrow>
          let p = Perf (pf_name p) (pf_start p) now (pf_childs p) in
          try_then
            (case rest of
               [] \<Rightarrow> Inr (th\<lparr>pt_frames := [], pt_err := pt_err th @ output_perf_results show_seconds 0 p\<rparr>)
             | parent # rest \<Rightarrow>
                 if pf_childs parent \<noteq> [] \<and> grows (length (pf_childs parent)) then Inl Undefined_behaviour
                 else Inr (th\<lparr>pt_frames := Perf (pf_name parent) (pf_start parent) (pf_end parent) (pf_childs parent @ [p]) # rest\<rparr>))
            (\<lambda>th. if pf_childs p \<noteq> [] then Inl Undefined_behaviour else Inr th))"

text \<open>Scopes as they nest in a program, with the times at which they are entered and left.\<close>

datatype scope = Scope string int "scope list" int

fun run_scope :: "(nat \<Rightarrow> bool) \<Rightarrow> (int \<Rightarrow> string) \<Rightarrow> scope \<Rightarrow> perf_thread \<Rightarrow> perf_thread result" where
  "run_scope grows show_seconds (Scope name enter inner leave) th =
     try_then (fold (\<lambda>s r. try_then r (run_scope grows show_seconds s)) inner (Inr (perf_new name enter th)))
       (perf_destroy grows show_seconds leave)"

text \<open>A scope inside another leaves its copy there, if nothing worse happens.\<close>

definition one_more :: "perf list \<Rightarrow> perf_thread result \<Rightarrow> bool" where
  "one_more frames r \<longleftrightarrow>
     (case r of Inl e \<Rightarrow> e = Undefined_behaviour
      | Inr th \<Rightarrow> \<exists>p rest. pt_frames th = p # rest \<and> pf_childs p \<noteq> [] \<and> rest = tl frames)"

lemma leaving:
  assumes "pt_frames th = p # rest" "pf_childs p \<noteq> []"
  shows "perf_destroy grows show_seconds now th = Inl Undefined_behaviour"
  using assms by (simp add: perf_destroy_def Let_def split: list.split)

lemma inner_scopes:
  assumes "\<And>s th. s \<in> set inner \<Longrightarrow> pt_frames th \<noteq> [] \<Longrightarrow> one_more (pt_frames th) (run_scope grows show_seconds s th)"
    and "one_more frames r"
  shows "one_more frames (fold (\<lambda>s r. try_then r (run_scope grows show_seconds s)) inner r)"
  using assms
proof (induction inner arbitrary: r)
  case (Cons s inner)
  have "one_more frames (try_then r (run_scope grows show_seconds s))"
  proof (cases r)
    case (Inr th)
    then obtain p rest where "pt_frames th = p # rest" "rest = tl frames" using Cons.prems(2) by (auto simp: one_more_def)
    with Cons.prems(1) [of s th] Inr show ?thesis
      by (cases "run_scope grows show_seconds s th") (auto simp: one_more_def)
  qed (use Cons.prems(2) in \<open>simp add: one_more_def\<close>)
  with Cons show ?case by simp
qed simp

lemma run_nested:
  assumes "inner \<noteq> []" "\<And>s th. s \<in> set inner \<Longrightarrow> pt_frames th \<noteq> [] \<Longrightarrow> one_more (pt_frames th) (run_scope grows show_seconds s th)"
  shows "run_scope grows show_seconds (Scope name enter inner leave) th = Inl Undefined_behaviour"
proof -
  obtain s ss where ss: "inner = s # ss" using assms(1) by (cases inner) auto
  let ?th = "perf_new name enter th"
  have "one_more (pt_frames ?th) (run_scope grows show_seconds s ?th)" by (rule assms(2)) (simp_all add: ss perf_new_def)
  then have "one_more (pt_frames ?th) (fold (\<lambda>s r. try_then r (run_scope grows show_seconds s)) ss (run_scope grows show_seconds s ?th))"
    by (intro inner_scopes) (use assms(2) ss in auto)
  then show ?thesis using leaving
    by (cases "fold (\<lambda>s r. try_then r (run_scope grows show_seconds s)) ss (run_scope grows show_seconds s ?th)")
      (auto simp: ss one_more_def)
qed

lemma run_scope_one_more: "pt_frames th \<noteq> [] \<Longrightarrow> one_more (pt_frames th) (run_scope grows show_seconds s th)"
proof (induction s arbitrary: th)
  case (Scope name enter inner leave)
  show ?case
  proof (cases "inner = []")
    case True
    then show ?thesis using Scope.prems
      by (cases "pt_frames th") (simp_all add: perf_new_def perf_destroy_def one_more_def Let_def)
  next
    case False
    then have "run_scope grows show_seconds (Scope name enter inner leave) th = Inl Undefined_behaviour"
      by (rule run_nested) (rule Scope.IH)
    then show ?thesis by (simp only: one_more_def sum.case)
  qed
qed

text \<open>
  In a debug build a scope without scopes inside prints its line; a scope with another one inside
  leaves defined behaviour when it ends.
\<close>

theorem perf_only_flat:
  "run_scope grows show_seconds (Scope name enter inner leave) \<lparr>pt_frames = [], pt_err = err\<rparr> =
     (if inner = []
      then Inr \<lparr>pt_frames = [], pt_err = err @ ''[DEBUG_PERF] '' @ name @ '' -- '' @ show_seconds (leave - enter) @ ''s'' @ [CHR 0x0A]\<rparr>
      else Inl Undefined_behaviour)"
proof (cases "inner = []")
  case False
  then have "run_scope grows show_seconds (Scope name enter inner leave) \<lparr>pt_frames = [], pt_err = err\<rparr> = Inl Undefined_behaviour"
    by (rule run_nested) (rule run_scope_one_more)
  with False show ?thesis by (simp only: if_False)
qed (simp add: perf_new_def perf_destroy_def Let_def)

end
