(* ===== verification/Promotion.thy ===== *)
theory Promotion
  imports Server_Laws
begin

text \<open>
  The handshake seen from the server: what its poll makes of the hello of a device, with whatever the device
  has sent behind it.
\<close>

section \<open>A device that says hello\<close>

text \<open>A peer in the handshake phase whose next read completes the hello of the client.\<close>

definition greets :: "'s server_world \<Rightarrow> 's server \<Rightarrow> nat \<Rightarrow> int \<Rightarrow> nat \<Rightarrow> 's pre_auth_peer \<Rightarrow> bytes \<Rightarrow> 's \<Rightarrow> bool" where
  "greets V s iter fd a p extra t \<longleftrightarrow>
     pf_fd (sv_fds s ! iter) = fd \<and> sv_peers s fd = None \<and> sv_pending_peers s fd = None \<and>
     sv_handshake_peers s fd = Some a \<and> sv_pre_heap s a = Some p \<and>
     pa_type p = SERVER \<and> pa_protocol p = None \<and> pa_first_extra_request p \<and>
     so_connected (sw_peer_world V) (pb_socket p) \<and>
     (\<exists>new u. so_read (sw_peer_world V) (pb_socket p) = (Inr new, u) \<and>
        pb_buffer p @ new = format_client_version_list @ extra \<and> addressable (format_client_version_list @ extra) \<and>
        so_write (sw_peer_world V) (format_server_selected_version (mk_version 0)) u = (Inr (), t)) \<and>
     so_connected (sw_peer_world V) t \<and> sw_get_fd V t = fd"

text \<open>The same peer with the protocol that was agreed on.\<close>

definition greeted :: "'s pre_auth_peer \<Rightarrow> bytes \<Rightarrow> 's \<Rightarrow> 's pre_auth_peer" where
  "greeted p extra t = p\<lparr>pb_socket := t, pb_buffer := extra, pa_protocol := Some protocol_v0, pa_first_extra_request := False\<rparr>"

lemma greets_poll:
  assumes "greets V s iter fd a p extra t"
  shows "on_pre a (pa_poll_requests (sw_peer_world V) out) s =
    (Inr (), s\<lparr>sv_pre_heap := (sv_pre_heap s)(a \<mapsto> greeted p extra t)\<rparr>)"
  using assms server_takes_version [of p "sw_peer_world V"]
  by (auto simp: greets_def greeted_def on_pre_def)

lemma greets_events:
  assumes "greets V s iter fd a p extra t"
  shows "handle_peer_events V out iter s = events_of_handshake V out iter fd a s"
  using assms by (simp add: greets_def handle_peer_events_def Let_def)

text \<open>The peer a device becomes when it is trusted.\<close>

definition promoted :: "'s server \<Rightarrow> 's pre_auth_peer \<Rightarrow> bytes \<Rightarrow> 's \<Rightarrow> 's peer" where
  "promoted s p extra t = \<lparr>pb_socket = t, pb_device_uuid = pb_device_uuid p, pb_device_name = pb_device_name p,
     pb_public_key = pb_public_key p, pb_buffer = extra, pr_file_mapping = sv_peer_mapping s,
     pr_downloads_folder = sv_peer_downloads s, pr_protocol = protocol_v0, pr_request_buffer = [], pr_queue = queue_new,
     pr_downloads = Map.empty, pr_uploads = Map.empty, pr_list_files = Map.empty, pr_file_lists = Map.empty, pr_disk = sv_disk s\<rparr>"

lemma greeted_sel [simp]:
  "pb_socket (greeted p extra t) = t" "pb_device_uuid (greeted p extra t) = pb_device_uuid p"
  "pb_public_key (greeted p extra t) = pb_public_key p" "has_protocol (greeted p extra t)"
  by (simp_all add: greeted_def has_protocol_def)

text \<open>What the poll does once it has the answer of the known peers.\<close>

lemma greets_decision:
  fixes s :: "'s server"
  assumes "greets V s iter fd a p extra t"
  defines "s' \<equiv> s\<lparr>sv_pre_heap := (sv_pre_heap s)(a \<mapsto> greeted p extra t)\<rparr>"
  shows "handle_peer_events V out iter s =
    act_then (act_lift (known_contains (pb_device_uuid p) (pb_public_key p) (sv_known_peers s))) (\<lambda>trusted.
    act_then (if trusted then promote V a
      else act_modify (\<lambda>s. s\<lparr>sv_pending_peers := (sv_pending_peers s)(fd \<mapsto> a), sv_events := sv_events s @ [CONNECT (Some a)]\<rparr>)) (\<lambda>_.
    act_then (act_modify (\<lambda>s. s\<lparr>sv_handshake_peers := (sv_handshake_peers s)(fd := None)\<rparr>)) (\<lambda>_.
    act_return (Suc iter)))) s'"
proof -
  have "on_pre a (act_get id) s' = (Inr (greeted p extra t), s')" by (simp add: on_pre_def act_simps s'_def)
  moreover have "so_connected (sw_peer_world V) t" "sv_pending_peers s' fd = None" "sv_known_peers s' = sv_known_peers s"
    using assms(1) by (simp_all add: greets_def s'_def)
  ultimately show ?thesis
    unfolding greets_events [OF assms(1)] events_of_handshake_def
    by (cases "known_contains (pb_device_uuid p) (pb_public_key p) (sv_known_peers s)")
      (simp_all add: act_then_def greets_poll [OF assms(1), folded s'_def] act_simps map_emplace_def Let_def split: if_split)
qed

lemma greets_promote:
  assumes "greets V s iter fd a p extra t"
  shows "promote V a (s\<lparr>sv_pre_heap := (sv_pre_heap s)(a \<mapsto> greeted p extra t)\<rparr>) =
    (Inr (), s\<lparr>sv_pre_heap := (sv_pre_heap s)(a := None), sv_peers := (sv_peers s)(fd \<mapsto> sv_next s),
      sv_peer_heap := (sv_peer_heap s)(sv_next s \<mapsto> promoted s p extra t), sv_next := sv_next s + 1\<rparr>)"
proof -
  have "sv_peers s fd = None" "sw_get_fd V t = fd" using assms by (simp_all add: greets_def)
  moreover have "peer_new (greeted p extra t) (sv_peer_mapping s) (sv_peer_downloads s) (sv_disk s) = Inr (promoted s p extra t)"
    by (simp add: peer_new_def pa_get_protocol_def greeted_def promoted_def)
  ultimately show ?thesis
    by (simp add: promote_def insert_peer_def act_then_def act_simps on_peer_def Let_def) (simp add: promoted_def)
qed

text \<open>C9: What becomes of a device that says hello, in the poll that completes its hello, when the server agrees
  with it on a version. With its known key it is trusted and leaves the handshake phase; unknown, it waits for
  the user, who gets an event; with another key than the known one the poll throws. What it has sent
  behind the hello is in the buffer of the peer it has become and is not looked at in this poll.\<close>

theorem hello_decided:
  assumes "greets V s iter fd a p extra t"
  shows "handle_peer_events V out iter s =
    (case sv_known_peers s (pb_device_uuid p) of
       None \<Rightarrow> (Inr (Suc iter), s\<lparr>sv_pre_heap := (sv_pre_heap s)(a \<mapsto> greeted p extra t),
         sv_pending_peers := (sv_pending_peers s)(fd \<mapsto> a), sv_handshake_peers := (sv_handshake_peers s)(fd := None),
         sv_events := sv_events s @ [CONNECT (Some a)]\<rparr>)
     | Some key \<Rightarrow>
         if key \<noteq> pb_public_key p then (Inl key_conflict, s\<lparr>sv_pre_heap := (sv_pre_heap s)(a \<mapsto> greeted p extra t)\<rparr>)
         else (Inr (Suc iter), s\<lparr>sv_pre_heap := (sv_pre_heap s)(a := None),
           sv_peers := (sv_peers s)(fd \<mapsto> sv_next s), sv_handshake_peers := (sv_handshake_peers s)(fd := None),
           sv_peer_heap := (sv_peer_heap s)(sv_next s \<mapsto> promoted s p extra t), sv_next := sv_next s + 1\<rparr>))"
  by (cases "sv_known_peers s (pb_device_uuid p)")
    (simp_all add: greets_decision [OF assms] greets_promote [OF assms] act_then_def act_simps known_contains_def throw_if_def)

text \<open>
  A complete request behind the hello stays in the buffer, and no poll looks at it before there is something
  more to read: a device that sends both at once and waits for the answer waits for ever.
\<close>

theorem early_request_waits:
  assumes "greets V s iter fd a p extra t" "sv_known_peers s (pb_device_uuid p) = Some (pb_public_key p)"
    and "parse_request extra blank_request = Inr (n, request)" "n \<noteq> 0"
    and "handle_peer_events V out iter s = (r, s')" "sw_poll V (sv_fds s') = (0, fds)"
    and "poll_events V out' s' = (r', u)"
  shows "\<exists>q. sv_peers u fd = Some (sv_next s) \<and> sv_peer_heap u (sv_next s) = Some q \<and> pb_buffer q = extra \<and> pb_socket q = t \<and>
    pr_queue q = queue_new \<and> sv_events u = sv_events s"
  using assms(2,5-7)
  by (auto simp: greets_decision [OF assms(1)] greets_promote [OF assms(1)] act_then_def act_simps known_contains_def
      throw_if_def poll_events_def poll_fds.simps promoted_def)

section \<open>Examples\<close>

definition greeting_peer :: "bytes \<Rightarrow> tape pre_auth_peer" where
  "greeting_peer extra = tape_pre_auth SERVER None True [format_client_version_list @ extra]"

definition greeted_server :: "bytes \<Rightarrow> tape server" where
  "greeted_server extra = (tape_server [\<lparr>pf_fd = 4, pf_revents = 1\<rparr>])\<lparr>sv_peers := Map.empty, sv_handshake_peers := [4 \<mapsto> 0],
     sv_pre_heap := [0 \<mapsto> greeting_peer extra]\<rparr>"

definition greeted_socket :: tape where
  "greeted_socket = \<lparr>tp_in = [], tp_out = [format_server_selected_version (mk_version 0)], tp_open = True\<rparr>"

lemma greeting: "addressable (format_client_version_list @ extra) \<Longrightarrow>
    greets tape_server_world (greeted_server extra) 0 4 0 (greeting_peer extra) extra greeted_socket"
  by (simp add: greets_def greeted_server_def greeting_peer_def greeted_socket_def tape_pre_auth_def tape_server_def tape_server_world_def
      tape_world_def tape_ops_def)

lemma greeting_known: "sv_known_peers (greeted_server extra) (pb_device_uuid (greeting_peer extra)) = Some (pb_public_key (greeting_peer extra))"
  by (simp add: greeted_server_def greeting_peer_def tape_server_def tape_pre_auth_def)

theorem hello_decided_witness:
  "sv_peers (snd (handle_peer_events tape_server_world blank_request 0 (greeted_server []))) 4 = Some 1"
proof -
  have "addressable (format_client_version_list @ [])"
    by (simp add: addressable_def format_client_version_list_def client_version_payload_eval)
  from hello_decided [OF greeting [OF this], of blank_request] show ?thesis
    by (simp add: greeting_known) (simp add: greeted_server_def tape_server_def)
qed

theorem early_request_waits_witness:
  "\<exists>u q. poll_events (tape_server_world\<lparr>sw_poll := \<lambda>fds. (0, fds)\<rparr>) blank_request
       (snd (handle_peer_events (tape_server_world\<lparr>sw_poll := \<lambda>fds. (0, fds)\<rparr>) blank_request 0 (greeted_server (format_response 0 STATUS_OK)))) =
       (Inr (), u) \<and> sv_peer_heap u 1 = Some q \<and> pb_buffer q = format_response 0 STATUS_OK"
proof -
  let ?V = "tape_server_world\<lparr>sw_poll := \<lambda>fds. (0, fds)\<rparr>" and ?e = "format_response 0 STATUS_OK"
  obtain s' r where h: "handle_peer_events ?V blank_request 0 (greeted_server ?e) = (r, s')" by (cases "handle_peer_events ?V blank_request 0 (greeted_server ?e)")
  obtain u where p: "poll_events ?V blank_request s' = (Inr (), u)" by (simp add: poll_events_def poll_fds.simps)
  have "addressable (format_client_version_list @ ?e)"
    by (simp add: addressable_def format_client_version_list_def client_version_payload_eval ok_response_bytes)
  from greeting [OF this] have "greets ?V (greeted_server ?e) 0 4 0 (greeting_peer ?e) ?e greeted_socket" by (simp add: greets_def)
  from early_request_waits [OF this greeting_known ok_response_parses _ h _ p] h p show ?thesis
    by (auto simp: greeted_server_def tape_server_def)
qed

end
