(* ===== verification/Handshake_Link.thy ===== *)
theory Handshake_Link
  imports Promotion Transfer_Steps
begin

text \<open>
  The handshake on both sides, whatever pieces the network cuts its messages into: the polls of the server
  and the wait of \<open>connect\<close>.
\<close>

section \<open>One poll\<close>

text \<open>The message a peer waits for, and the peer when it has it, with the bytes behind it.\<close>

definition first_message :: "pre_auth_type \<Rightarrow> bytes" where
  "first_message type = (if type = CLIENT then format_server_selected_version (mk_version 0) else format_client_version_list)"

definition agreed :: "bytes \<Rightarrow> bytes list \<Rightarrow> tape pre_auth_peer \<Rightarrow> tape pre_auth_peer" where
  "agreed extra ins p = p\<lparr>pb_socket := \<lparr>tp_in = ins, tp_out = tp_out (pb_socket p) @
       (if pa_type p = CLIENT then [] else [format_server_selected_version (mk_version 0)]), tp_open = True\<rparr>,
     pb_buffer := extra, pa_protocol := Some protocol_v0, pa_first_extra_request := False\<rparr>"

definition undecided :: "tape pre_auth_peer \<Rightarrow> bool" where
  "undecided p \<longleftrightarrow> pa_protocol p = None \<and> pa_first_extra_request p \<and> tp_open (pb_socket p)"

lemma first_message_bytes:
  "first_message CLIENT = [0x46, 0x53, 0x50, 0x5F, 0x02, 0, 0, 0]"
  "first_message SERVER = [0x46, 0x53, 0x50, 0x5F, 0x01, 0x01, 0, 0, 0]"
  by (simp_all add: first_message_def format_server_selected_version_def version_bytes_def magic_bytes_def mk_version_def
      format_client_version_list_def client_version_payload_eval)

lemma first_message_pending:
  assumes "k < length (first_message type)"
  shows "(if type = CLIENT then parse_server_version (take k (first_message type)) out
      else parse_client_version (take k (first_message type)) out) = Inr (0, out)"
proof (cases type)
  case CLIENT
  then have "k < 8" using assms by (simp add: first_message_bytes)
  then have "k \<in> {0, 1, 2, 3, 4, 5, 6, 7}" by auto
  then show ?thesis using CLIENT
    by (elim insertE emptyE) (simp_all add: first_message_bytes parse_server_version_def sv_size_def)
next
  case SERVER
  then have "k < 9" using assms by (simp add: first_message_bytes)
  then have "k \<in> {0, 1, 2, 3, 4, 5, 6, 7, 8}" by auto
  then show ?thesis using SERVER
    by (elim insertE emptyE)
      (simp_all add: first_message_bytes parse_client_version_def sv_size_def static_bytes_def sv_at_def starts_with_def
        client_version_payload_eval)
qed

lemma poll_piece:
  assumes W: "on_tape W" and p: "undecided p" "tp_in (pb_socket p) = new # ins"
    and k: "pb_buffer p @ new = take k (first_message (pa_type p))" "k < length (first_message (pa_type p))"
  shows "pa_poll_requests W out p = (Inr (), p\<lparr>pb_socket := (pb_socket p)\<lparr>tp_in := ins\<rparr>, pb_buffer := pb_buffer p @ new\<rparr>)"
proof -
  let ?q = "p\<lparr>pb_socket := (pb_socket p)\<lparr>tp_in := ins\<rparr>, pb_buffer := pb_buffer p @ new\<rparr>"
  have c: "so_connected W (pb_socket p)" "so_read W (pb_socket p) = (Inr new, (pb_socket p)\<lparr>tp_in := ins\<rparr>)"
    using W p by (simp_all add: on_tape_def undecided_def tape_ops_def)
  show ?thesis
  proof (cases "pb_buffer p @ new = []")
    case True
    with c show ?thesis by (simp add: pa_poll_requests_def poll_requests_def act_then_def act_simps pb_read_def)
  next
    case False
    have "pa_parse_bytes W (pb_buffer p @ new) out ?q = (Inr (0, out), ?q)"
      using p(1) first_message_pending [OF k(2), of out] unfolding k(1) [symmetric]
      by (auto simp: pa_parse_bytes_def undecided_def act_try_def act_catch_def act_simps)
    moreover have "addressable ([] @ (pb_buffer p @ new))"
      using k by (cases "pa_type p") (simp_all add: addressable_def first_message_bytes)
    from sv_substr_append(1) [OF this] have "sv_substr (pb_buffer p @ new) 0 npos = Inr (pb_buffer p @ new)" by simp
    ultimately show ?thesis using False c
      by (simp add: pa_poll_requests_def poll_requests_read [OF c] poll_loop_step [of _ _ "pb_buffer p @ new"] act_then_def act_simps)
  qed
qed

lemma poll_last_piece:
  assumes W: "on_tape W" and p: "undecided p" "tp_in (pb_socket p) = new # ins"
    and k: "pb_buffer p @ new = first_message (pa_type p) @ extra" "addressable (first_message (pa_type p) @ extra)"
  shows "pa_poll_requests W out p = (Inr (), agreed extra ins p)"
proof -
  let ?t = "(pb_socket p)\<lparr>tp_in := ins\<rparr>"
  have c: "so_connected W (pb_socket p)" "so_read W (pb_socket p) = (Inr new, ?t)"
    "so_write W m ?t = (Inr (), \<lparr>tp_in = ins, tp_out = tp_out (pb_socket p) @ [m], tp_open = True\<rparr>)" for m
    using W p by (simp_all add: on_tape_def undecided_def tape_ops_def)
  have t: "?t = \<lparr>tp_in = ins, tp_out = tp_out (pb_socket p), tp_open = True\<rparr>" using p(1) by (simp add: undecided_def)
  have u: "pa_protocol p = None" "pa_first_extra_request p" using p(1) by (simp_all add: undecided_def)
  show ?thesis
  proof (cases "pa_type p")
    case CLIENT
    with client_takes_version [OF CLIENT u c(1,2), of extra out] k show ?thesis by (simp add: first_message_def agreed_def t)
  next
    case SERVER
    with server_takes_version [OF SERVER u c(1,2) _ _ c(3), of extra out] k show ?thesis by (simp add: first_message_def agreed_def)
  qed
qed

section \<open>Any pieces\<close>

primrec pa_polls :: "tape peer_world \<Rightarrow> nat \<Rightarrow> (tape pre_auth_peer, unit) action" where
  "pa_polls W 0 = act_return ()"
| "pa_polls W (Suc n) = act_then (pa_poll_requests W blank_request) (\<lambda>_. pa_polls W n)"

text \<open>The last of the pieces is the one that completes the message \<open>m\<close>.\<close>

definition pieces :: "bytes list \<Rightarrow> bytes \<Rightarrow> bytes \<Rightarrow> bool" where
  "pieces cs m extra \<longleftrightarrow> cs \<noteq> [] \<and> concat cs = m @ extra \<and> length (concat (butlast cs)) < length m"

lemma polls_pieces:
  assumes W: "on_tape W"
  shows "undecided p \<Longrightarrow> tp_in (pb_socket p) = cs @ ins \<Longrightarrow> cs \<noteq> [] \<Longrightarrow> pb_buffer p @ concat cs = first_message (pa_type p) @ extra \<Longrightarrow>
    length (pb_buffer p @ concat (butlast cs)) < length (first_message (pa_type p)) \<Longrightarrow> addressable (first_message (pa_type p) @ extra) \<Longrightarrow>
    pa_polls W (length cs) p = (Inr (), agreed extra ins p) \<and> connect_loop W blank_request p = Some (Inr (), agreed extra ins p)"
proof (induction cs arbitrary: p)
  case (Cons c cs)
  have c: "\<not> has_protocol p" "so_connected W (pb_socket p)"
    using Cons.prems(1) W by (simp_all add: has_protocol_def undecided_def on_tape_def tape_ops_def)
  show ?case
  proof (cases "cs = []")
    case True
    have "pa_poll_requests W blank_request p = (Inr (), agreed extra ins p)"
      by (rule poll_last_piece [OF W Cons.prems(1)]) (use Cons.prems True in simp_all)
    moreover have "connect_loop W blank_request (agreed extra ins p) = Some (Inr (), agreed extra ins p)"
      by (subst connect_loop.simps) (simp add: has_protocol_def agreed_def)
    ultimately show ?thesis using True c by (simp add: act_then_def act_simps connect_loop.simps [of _ _ p])
  next
    case False
    let ?q = "p\<lparr>pb_socket := (pb_socket p)\<lparr>tp_in := cs @ ins\<rparr>, pb_buffer := pb_buffer p @ c\<rparr>"
    let ?k = "length (pb_buffer p @ c)"
    have k: "?k < length (first_message (pa_type p))" using Cons.prems(5) False by simp
    have "pb_buffer p @ c = take ?k (first_message (pa_type p) @ extra)" unfolding Cons.prems(4) [symmetric] by simp
    also have "\<dots> = take ?k (first_message (pa_type p))" using k by simp
    finally have e: "pb_buffer p @ c = take ?k (first_message (pa_type p))" .
    have poll: "pa_poll_requests W blank_request p = (Inr (), ?q)"
      by (rule poll_piece [OF W Cons.prems(1) _ e k]) (use Cons.prems(2) in simp)
    have "pa_polls W (length cs) ?q = (Inr (), agreed extra ins ?q) \<and> connect_loop W blank_request ?q = Some (Inr (), agreed extra ins ?q)"
      by (rule Cons.IH) (use Cons.prems False in \<open>simp_all add: undecided_def\<close>)
    moreover have "agreed extra ins ?q = agreed extra ins p" by (simp add: agreed_def)
    ultimately show ?thesis using poll c by (simp add: act_then_def connect_loop.simps [of _ _ p])
  qed
qed simp

text \<open>C8: The handshake, whatever pieces the network cuts its two messages into: the polls of the server end with
  its protocol chosen and the answer written, the loop in which \<open>connect\<close> waits for that answer
  returns with the same protocol, and what has come behind the messages is in the buffers for the peers they
  become.\<close>

theorem handshake_completes:
  assumes W: "on_tape W" and p: "pa_type p = SERVER" "undecided p" "pb_buffer p = []" "tp_in (pb_socket p) = ds @ ins"
      "pieces ds format_client_version_list extra" "addressable (concat ds)"
    and c: "pa_type c = CLIENT" "undecided c" "pb_buffer c = []" "tp_in (pb_socket c) = cs @ ins'"
      "pieces cs (format_server_selected_version (mk_version 0)) extra'" "addressable (concat cs)"
  shows "pa_polls W (length ds) p = (Inr (), p\<lparr>pb_socket := \<lparr>tp_in = ins,
        tp_out = tp_out (pb_socket p) @ [format_server_selected_version (mk_version 0)], tp_open = True\<rparr>,
      pb_buffer := extra, pa_protocol := Some protocol_v0, pa_first_extra_request := False\<rparr>) \<and>
    connect_loop W blank_request c = Some (Inr (), c\<lparr>pb_socket := \<lparr>tp_in = ins', tp_out = tp_out (pb_socket c), tp_open = True\<rparr>,
      pb_buffer := extra', pa_protocol := Some protocol_v0, pa_first_extra_request := False\<rparr>)"
  using polls_pieces [OF W p(2,4), of extra] polls_pieces [OF W c(2,4), of extra'] p(1,3,5,6) c(1,3,5,6)
  by (auto simp: pieces_def first_message_def agreed_def)

theorem handshake_completes_witness:
  "\<exists>q. connect_loop tape_world blank_request (tape_pre_auth CLIENT None True [[0x46, 0x53], [], [0x50, 0x5F, 2, 0, 0], [0, 7]]) =
     Some (Inr (), q) \<and> pa_protocol q = Some protocol_v0 \<and> pb_buffer q = [7]"
proof -
  let ?p = "tape_pre_auth SERVER None True [take 3 format_client_version_list, drop 3 format_client_version_list]"
  let ?cs = "[[0x46, 0x53], [], [0x50, 0x5F, 2, 0, 0], [0, 7]] :: bytes list"
  have "pieces [take 3 format_client_version_list, drop 3 format_client_version_list] format_client_version_list []"
    by (simp add: pieces_def format_client_version_list_def client_version_payload_eval)
  moreover have "pieces ?cs (format_server_selected_version (mk_version 0)) [7]"
    using first_message_bytes(1) by (simp add: pieces_def first_message_def)
  moreover have "on_tape tape_world" by (simp add: on_tape_def tape_world_def)
  ultimately show ?thesis
    using handshake_completes [of tape_world ?p _ "[]" "[]" "tape_pre_auth CLIENT None True ?cs" ?cs "[]" "[7]"]
    by (simp add: tape_pre_auth_def undecided_def addressable_def format_client_version_list_def client_version_payload_eval)
qed

end
