(* ===== verification/Spec2Isabelle.thy ===== *)
theory Spec2Isabelle
  imports Server_Runs Mapping_Archive Peer_Poll File_Hash Node_Objects Asked_Transfer Debug_Strings Ci_Strings File_Handles Certificates System_Utilities Handshake_Link
begin

text \<open>
  A verification development for libfsp, the library of the file share protocol: two devices
  connect over TLS, agree on a protocol version, are authorized once by their users and then list
  and exchange files of the folders they map.

  \<^bold>\<open>The program and its theories.\<close> From the bottom up:

  \<^item> \<open>Prelude\<close>: results as a sum of \<open>cpp_error\<close> and a value (exceptions, undefined behaviour and
    not returning are values), \<open>try_then\<close>, string views and their bounds, generic lemmas.
    \<open>Actions\<close>: member functions as state passing functions that may throw, with the rules for
    invariants (\<open>act_keeps\<close>) and for what holds after a normal return (\<open>act_ok\<close>).
  \<^item> \<open>VarInt\<close>, \<open>Serialize\<close>: \<open>Utils/VarInt\<close>, \<open>Utils/Serialize\<close>, \<open>Utils/Time.hpp\<close>; numbers are
    64-bit words, bytes are 8-bit words.
  \<^item> \<open>Protocol_Defs\<close>: \<open>Protocol/Definitions.hpp\<close>, \<open>RequestData\<close>, \<open>Version\<close>, the name tables of
    \<open>Protocol.cpp\<close>. \<open>File_Hash\<close>: \<open>Utils/FileHash.cpp\<close> over a digest; the peers take any hash
    function in its place. \<open>Codec\<close> and \<open>Framing\<close> are the two interfaces of formats and parsers as
    locales: a code that can be read back in front of anything, and a parser of frames in a stream.
  \<^item> \<open>Handshake_Format\<close>: \<open>Protocol/Handler/IProtocolHandler.cpp\<close> and class \<open>Protocol\<close>.
    \<open>Protocol_Handler\<close>: \<open>Handler/v0.0.0/ProtocolHandler.cpp\<close>; \<open>Protocol_Roundtrip\<close> proves that
    what is formatted is parsed back, \<open>Protocol_Safety\<close> what the parser does on everything else.
  \<^item> \<open>Message_Queue\<close>: \<open>MessageQueue.cpp\<close>, with its operations as a step relation.
    \<open>Known_Peers\<close>: \<open>Config/KnownPeerStore.cpp\<close>.
  \<^item> \<open>Paths\<close>, \<open>File_Mapping\<close>, \<open>Virtual_Paths\<close>: \<open>Utils/Path.cpp\<close> and \<open>Config/FileMapping.cpp\<close>. A
    path is its string; a node is a tree; the search with an explicit stack is compared with a
    recursive specification. \<open>Node_Objects\<close>: the same nodes as objects with addresses, parent
    pointers and cached ancestor paths, which implement the trees. \<open>Mapping_Archive\<close>: how they are
    saved and read back.
  \<^item> \<open>File_Transfer\<close>, \<open>Transfer_Laws\<close>: the four handlers of \<open>TransferHandler.cpp\<close> over a disk,
    a map from paths to contents.
  \<^item> \<open>Peer_Base\<close>, \<open>Peer_Poll\<close>: \<open>Peer/PeerBase.cpp\<close>, the certificate and the buffer loop, generic
    in the parser and the handler of the subclass. \<open>Pre_Auth_Peer\<close>: \<open>Peer/PreAuthPeer.cpp\<close>.
  \<^item> \<open>Request_Types\<close>, \<open>Peer\<close>, \<open>Peer_Invariants\<close>, \<open>Peer_Laws\<close>, \<open>Peer_Blocking\<close>:
    \<open>Peer/Peer.cpp\<close> and \<open>Peer_private.cpp\<close>: state and operations, then a hierarchy of locales
    that turns stability under elementary changes into invariants of every operation, the
    properties that rest on their interpretations, and the operations that wait. \<open>Transfer_Steps\<close>,
    \<open>Links\<close> and \<open>Two_Peers\<close> compose two peers with the bytes on the way between them, as a step relation
    over polls of either side, and follow the packets of a file; \<open>Asked_Transfer\<close> begins with the
    request for it.
  \<^item> \<open>Server\<close>, \<open>Server_Laws\<close>: \<open>Server.cpp\<close> and \<open>Utils/Vector.hpp\<close>: polling the descriptors,
    promoting peers, events. \<open>Blocking_Invariants\<close> and \<open>Server_Invariants\<close> carry the locales of the
    invariants on to the operations that wait and to a locale for servers; \<open>Promotion\<close> follows
    a device from its hello to a trusted peer, \<open>Handshake_Link\<close> the handshake on both sides in any
    pieces; \<open>Server_Runs\<close> has the
    constructor and everything that can happen to a server as a step relation, and what holds
    of every state it reaches.
  \<^item> \<open>File_System\<close>, \<open>Configuration\<close>, \<open>Server_Setup\<close>, \<open>Setup_Laws\<close>: the files the library keeps for
    itself: \<open>Config/Config.cpp\<close>, \<open>Config/ServerConfig.cpp\<close>, \<open>Config/Serialization.hpp\<close>, and of
    \<open>Server.cpp\<close> the private key, \<open>restart\<close> and \<open>set_disabled\<close>. \<open>Certificates\<close> sets the subject of
    the certificate it makes against what the other side reads of it.
  \<^item> \<open>Debug_Strings\<close>, \<open>Ci_Strings\<close>, \<open>File_Handles\<close>: the texts of \<open>Protocol/RequestData.cpp\<close> and the
    stream operators of \<open>Protocol.cpp\<close>; \<open>Utils/Strings.hpp\<close>, strings that ignore case, as an
    instance of \<open>preorder\<close>; \<open>Utils/FileDescriptor.cpp\<close>, the owners of descriptors and streams.
    \<open>System_Utilities\<close>: \<open>Utils/Poll.cpp\<close> and the timing of scopes in debug builds, \<open>Utils/DebugPerf.cpp\<close>.

  \<^bold>\<open>How they interact.\<close> The server owns the peers and polls their sockets; a readable socket makes
  \<open>poll_requests\<close> append the bytes to the buffer of the peer and hand every complete message to
  \<open>authorize_request\<close>, which answers it, feeds a transfer, or keeps it for the user. A connection
  starts as a \<open>PreAuthPeer\<close> among the handshake peers, becomes pending or, when its key is known,
  a \<open>Peer\<close>. Peers are shared objects: the server model holds them in stores by address.

  \<^bold>\<open>What the lemmas show.\<close> Formats and parsers: round trips, cutting of streams, what is undefined.
  Queue: identifiers, slots, termination of the search for a free identifier. Paths and mapping:
  the tree invariant, the two translations, what a lookup can reach. Transfers: a file arrives
  when its packets come in order, and what happens when they do not; between two peers a file
  that one asks for arrives however the network times and cuts the messages, after a bounded number of polls. Peers: every request is
  answered, which files are opened or written, types of payloads, what a waiting peer can do.
  Server: how a handshake ends and who is trusted, what one peer can do to the loop, and how its key and its configuration
  are kept on the disk.

  \<^bold>\<open>Bounds and loops.\<close> No fuel is used. Loops over data are structural or have a termination proof;
  the search for a free message id is shown to end or is the value \<open>Does_not_return\<close>; the loops
  that wait for the other side are partial functions with the value \<open>None\<close> when they never return.
  Sizes are 64-bit words; \<open>addressable\<close> says that a buffer fits into memory.

  \<^bold>\<open>Parameters.\<close> The TLS socket, certificates, \<open>poll\<close>, the hash of a file, whether a file can be
  created, directories and dates, the order of a hash map, the lookup in a hash set of paths and
  the growth of a vector are arguments, in the records \<open>socket_ops\<close>, \<open>peer_world\<close> and
  \<open>server_world\<close>; likewise what cereal archives, OpenSSL's keys and the system's permission to
  change a file are, in \<open>config_world\<close>, \<open>key_world\<close> and \<open>listen_world\<close>. Examples use a socket made of a tape of reads.

  \<^bold>\<open>Not modelled.\<close> What OpenSSL and cereal do inside a call (see the parameters);
  Windows branches; progress callbacks; the making of RSA keys and the fields of a certificate other
  than its names, which are calls of OpenSSL with constants.
\<close>

end
